(* ===== verification/Prelude.thy ===== *)
theory Prelude
  imports Main "HOL-Library.Monad_Syntax" "HOL-Library.Sublist"
begin

text \<open>
  Shared vocabulary of the development. A Go string or byte slice is a \<open>string\<close>
  (a list of 8-bit characters, so its length counts bytes). Offsets, lengths and counts of
  Go's type \<open>int\<close> are \<open>int\<close> values; where a sum of caller-supplied numbers could
  leave the 64-bit range the wrap-around is written out (\<open>add64\<close>). Reading or slicing
  out of range is a run-time panic in Go: \<open>byte_at\<close> and \<open>slice\<close> return
  \<open>None\<close> there, and a definition that slices runs in the option monad, so that
  \<open>None\<close> is a panic (or a loop that never returns).
\<close>

named_theorems go_eval \<open>equations that evaluate the model on concrete inputs\<close>
named_theorems spans \<open>facts about byte offsets, slices and spans\<close>

subsection \<open>Byte strings\<close>

abbreviation len :: "'a list \<Rightarrow> int" where
  "len s \<equiv> int (length s)"

definition byte_at :: "string \<Rightarrow> int \<Rightarrow> char option" where
  "byte_at s i = (if 0 \<le> i \<and> i < len s then Some (s ! nat i) else None)"

definition slice :: "string \<Rightarrow> int \<Rightarrow> int \<Rightarrow> string option" where
  "slice s a b =
     (if 0 \<le> a \<and> a \<le> b \<and> b \<le> len s then Some (take (nat (b - a)) (drop (nat a) s)) else None)"

declare byte_at_def [go_eval] slice_def [go_eval] Let_def [go_eval]

abbreviation byte_val :: "char \<Rightarrow> nat" where
  "byte_val c \<equiv> of_char c"

abbreviation LF :: char where "LF \<equiv> CHR 0x0A"
abbreviation CR :: char where "CR \<equiv> CHR 0x0D"
abbreviation TAB :: char where "TAB \<equiv> CHR 0x09"

lemma byte_at_Some_iff [spans]:
  "byte_at s i = Some c \<longleftrightarrow> 0 \<le> i \<and> i < len s \<and> s ! nat i = c"
  by (auto simp: byte_at_def)

lemma slice_Some_iff [spans]:
  "slice s a b = Some t \<longleftrightarrow>
     0 \<le> a \<and> a \<le> b \<and> b \<le> len s \<and> t = take (nat (b - a)) (drop (nat a) s)"
  by (auto simp: slice_def)

lemma slice_in_range:
  "0 \<le> a \<Longrightarrow> a \<le> b \<Longrightarrow> b \<le> len s \<Longrightarrow>
     slice s a b = Some (take (nat (b - a)) (drop (nat a) s))"
  by (simp add: slice_def)

lemma slice_whole [simp]: "slice s 0 (len s) = Some s"
  by (simp add: slice_def)

lemma slice_length: "slice s a b = Some t \<Longrightarrow> len t = b - a"
  by (auto simp: slice_Some_iff)

lemma slice_nth:
  "slice s a b = Some t \<Longrightarrow> i < length t \<Longrightarrow> t ! i = s ! (nat a + i)"
  by (auto simp: slice_Some_iff)

lemma slice_append:
  assumes "slice s a b = Some t" and "slice s b c = Some u"
  shows "slice s a c = Some (t @ u)"
proof -
  from assms have r: "0 \<le> a" "a \<le> b" "b \<le> c" "c \<le> len s"
    and t: "t = take (nat (b - a)) (drop (nat a) s)"
    and u: "u = take (nat (c - b)) (drop (nat b) s)"
    by (auto simp: slice_Some_iff)
  have "nat (c - a) = nat (b - a) + nat (c - b)" and "nat b = nat (b - a) + nat a"
    using r by auto
  then have "take (nat (c - a)) (drop (nat a) s) = t @ u"
    by (simp add: t u take_add)
  with r show ?thesis by (simp add: slice_def)
qed

text \<open>Slicing a slice.\<close>

lemma slice_slice:
  assumes "slice s a b = Some t" and "slice t i j = Some u"
  shows "slice s (a + i) (a + j) = Some u"
proof -
  from assms(1) have r: "0 \<le> a" "a \<le> b" "b \<le> len s"
    and t: "t = take (nat (b - a)) (drop (nat a) s)"
    by (auto simp: slice_Some_iff)
  from slice_length [OF assms(1)] have lt: "len t = b - a" .
  from assms(2) lt have q: "0 \<le> i" "i \<le> j" "j \<le> b - a"
    and u: "u = take (nat (j - i)) (drop (nat i) t)"
    by (auto simp: slice_Some_iff)
  have "nat (a + i) = nat i + nat a" using r q by auto
  moreover have "nat (j - i) \<le> nat (b - a) - nat i" using q by auto
  ultimately have "u = take (nat (j - i)) (drop (nat (a + i)) s)"
    unfolding u t by (simp add: drop_take min_def)
  with r q show ?thesis by (simp add: slice_def)
qed

subsection \<open>Go's int: 64-bit two's complement\<close>

definition wrap64 :: "int \<Rightarrow> int" where
  "wrap64 x = (x + 2 ^ 63) mod 2 ^ 64 - 2 ^ 63"

definition add64 :: "int \<Rightarrow> int \<Rightarrow> int" where
  "add64 a b = wrap64 (a + b)"

declare wrap64_def [go_eval] add64_def [go_eval]

abbreviation int64_ok :: "int \<Rightarrow> bool" where
  "int64_ok x \<equiv> - (2 ^ 63) \<le> x \<and> x < 2 ^ 63"

lemma wrap64_id: "int64_ok x \<Longrightarrow> wrap64 x = x"
  by (simp add: wrap64_def mod_pos_pos_trivial)

lemma wrap64_range: "int64_ok (wrap64 x)"
  using pos_mod_sign [of "2 ^ 64" "x + 2 ^ 63"] pos_mod_bound [of "2 ^ 64" "x + 2 ^ 63"]
  by (simp add: wrap64_def)

lemma add64_id: "int64_ok (a + b) \<Longrightarrow> add64 a b = a + b"
  by (simp add: add64_def wrap64_id)

subsection \<open>Options as results\<close>

text \<open>
  Evaluation of a bind looks at the first computation only, as \<open>if\<close> looks at its guard:
  without it the simplifier would unfold a recursive call below the bind forever.
\<close>

lemma bind_weak_cong: "m = m' \<Longrightarrow> Option.bind m f = Option.bind m' f"
  by simp

lemmas eval_congs = bind_weak_cong let_weak_cong

lemma case_sum_eq:
  "(case x of Inl a \<Rightarrow> f a | Inr b \<Rightarrow> g b) = y \<longleftrightarrow>
     (\<exists>a. x = Inl a \<and> f a = y) \<or> (\<exists>b. x = Inr b \<and> g b = y)"
  by (cases x) auto

lemma case_option_eq:
  "(case x of None \<Rightarrow> f | Some b \<Rightarrow> g b) = y \<longleftrightarrow> (x = None \<and> f = y) \<or> (\<exists>b. x = Some b \<and> g b = y)"
  by (cases x) auto

lemma bind_eq_Some: "Option.bind m f = Some y \<longleftrightarrow> (\<exists>x. m = Some x \<and> f x = Some y)"
  by (cases m) auto

subsection \<open>Ascending lists of offsets\<close>

lemma sorted_wrt_less_append:
  fixes xs :: "int list"
  assumes "sorted_wrt (<) xs" and "sorted_wrt (<) ys"
    and "\<forall>x \<in> set xs. x < m" and "\<forall>y \<in> set ys. m \<le> y"
  shows "sorted_wrt (<) (xs @ ys)"
  using assms by (force simp: sorted_wrt_append)

end
