(* ===== verification/Go_Strings.thy ===== *)
theory Go_Strings
  imports Prelude
begin

text \<open>
  The part of Go's standard library the program uses on strings: \<open>unicode/utf8\<close>
  (decoding, validity, rune boundaries), \<open>unicode.IsSpace\<close> and the functions of
  package \<open>strings\<close>. A rune is a \<open>nat\<close> (its code point). The main facts are that
  decoding always consumes at least one byte, that the bytes after the first of a decoded
  rune are continuation bytes, and that a valid string cut at rune boundaries is made of
  valid strings.
\<close>

subsection \<open>unicode/utf8\<close>

definition RuneError :: nat where "RuneError = 0xFFFD"

definition RuneStart :: "char \<Rightarrow> bool" where
  "RuneStart b \<longleftrightarrow> byte_val b div 64 \<noteq> 2"

definition byte_in :: "nat \<Rightarrow> nat \<Rightarrow> char \<Rightarrow> bool" where
  "byte_in lo hi b \<longleftrightarrow> lo \<le> byte_val b \<and> byte_val b \<le> hi"

abbreviation cont_byte :: "char \<Rightarrow> bool" where
  "cont_byte b \<equiv> byte_in 0x80 0xBF b"

text \<open>
  The size of the encoding a first byte announces (0 if no encoding starts with it), and
  the range its second byte must lie in.
\<close>

definition lead_size :: "nat \<Rightarrow> nat" where
  "lead_size v =
     (if v < 0x80 then 1 else if v < 0xC2 then 0 else if v < 0xE0 then 2
      else if v < 0xF0 then 3 else if v < 0xF5 then 4 else 0)"

definition lead_base :: "nat \<Rightarrow> nat" where
  "lead_base v = (if v < 0x80 then 0 else if v < 0xE0 then 0xC0 else if v < 0xF0 then 0xE0 else 0xF0)"

definition accept_lo :: "nat \<Rightarrow> nat" where
  "accept_lo v = (if v = 0xE0 then 0xA0 else if v = 0xF0 then 0x90 else 0x80)"

definition accept_hi :: "nat \<Rightarrow> nat" where
  "accept_hi v = (if v = 0xED then 0x9F else if v = 0xF4 then 0x8F else 0xBF)"

text \<open>The size of the well-formed encoding a string starts with, 0 if there is none.\<close>

fun enc_size :: "string \<Rightarrow> nat" where
  "enc_size [] = 0"
| "enc_size (b0 # r) =
     (let v = byte_val b0; n = lead_size v in
      if n \<le> 1 then n
      else if n \<le> Suc (length r) \<and> byte_in (accept_lo v) (accept_hi v) (hd r)
              \<and> list_all cont_byte (take (n - 2) (tl r)) then n
      else 0)"

definition rune_val :: "string \<Rightarrow> nat" where
  "rune_val s =
     foldl (\<lambda>acc b. acc * 64 + (byte_val b - 0x80))
       (byte_val (hd s) - lead_base (byte_val (hd s))) (take (enc_size s - 1) (tl s))"

text \<open>
  \<open>DecodeRuneInString\<close>: the first rune and its size in bytes, \<open>(RuneError, 0)\<close> for
  the empty string and \<open>(RuneError, 1)\<close> for an invalid encoding.
\<close>

definition DecodeRune :: "string \<Rightarrow> nat \<times> nat" where
  "DecodeRune s =
     (if s = [] then (RuneError, 0)
      else if enc_size s = 0 then (RuneError, 1)
      else (rune_val s, enc_size s))"

definition rune_size :: "string \<Rightarrow> nat" where
  "rune_size s = snd (DecodeRune s)"

text \<open>The string starts with a well-formed encoding.\<close>

definition rune_ok :: "string \<Rightarrow> bool" where
  "rune_ok s \<longleftrightarrow> 0 < enc_size s"

declare RuneError_def [go_eval] RuneStart_def [go_eval] byte_in_def [go_eval]
  accept_lo_def [go_eval] accept_hi_def [go_eval] lead_size_def [go_eval]
  lead_base_def [go_eval] rune_val_def [go_eval] DecodeRune_def [go_eval]
  rune_size_def [go_eval] rune_ok_def [go_eval]

lemma byte_val_less: "byte_val b < (256::nat)"
  by (metis of_char_mod_256 mod_less_divisor zero_less_numeral)

lemma rune_size_eq: "rune_size s = (if s = [] then 0 else if enc_size s = 0 then 1 else enc_size s)"
  by (simp add: rune_size_def DecodeRune_def)

lemma rune_size_Nil [simp]: "rune_size [] = 0"
  by (simp add: rune_size_eq)

lemma enc_size_le: "enc_size s \<le> length s"
  by (cases s) (auto simp: Let_def)

lemma enc_size_nonempty: "0 < enc_size s \<Longrightarrow> s \<noteq> []"
  by auto

lemma rune_size_bounds: "s \<noteq> [] \<Longrightarrow> 1 \<le> rune_size s \<and> rune_size s \<le> length s"
  using enc_size_le [of s] by (cases s) (auto simp: rune_size_eq simp del: enc_size.simps)

lemma rune_size_pos: "s \<noteq> [] \<Longrightarrow> 0 < rune_size s"
  using rune_size_bounds [of s] by simp

lemma rune_size_le: "rune_size s \<le> length s"
  using rune_size_bounds [of s] by (cases "s = []") auto

lemma enc_size_ascii: "s \<noteq> [] \<Longrightarrow> byte_val (hd s) < 0x80 \<Longrightarrow> enc_size s = 1"
  by (cases s) (simp_all add: lead_size_def)

lemma rune_size_ascii: "s \<noteq> [] \<Longrightarrow> byte_val (hd s) < 0x80 \<Longrightarrow> rune_size s = 1"
  by (simp add: rune_size_eq enc_size_ascii)

lemma byte_in_cont: "byte_in lo hi b \<Longrightarrow> 0x80 \<le> lo \<Longrightarrow> hi \<le> 0xBF \<Longrightarrow> \<not> RuneStart b"
proof -
  assume "byte_in lo hi b" "0x80 \<le> lo" "hi \<le> 0xBF"
  then have "128 \<le> (byte_val b :: nat)" "(byte_val b :: nat) < 192"
    by (auto simp: byte_in_def)
  then have "(byte_val b :: nat) div 64 = 2" by (intro div_nat_eqI) auto
  then show ?thesis by (simp add: RuneStart_def)
qed

lemma accept_bounds: "0x80 \<le> accept_lo v" "accept_hi v \<le> 0xBF"
  by (auto simp: accept_lo_def accept_hi_def)

lemma accept_cont: "byte_in (accept_lo v) (accept_hi v) b \<Longrightarrow> \<not> RuneStart b"
  by (rule byte_in_cont [OF _ accept_bounds])

lemma cont_byte_not_start: "cont_byte b \<Longrightarrow> \<not> RuneStart b"
  by (rule byte_in_cont) auto

text \<open>After its first byte, a decoded rune holds continuation bytes only.\<close>

lemma enc_size_cont:
  assumes i: "0 < i" "i < enc_size s"
  shows "\<not> RuneStart (s ! i)"
proof (cases s)
  case (Cons b0 r)
  let ?v = "byte_val b0 :: nat" and ?n = "lead_size (byte_val b0)"
  from Cons i have n: "enc_size s = ?n" "?n \<le> Suc (length r)"
    and acc: "byte_in (accept_lo ?v) (accept_hi ?v) (hd r)"
    and conts: "list_all cont_byte (take (?n - 2) (tl r))"
    by (auto simp: Let_def split: if_splits)
  show ?thesis
  proof (cases "i = 1")
    case True
    then show ?thesis using acc accept_cont Cons i n by (cases r) auto
  next
    case False
    then have j: "i - 2 < ?n - 2" "i - 2 < length (tl r)" using i n by auto
    then have "take (?n - 2) (tl r) ! (i - 2) = s ! i"
      using False i n Cons by (auto simp: nth_tl numeral_2_eq_2 Suc_diff_Suc)
    then have "cont_byte (s ! i)"
      using conts j by (metis length_take list_all_length min_less_iff_conj)
    then show ?thesis by (rule cont_byte_not_start)
  qed
qed (use i in simp)

lemma rune_size_cont: "0 < i \<Longrightarrow> i < rune_size s \<Longrightarrow> \<not> RuneStart (s ! i)"
  by (rule enc_size_cont) (auto simp: rune_size_eq split: if_splits)

lemma RuneStart_lead:
  assumes "byte_val b < (0x80::nat) \<or> 0xC0 \<le> (byte_val b :: nat)"
  shows "RuneStart b"
proof -
  have "v div 64 \<noteq> 2" if "v < 128 \<or> 192 \<le> v" for v :: nat
  proof
    assume "v div 64 = 2"
    then have "2 * 64 \<le> v" "v < 3 * 64"
      using div_times_less_eq_dividend [of v 64] dividend_less_div_times [of 64 v] by auto
    with that show False by simp
  qed
  with assms show ?thesis by (simp add: RuneStart_def)
qed

lemma RuneStart_ascii: "byte_val b < (0x80::nat) \<Longrightarrow> RuneStart b"
  by (simp add: RuneStart_lead)

lemma rune_ok_start: "rune_ok s \<Longrightarrow> RuneStart (hd s)"
  by (cases s) (auto simp: rune_ok_def lead_size_def Let_def split: if_splits intro!: RuneStart_lead)

lemma rune_ok_not_Nil: "rune_ok s \<Longrightarrow> s \<noteq> []"
  by (auto simp: rune_ok_def)

lemma rune_ok_size: "rune_ok s \<Longrightarrow> rune_size s = enc_size s"
  by (auto simp: rune_ok_def rune_size_eq)

text \<open>Decoding looks at the bytes of the rune only.\<close>

lemma enc_size_append: "0 < enc_size s \<Longrightarrow> enc_size (s @ t) = enc_size s"
proof (cases s)
  case (Cons b0 r)
  assume ok: "0 < enc_size s"
  show ?thesis
  proof (cases "lead_size (byte_val b0) \<le> 1")
    case False
    with ok Cons have "lead_size (byte_val b0) \<le> Suc (length r)"
      by (simp add: Let_def split: if_splits)
    with False have "r \<noteq> []" and "lead_size (byte_val b0) - 2 \<le> length (tl r)"
      by auto
    with ok Cons show ?thesis by (simp add: Let_def split: if_splits)
  qed (use Cons in simp)
qed simp

lemma enc_size_take: "0 < enc_size s \<Longrightarrow> enc_size s \<le> n \<Longrightarrow> enc_size (take n s) = enc_size s"
proof (cases s)
  case (Cons b0 r)
  assume ok: "0 < enc_size s" and n: "enc_size s \<le> n"
  let ?m = "lead_size (byte_val b0)"
  show ?thesis
  proof (cases "?m \<le> 1")
    case True
    with ok n Cons show ?thesis by (cases n) auto
  next
    case False
    with ok Cons have m: "enc_size s = ?m" "?m \<le> Suc (length r)"
      by (auto simp: Let_def split: if_splits)
    then obtain k where k: "n = Suc (Suc k)" "?m - 2 \<le> k"
      using False n by (cases n; cases "n - 1") auto
    obtain b1 r' where r: "r = b1 # r'" using False m by (cases r) auto
    show ?thesis using ok Cons False m k r n
      by (auto simp: Let_def min_def split: if_splits)
  qed
qed simp

subsection \<open>Valid strings\<close>

function ValidString :: "string \<Rightarrow> bool" where
  "ValidString s =
     (if s = [] then True else rune_ok s \<and> ValidString (drop (rune_size s) s))"
  by pat_completeness auto
termination
  by (relation "measure length") (auto simp: rune_size_pos)

declare ValidString.simps [simp del, go_eval]

lemma ValidString_Nil [simp]: "ValidString []"
  by (simp add: ValidString.simps)

lemma ValidString_step:
  "s \<noteq> [] \<Longrightarrow> ValidString s \<longleftrightarrow> rune_ok s \<and> ValidString (drop (rune_size s) s)"
  by (subst ValidString.simps) simp

text \<open>A position where a string may be cut: its ends and the first bytes of its runes.\<close>

definition aligned :: "string \<Rightarrow> nat \<Rightarrow> bool" where
  "aligned s i \<longleftrightarrow> i = 0 \<or> i = length s \<or> (i < length s \<and> RuneStart (s ! i))"

lemma aligned_0 [simp]: "aligned s 0"
  and aligned_length [simp]: "aligned s (length s)"
  by (simp_all add: aligned_def)

lemma aligned_not_inside:
  assumes "aligned s i" and "0 < i" and "i < rune_size s"
  shows False
  using assms rune_size_cont [of i s] rune_size_le [of s] by (auto simp: aligned_def)

lemma aligned_drop:
  assumes "ValidString s" and "s \<noteq> []" and "rune_size s \<le> i"
  shows "aligned s i \<longleftrightarrow> aligned (drop (rune_size s) s) (i - rune_size s) \<or> i = rune_size s"
proof -
  let ?n = "rune_size s"
  have n: "0 < ?n" "?n \<le> length s" using assms(2) rune_size_bounds [of s] by auto
  show ?thesis
  proof (cases "i = ?n")
    case False
    then have "aligned s i \<longleftrightarrow> aligned (drop ?n s) (i - ?n)"
      using n assms(3) by (auto simp: aligned_def)
    with False show ?thesis by simp
  next
    case True
    have "aligned s ?n"
    proof (cases "?n = length s")
      case False
      then have "drop ?n s \<noteq> []" using n by auto
      moreover have "ValidString (drop ?n s)"
        using assms by (simp add: ValidString_step)
      ultimately have "rune_ok (drop ?n s)" by (simp add: ValidString_step)
      then have "RuneStart (s ! ?n)"
        using False n by (metis hd_drop_conv_nth le_neq_implies_less rune_ok_start)
      then show ?thesis using False n by (simp add: aligned_def)
    qed (simp add: aligned_def)
    with True show ?thesis by simp
  qed
qed

text \<open>Cutting a valid string at a rune boundary leaves two valid strings.\<close>

lemma ValidString_cut:
  assumes "ValidString s" and "aligned s i"
  shows "ValidString (take i s) \<and> ValidString (drop i s)"
  using assms
proof (induction s arbitrary: i rule: ValidString.induct)
  case (1 s)
  show ?case
  proof (cases "s = [] \<or> i = 0")
    case True
    with "1.prems" show ?thesis by auto
  next
    case False
    let ?n = "rune_size s"
    from False "1.prems" have ok: "rune_ok s" and v: "ValidString (drop ?n s)"
      by (auto simp: ValidString_step)
    have ni: "?n \<le> i"
      using False aligned_not_inside [OF "1.prems"(2)] by force
    have cut: "aligned (drop ?n s) (i - ?n)"
      using aligned_drop [OF "1.prems"(1) _ ni] "1.prems"(2) False by auto
    have IH: "ValidString (take (i - ?n) (drop ?n s)) \<and> ValidString (drop (i - ?n) (drop ?n s))"
      using "1.IH" [OF _ v cut] False by blast
    have e: "enc_size (take i s) = enc_size s"
      using ok ni by (intro enc_size_take) (auto simp: rune_ok_def rune_ok_size)
    then have okt: "rune_ok (take i s)" using ok by (simp add: rune_ok_def)
    then have size: "rune_size (take i s) = ?n"
      using ok e by (simp add: rune_ok_size)
    have ne: "take i s \<noteq> []" using False by simp
    from okt have "ValidString (take i s)"
      using IH ne by (simp add: ValidString_step size drop_take)
    moreover have "ValidString (drop i s)"
      using IH ni by simp
    ultimately show ?thesis ..
  qed
qed

lemma aligned_after_rune:
  assumes "ValidString s" and "aligned s i" and "i < length s"
  shows "aligned s (i + rune_size (drop i s))"
proof -
  let ?t = "drop i s"
  have t: "?t \<noteq> []" using assms(3) by simp
  have v: "ValidString ?t" using ValidString_cut [OF assms(1,2)] by simp
  have "aligned ?t (rune_size ?t)"
    using aligned_drop [OF v t, of "rune_size ?t"] by simp
  moreover have "0 < rune_size ?t" "rune_size ?t \<le> length ?t"
    using rune_size_bounds [OF t] by auto
  ultimately show ?thesis
    using assms(3) by (auto simp: aligned_def add.commute)
qed

lemma ValidString_append:
  "ValidString s \<Longrightarrow> ValidString t \<Longrightarrow> ValidString (s @ t)"
proof (induction s rule: ValidString.induct)
  case (1 s)
  show ?case
  proof (cases "s = []")
    case False
    with "1.prems" have ok: "rune_ok s" and v: "ValidString (drop (rune_size s) s)"
      by (auto simp: ValidString_step)
    have e: "enc_size (s @ t) = enc_size s"
      using ok by (intro enc_size_append) (simp add: rune_ok_def)
    then have okt: "rune_ok (s @ t)" using ok by (simp add: rune_ok_def)
    then have size: "rune_size (s @ t) = rune_size s"
      using ok e by (simp add: rune_ok_size)
    from okt show ?thesis
      using "1.IH" [OF False v "1.prems"(2)] False rune_size_le [of s]
      by (simp add: ValidString_step size)
  qed (use "1.prems" in simp)
qed

text \<open>The slice between two rune boundaries of a valid string is valid.\<close>

lemma ValidString_slice:
  assumes "ValidString s" and "aligned s (nat a)" and "aligned s (nat b)"
    and "slice s a b = Some t"
  shows "ValidString t"
proof -
  from assms(4) have r: "0 \<le> a" "a \<le> b" "b \<le> len s"
    and t: "t = take (nat (b - a)) (drop (nat a) s)"
    by (auto simp: slice_Some_iff)
  have v: "ValidString (take (nat b) s)"
    using ValidString_cut [OF assms(1,3)] by simp
  have "aligned (take (nat b) s) (nat a)"
    using assms(2) r by (auto simp: aligned_def min_def)
  then have "ValidString (drop (nat a) (take (nat b) s))"
    using ValidString_cut [OF v] by simp
  moreover have "drop (nat a) (take (nat b) s) = t"
    using r by (simp add: t drop_take nat_diff_distrib)
  ultimately show ?thesis by simp
qed

subsection \<open>Iterating over runes\<close>

function runes :: "string \<Rightarrow> nat list" where
  "runes s = (if s = [] then [] else fst (DecodeRune s) # runes (drop (rune_size s) s))"
  by pat_completeness auto
termination
  by (relation "measure length") (auto simp: rune_size_pos)

declare runes.simps [simp del]

text \<open>\<open>RuneCountInString\<close>: an invalid byte counts as one rune.\<close>

definition RuneCount :: "string \<Rightarrow> int" where
  "RuneCount s = len (runes s)"

text \<open>\<open>for i, r := range s\<close>: the byte offset and the rune of every iteration.\<close>

function range_runes :: "int \<Rightarrow> string \<Rightarrow> (int \<times> nat) list" where
  "range_runes i s =
     (if s = [] then []
      else (i, fst (DecodeRune s)) # range_runes (i + int (rune_size s)) (drop (rune_size s) s))"
  by pat_completeness auto
termination
  by (relation "measure (\<lambda>(i, s). length s)") (auto simp: rune_size_pos)

declare range_runes.simps [simp del]
declare runes.simps [go_eval] RuneCount_def [go_eval] range_runes.simps [go_eval]

lemma runes_Nil [simp]: "runes [] = []"
  by (simp add: runes.simps)

lemma runes_length: "length (runes s) \<le> length s"
proof (induction s rule: runes.induct)
  case (1 s)
  then show ?case
    using rune_size_bounds [of s] by (subst runes.simps) auto
qed

text \<open>Runes of a concatenation, when the first part is valid.\<close>

lemma runes_append: "ValidString s \<Longrightarrow> length (runes (s @ t)) = length (runes s) + length (runes t)"
proof (induction s rule: ValidString.induct)
  case (1 s)
  show ?case
  proof (cases "s = []")
    case False
    with "1.prems" have ok: "rune_ok s" and v: "ValidString (drop (rune_size s) s)"
      by (auto simp: ValidString_step)
    have "rune_ok (s @ t)" and size: "rune_size (s @ t) = rune_size s"
      using ok enc_size_append [of s t] by (auto simp: rune_ok_def rune_size_eq)
    have "length (runes (s @ t)) = Suc (length (runes (drop (rune_size s) s @ t)))"
      using False rune_size_le [of s] by (subst runes.simps) (simp add: size)
    also have "\<dots> = Suc (length (runes (drop (rune_size s) s)) + length (runes t))"
      using "1.IH" [OF False v] by simp
    also have "\<dots> = length (runes s) + length (runes t)"
      using False runes.simps [of s] by simp
    finally show ?thesis .
  qed simp
qed

lemma range_runes_range: "(j, r) \<in> set (range_runes i s) \<Longrightarrow> i \<le> j \<and> j < i + len s"
proof (induction i s rule: range_runes.induct)
  case (1 i s)
  then show ?case
    using rune_size_bounds [of s]
    by (subst (asm) range_runes.simps) (auto split: if_splits)
qed

subsection \<open>unicode.IsSpace and package strings\<close>

definition IsSpace :: "nat \<Rightarrow> bool" where
  "IsSpace r \<longleftrightarrow>
     9 \<le> r \<and> r \<le> 13 \<or> r = 0x20 \<or> r = 0x85 \<or> r = 0xA0 \<or> r = 0x1680
     \<or> 0x2000 \<le> r \<and> r \<le> 0x200A \<or> r = 0x2028 \<or> r = 0x2029 \<or> r = 0x202F \<or> r = 0x205F \<or> r = 0x3000"

function TrimLeftFunc :: "string \<Rightarrow> (nat \<Rightarrow> bool) \<Rightarrow> string" where
  "TrimLeftFunc s f =
     (if s = [] then []
      else if f (fst (DecodeRune s)) then TrimLeftFunc (drop (rune_size s) s) f else s)"
  by pat_completeness auto
termination
  by (relation "measure (\<lambda>(s, f). length s)") (auto simp: rune_size_pos)

declare TrimLeftFunc.simps [simp del]

text \<open>
  \<open>DecodeLastRuneInString\<close> looks back over at most four bytes for the first byte of a
  rune and accepts it if the rune that starts there ends the string.
\<close>

definition last_start :: "string \<Rightarrow> nat" where
  "last_start s =
     (let e = length s; lim = e - 4 in
      case filter (\<lambda>i. RuneStart (s ! i)) (rev [lim ..< e - 1]) of i # _ \<Rightarrow> i | [] \<Rightarrow> lim - 1)"

definition DecodeLastRune :: "string \<Rightarrow> nat \<times> nat" where
  "DecodeLastRune s =
     (if s = [] then (RuneError, 0)
      else if byte_val (last s) < (0x80::nat) then (byte_val (last s), 1)
      else if last_start s + rune_size (drop (last_start s) s) \<noteq> length s then (RuneError, 1)
      else DecodeRune (drop (last_start s) s))"

text \<open>
  Trimming at the right end, one rune at a time. (The library measures the last kept rune
  forwards from its start; for \<open>IsSpace\<close>, the only predicate the program trims with,
  that is the same cut, because a space never starts with a continuation byte.)
\<close>

lemma last_start_less: "s \<noteq> [] \<Longrightarrow> last_start s < length s"
proof -
  assume "s \<noteq> []"
  have "i < length s" if "filter P (rev [a ..< length s - 1]) = i # rest" for P a i rest
  proof -
    have "i \<in> set (filter P (rev [a ..< length s - 1]))" using that by simp
    then show ?thesis by auto
  qed
  with \<open>s \<noteq> []\<close> show ?thesis
    by (auto simp: last_start_def Let_def split: list.splits)
qed

lemma DecodeLastRune_pos: "s \<noteq> [] \<Longrightarrow> 0 < snd (DecodeLastRune s)"
  using rune_size_pos [of "drop (last_start s) s"] last_start_less [of s]
  by (auto simp: DecodeLastRune_def simp flip: rune_size_def)

function TrimRightFunc :: "string \<Rightarrow> (nat \<Rightarrow> bool) \<Rightarrow> string" where
  "TrimRightFunc s f =
     (if s = [] then []
      else if f (fst (DecodeLastRune s))
        then TrimRightFunc (take (length s - snd (DecodeLastRune s)) s) f else s)"
  by pat_completeness auto
termination
  by (relation "measure (\<lambda>(s, f). length s)") (auto simp: DecodeLastRune_pos)

declare TrimRightFunc.simps [simp del]

definition TrimSpace :: "string \<Rightarrow> string" where
  "TrimSpace s = TrimRightFunc (TrimLeftFunc s IsSpace) IsSpace"

declare IsSpace_def [go_eval] TrimLeftFunc.simps [go_eval] last_start_def [go_eval]
  DecodeLastRune_def [go_eval] TrimRightFunc.simps [go_eval] TrimSpace_def [go_eval]

text \<open>\<open>strings.Trim\<close> and \<open>strings.TrimRight\<close> with an ASCII cut set.\<close>

definition TrimRight :: "string \<Rightarrow> string \<Rightarrow> string" where
  "TrimRight s cutset = rev (dropWhile (\<lambda>c. c \<in> set cutset) (rev s))"

definition Trim :: "string \<Rightarrow> string \<Rightarrow> string" where
  "Trim s cutset = TrimRight (dropWhile (\<lambda>c. c \<in> set cutset) s) cutset"

text \<open>\<open>strings.IndexByte\<close>: the first index of a byte, or \<open>-1\<close>.\<close>

fun IndexByte :: "string \<Rightarrow> char \<Rightarrow> int" where
  "IndexByte [] c = -1"
| "IndexByte (b # s) c =
     (if b = c then 0 else let k = IndexByte s c in if k < 0 then -1 else k + 1)"

declare TrimRight_def [go_eval] Trim_def [go_eval] IndexByte.simps [go_eval]

lemma IndexByte_neg: "IndexByte s c < 0 \<longleftrightarrow> c \<notin> set s"
  by (induction s) (auto simp: Let_def)

lemma IndexByte_bounds: "IndexByte s c < len s" "-1 \<le> IndexByte s c"
  by (induction s) (auto simp: Let_def)

lemma IndexByte_hit:
  "0 \<le> IndexByte s c \<Longrightarrow>
     s ! nat (IndexByte s c) = c \<and> c \<notin> set (take (nat (IndexByte s c)) s)"
proof (induction s)
  case (Cons b s)
  then show ?case
    by (cases "IndexByte s c < 0"; cases "b = c") (auto simp: Let_def nat_add_distrib)
qed simp

subsection \<open>Trimming leaves a part of the string\<close>

lemma TrimLeftFunc_drop: "\<exists>k \<le> length s. TrimLeftFunc s f = drop k s \<and> (ValidString s \<longrightarrow> aligned s k)"
proof (induction s f rule: TrimLeftFunc.induct)
  case (1 s f)
  show ?case
  proof (cases "s \<noteq> [] \<and> f (fst (DecodeRune s))")
    case True
    let ?n = "rune_size s"
    have n: "?n \<le> length s" by (rule rune_size_le)
    from True obtain k where k: "k \<le> length (drop ?n s)"
      "TrimLeftFunc (drop ?n s) f = drop k (drop ?n s)"
      "ValidString (drop ?n s) \<longrightarrow> aligned (drop ?n s) k"
      using "1.IH" by blast
    have "ValidString s \<longrightarrow> aligned s (?n + k)"
      using k True aligned_drop [of s "?n + k"] by (auto simp: ValidString_step)
    moreover have "TrimLeftFunc s f = drop (?n + k) s"
      using True k by (subst TrimLeftFunc.simps) (simp add: add.commute)
    ultimately show ?thesis using k(1) n by (intro exI [of _ "?n + k"]) auto
  next
    case False
    then have "TrimLeftFunc s f = s" by (subst TrimLeftFunc.simps) auto
    then show ?thesis by (intro exI [of _ 0]) simp
  qed
qed

lemma DecodeLastRune_aligned:
  assumes "s \<noteq> []" and "fst (DecodeLastRune s) \<noteq> RuneError"
  shows "aligned s (length s - snd (DecodeLastRune s)) \<and> snd (DecodeLastRune s) \<le> length s"
proof (cases "byte_val (last s) < (0x80::nat)")
  case True
  then have d: "DecodeLastRune s = (byte_val (last s), 1)"
    using assms(1) by (simp add: DecodeLastRune_def)
  have "RuneStart (s ! (length s - 1))"
    using True RuneStart_ascii assms(1) by (simp add: last_conv_nth)
  then show ?thesis using assms(1) d by (auto simp: aligned_def Suc_le_eq)
next
  case False
  let ?t = "drop (last_start s) s"
  from False assms have d: "DecodeLastRune s = DecodeRune ?t"
    and e: "last_start s + rune_size ?t = length s"
    by (auto simp: DecodeLastRune_def split: if_splits)
  have "?t \<noteq> []" and "enc_size ?t \<noteq> 0"
    using assms(2) d by (auto simp: DecodeRune_def split: if_splits)
  then have "rune_ok ?t" by (simp add: rune_ok_def)
  then have "RuneStart (s ! last_start s)"
    using \<open>?t \<noteq> []\<close> by (metis hd_drop_conv_nth drop_eq_Nil not_le rune_ok_start)
  moreover have "snd (DecodeLastRune s) = rune_size ?t"
    by (simp add: d rune_size_def)
  moreover have "length s - rune_size ?t = last_start s" "last_start s < length s"
    using e \<open>?t \<noteq> []\<close> by auto
  ultimately show ?thesis
    using e by (simp add: aligned_def)
qed

lemma aligned_take: "aligned (take m s) k \<Longrightarrow> aligned s m \<Longrightarrow> m \<le> length s \<Longrightarrow> aligned s k"
  by (cases "k < m") (auto simp: aligned_def min_absorb2)

lemma TrimRightFunc_take:
  "\<not> f RuneError \<Longrightarrow> \<exists>k \<le> length s. TrimRightFunc s f = take k s \<and> aligned s k"
proof (induction s f rule: TrimRightFunc.induct)
  case (1 s f)
  show ?case
  proof (cases "s \<noteq> [] \<and> f (fst (DecodeLastRune s))")
    case True
    let ?m = "length s - snd (DecodeLastRune s)"
    from True "1.prems" have "fst (DecodeLastRune s) \<noteq> RuneError" by auto
    then have m: "aligned s ?m" using True DecodeLastRune_aligned by blast
    from True "1.prems" obtain k where k: "k \<le> length (take ?m s)"
      "TrimRightFunc (take ?m s) f = take k (take ?m s)" "aligned (take ?m s) k"
      using "1.IH" by blast
    have "take k (take ?m s) = take k s" using k(1) by (simp add: min_absorb1)
    then have "TrimRightFunc s f = take k s"
      using True k(2) by (subst TrimRightFunc.simps) simp
    moreover have "aligned s k"
      using aligned_take [OF k(3) m] by simp
    ultimately show ?thesis using k(1) by (intro exI [of _ k]) auto
  next
    case False
    then have "TrimRightFunc s f = s" by (subst TrimRightFunc.simps) auto
    then show ?thesis by (intro exI [of _ "length s"]) simp
  qed
qed

lemma IsSpace_RuneError: "\<not> IsSpace RuneError"
  by (simp add: IsSpace_def RuneError_def)

text \<open>
  \<open>TrimSpace\<close> is a slice of its argument that starts where \<open>TrimLeftFunc\<close> leaves off,
  and trimming keeps a valid string valid.
\<close>

lemma TrimSpace_slice:
  defines "off \<equiv> \<lambda>s. len s - len (TrimLeftFunc s IsSpace)"
  shows "slice s (off s) (off s + len (TrimSpace s)) = Some (TrimSpace s)"
    and "0 \<le> off s" and "off s + len (TrimSpace s) \<le> len s"
    and "ValidString s \<Longrightarrow> ValidString (TrimSpace s)"
proof -
  obtain k where k: "k \<le> length s" "TrimLeftFunc s IsSpace = drop k s"
    "ValidString s \<longrightarrow> aligned s k"
    using TrimLeftFunc_drop by blast
  obtain m where m: "m \<le> length (drop k s)" "TrimSpace s = take m (drop k s)"
    "aligned (drop k s) m"
    using TrimRightFunc_take [of IsSpace "drop k s"] IsSpace_RuneError k
    by (auto simp: TrimSpace_def)
  have off: "off s = int k" using k by (simp add: off_def)
  show "0 \<le> off s" by (simp add: off)
  show "off s + len (TrimSpace s) \<le> len s" using k m by (simp add: off)
  show "slice s (off s) (off s + len (TrimSpace s)) = Some (TrimSpace s)"
    using k(1) m(1,2) by (simp add: off slice_def)
  assume "ValidString s"
  then have "ValidString (drop k s)" using k ValidString_cut by blast
  then show "ValidString (TrimSpace s)" using m ValidString_cut by simp
qed

subsection \<open>strconv.Itoa\<close>

fun Itoa_nat :: "nat \<Rightarrow> string" where
  "Itoa_nat n =
     (if n < 10 then [char_of (48 + n)] else Itoa_nat (n div 10) @ [char_of (48 + n mod 10)])"

declare Itoa_nat.simps [simp del]

definition Itoa :: "int \<Rightarrow> string" where
  "Itoa n = (if n < 0 then CHR ''-'' # Itoa_nat (nat (- n)) else Itoa_nat (nat n))"

declare char_of_def [go_eval] bit_0 [go_eval] Itoa_nat.simps [go_eval] Itoa_def [go_eval]

end
