(* ===== verification/Chunk_Core.thy ===== *)
theory Chunk_Core
  imports Go_Strings
begin

text \<open>
  \<^verbatim>\<open>chunk/chunk.go\<close>: the data of the chunker (\<open>Unit\<close>, \<open>Chunk\<close>), the default token
  estimator, the budget arithmetic of the packing loop (\<open>growChunk\<close>,
  \<open>overlapStart\<close>) and the validation of caller-supplied units. Token sums are kept
  in 64-bit arithmetic (\<open>add64\<close>), because an injected estimator may return any
  \<open>int\<close>. Slice indices are natural numbers; byte offsets are integers.
\<close>

record Unit =
  Start :: int
  End :: int

record Chunk =
  Text :: string
  Index :: int
  StartByte :: int
  EndByte :: int
  TokenCount :: int

type_synonym Estimate = "string \<Rightarrow> int"
type_synonym Boundaries = "string \<Rightarrow> Unit list option"

text \<open>The accumulators \<open>*chunks\<close> and \<open>*idx\<close> the splitters write through.\<close>

type_synonym out = "Chunk list \<times> int"

definition DefaultMaxTokens :: int where "DefaultMaxTokens = 512"
definition DefaultOverlapTokens :: int where "DefaultOverlapTokens = 64"
definition approxCharsPerToken :: int where "approxCharsPerToken = 4"

definition defaultEstimate :: Estimate where
  "defaultEstimate s =
     (if s = [] then 0 else (RuneCount s + approxCharsPerToken - 1) div approxCharsPerToken)"

declare DefaultMaxTokens_def [go_eval] DefaultOverlapTokens_def [go_eval]
  approxCharsPerToken_def [go_eval] defaultEstimate_def [go_eval]

text \<open>Reading a Go slice: out of range is a panic.\<close>

definition idx_at :: "'a list \<Rightarrow> nat \<Rightarrow> 'a option" where
  "idx_at xs i = (if i < length xs then Some (xs ! i) else None)"

declare idx_at_def [go_eval]

subsection \<open>The budget arithmetic of the packing loop\<close>

function grow_loop :: "int list \<Rightarrow> int \<Rightarrow> nat \<Rightarrow> int \<Rightarrow> nat \<times> int" where
  "grow_loop unitTok maxTok j acc =
     (if j + 1 < length unitTok \<and> add64 acc (unitTok ! (j + 1)) \<le> maxTok
      then grow_loop unitTok maxTok (j + 1) (add64 acc (unitTok ! (j + 1)))
      else (j, acc))"
  by pat_completeness auto
termination
  by (relation "measure (\<lambda>(unitTok, maxTok, j, acc). length unitTok - j)") auto

declare grow_loop.simps [simp del]

definition growChunk :: "int list \<Rightarrow> nat \<Rightarrow> int \<Rightarrow> (nat \<times> int) option" where
  "growChunk unitTok i maxTok =
     do { t \<leftarrow> idx_at unitTok i; Some (grow_loop unitTok maxTok i t) }"

function overlap_loop :: "int list \<Rightarrow> nat \<Rightarrow> int \<Rightarrow> nat \<Rightarrow> int \<Rightarrow> nat option" where
  "overlap_loop unitTok i overlapTok ov ovSum =
     (if i < ov - 1
      then do { t \<leftarrow> idx_at unitTok (ov - 1);
                if add64 ovSum t \<le> overlapTok
                then overlap_loop unitTok i overlapTok (ov - 1) (add64 ovSum t)
                else Some ov }
      else Some ov)"
  by pat_completeness auto
termination
  by (relation "measure (\<lambda>(unitTok, i, overlapTok, ov, ovSum). ov)") auto

declare overlap_loop.simps [simp del]

definition overlapStart :: "int list \<Rightarrow> nat \<Rightarrow> nat \<Rightarrow> int \<Rightarrow> nat option" where
  "overlapStart unitTok i j overlapTok =
     (if overlapTok \<le> 0 then Some (j + 1) else overlap_loop unitTok i overlapTok (j + 1) 0)"

declare grow_loop.simps [go_eval] growChunk_def [go_eval] overlap_loop.simps [go_eval]
  overlapStart_def [go_eval]

text \<open>The 64-bit sum of the token counts of units \<open>i, \<dots>, j\<close>, from the left.\<close>

definition tok_sum :: "int list \<Rightarrow> nat \<Rightarrow> nat \<Rightarrow> int" where
  "tok_sum tok i j = foldl add64 (tok ! i) (map ((!) tok) [i + 1 ..< j + 1])"

lemma tok_sum_same [simp]: "tok_sum tok i i = tok ! i"
  by (simp add: tok_sum_def)

lemma tok_sum_Suc: "i \<le> j \<Longrightarrow> tok_sum tok i (Suc j) = add64 (tok_sum tok i j) (tok ! Suc j)"
  by (simp add: tok_sum_def)

text \<open>
  \<open>growChunk\<close>: the result covers units \<open>i, \<dots>, j\<close>, carries their sum within the budget
  (when unit \<open>i\<close> fits), and cannot take one more unit.
\<close>

lemma grow_loop_spec:
  assumes "grow_loop tok maxTok j s = (k, t)" and "i \<le> j" and "j < length tok"
    and "s = tok_sum tok i j" and "s \<le> maxTok"
  shows "j \<le> k \<and> k < length tok \<and> t = tok_sum tok i k \<and> t \<le> maxTok \<and>
    (k + 1 < length tok \<longrightarrow> maxTok < add64 t (tok ! (k + 1)))"
  using assms
proof (induction tok maxTok j s rule: grow_loop.induct)
  case (1 tok maxTok j s)
  show ?case
  proof (cases "j + 1 < length tok \<and> add64 s (tok ! (j + 1)) \<le> maxTok")
    case True
    then have "grow_loop tok maxTok (j + 1) (add64 s (tok ! (j + 1))) = (k, t)"
      using "1.prems"(1) by (subst (asm) grow_loop.simps) simp
    then have "j + 1 \<le> k \<and> k < length tok \<and> t = tok_sum tok i k \<and> t \<le> maxTok \<and>
        (k + 1 < length tok \<longrightarrow> maxTok < add64 t (tok ! (k + 1)))"
      using "1.IH" [OF True] "1.prems" True by (auto simp: tok_sum_Suc)
    then show ?thesis by auto
  next
    case False
    then have "k = j" "t = s"
      using "1.prems"(1) by (subst (asm) grow_loop.simps, auto)+
    with False "1.prems" show ?thesis by auto
  qed
qed

lemma growChunk_spec:
  assumes "i < length tok" and "tok ! i \<le> maxTok"
  obtains j where "growChunk tok i maxTok = Some (j, tok_sum tok i j)"
    and "i \<le> j" and "j < length tok" and "tok_sum tok i j \<le> maxTok"
    and "j + 1 < length tok \<Longrightarrow> maxTok < add64 (tok_sum tok i j) (tok ! (j + 1))"
proof -
  obtain j s where g: "grow_loop tok maxTok i (tok ! i) = (j, s)" by fastforce
  note sp = grow_loop_spec [OF g order_refl assms(1) tok_sum_same [symmetric] assms(2)]
  have e: "growChunk tok i maxTok = Some (j, tok_sum tok i j)"
    using g assms(1) sp by (simp add: growChunk_def idx_at_def)
  show ?thesis
    by (rule that [OF e]) (use sp in auto)
qed

text \<open>The 64-bit sum of the token counts of units \<open>a, \<dots>, j\<close>, from the right.\<close>

fun back_sum :: "int list \<Rightarrow> nat \<Rightarrow> nat \<Rightarrow> int" where
  "back_sum tok j 0 = 0"
| "back_sum tok j (Suc n) = add64 (back_sum tok j n) (tok ! (j - n))"

text \<open>
  \<open>overlapStart\<close>: the next chunk starts strictly after unit \<open>i\<close> and no later than unit
  \<open>j + 1\<close>; the units it repeats fit the overlap budget, and it repeats as many as fit.
\<close>

lemma overlap_loop_spec:
  assumes "i \<le> j" and "j < length tok" and "n \<le> j - i"
  shows "\<exists>m. overlap_loop tok i overlapTok (j + 1 - n) (back_sum tok j n) = Some (j + 1 - m)
     \<and> n \<le> m \<and> m \<le> j - i
     \<and> (n < m \<longrightarrow> back_sum tok j m \<le> overlapTok)
     \<and> (m < j - i \<longrightarrow> overlapTok < back_sum tok j (Suc m))"
  using assms(3)
proof (induction "j - i - n" arbitrary: n)
  case 0
  then have "\<not> i < j + 1 - n - 1" using assms by auto
  with 0 show ?case
    by (subst overlap_loop.simps) (intro exI [of _ n], auto)
next
  case (Suc d)
  then have g: "i < j + 1 - n - 1" "j + 1 - n - 1 = j - n" "j - n < length tok"
    using assms by auto
  show ?case
  proof (cases "add64 (back_sum tok j n) (tok ! (j - n)) \<le> overlapTok")
    case True
    have "d = j - i - Suc n" "Suc n \<le> j - i" using Suc.hyps(2) by auto
    from Suc.hyps(1) [OF this] obtain m where m:
      "overlap_loop tok i overlapTok (j + 1 - Suc n) (back_sum tok j (Suc n)) = Some (j + 1 - m)"
      "Suc n \<le> m" "m \<le> j - i" "Suc n < m \<longrightarrow> back_sum tok j m \<le> overlapTok"
      "m < j - i \<longrightarrow> overlapTok < back_sum tok j (Suc m)"
      by blast
    have "overlap_loop tok i overlapTok (j + 1 - n) (back_sum tok j n) = Some (j + 1 - m)"
      using g True m(1) by (subst overlap_loop.simps) (simp add: idx_at_def)
    moreover have "back_sum tok j m \<le> overlapTok"
      using m(2,4) True by (cases "m = Suc n") auto
    ultimately show ?thesis using m by (intro exI [of _ m]) auto
  next
    case False
    then have "overlap_loop tok i overlapTok (j + 1 - n) (back_sum tok j n) = Some (j + 1 - n)"
      using g by (subst overlap_loop.simps) (simp add: idx_at_def)
    with False Suc.prems show ?thesis by (intro exI [of _ n]) auto
  qed
qed

lemma overlapStart_spec:
  assumes "i \<le> j" and "j < length tok"
  obtains ov where "overlapStart tok i j overlapTok = Some ov" and "i < ov" and "ov \<le> j + 1"
    and "ov \<le> j \<Longrightarrow> 0 < overlapTok \<and> back_sum tok j (j + 1 - ov) \<le> overlapTok"
    and "0 < overlapTok \<Longrightarrow> i + 1 < ov \<Longrightarrow> overlapTok < back_sum tok j (j + 2 - ov)"
proof (cases "overlapTok \<le> 0")
  case True
  show ?thesis
    by (rule that [of "j + 1"]) (use True assms in \<open>auto simp: overlapStart_def\<close>)
next
  case False
  obtain m where m: "overlap_loop tok i overlapTok (j + 1) 0 = Some (j + 1 - m)"
    "m \<le> j - i" "0 < m \<longrightarrow> back_sum tok j m \<le> overlapTok"
    "m < j - i \<longrightarrow> overlapTok < back_sum tok j (Suc m)"
    using overlap_loop_spec [OF assms, of 0 overlapTok] by auto
  have "j + 2 - (j + 1 - m) = Suc m" "j + 1 - (j + 1 - m) = m" using m(2) assms by auto
  then show ?thesis
    using that [of "j + 1 - m"] m False assms by (auto simp: overlapStart_def)
qed

subsection \<open>Validation of units\<close>

definition runeAligned :: "string \<Rightarrow> int \<Rightarrow> bool" where
  "runeAligned tx i \<longleftrightarrow>
     i = 0 \<or> i = len tx \<or> (case byte_at tx i of Some b \<Rightarrow> RuneStart b | None \<Rightarrow> False)"

fun valid_from :: "string \<Rightarrow> int \<Rightarrow> Unit list \<Rightarrow> bool" where
  "valid_from tx prevEnd [] = True"
| "valid_from tx prevEnd (u # us) =
     (if Start u < 0 \<or> End u \<le> Start u \<or> len tx < End u then False
      else if Start u < prevEnd then False
      else if \<not> runeAligned tx (Start u) \<or> \<not> runeAligned tx (End u) then False
      else valid_from tx (End u) us)"

definition validUnits :: "string \<Rightarrow> Unit list \<Rightarrow> bool" where
  "validUnits tx units = (if units = [] then False else valid_from tx 0 units)"

declare runeAligned_def [go_eval] valid_from.simps [go_eval] validUnits_def [go_eval]

lemma runeAligned_aligned: "runeAligned tx i \<Longrightarrow> 0 \<le> i \<and> i \<le> len tx \<and> aligned tx (nat i)"
  by (auto simp: runeAligned_def byte_at_def aligned_def split: if_splits)

lemma aligned_runeAligned: "0 \<le> i \<Longrightarrow> aligned tx (nat i) \<Longrightarrow> runeAligned tx i"
  by (auto simp: runeAligned_def byte_at_def aligned_def)

subsection \<open>Appending one chunk\<close>

definition appendChunk :: "string \<Rightarrow> int \<Rightarrow> int \<Rightarrow> int \<Rightarrow> out \<Rightarrow> out option" where
  "appendChunk tx start end tok = (\<lambda>(chunks, idx).
     do { t \<leftarrow> slice tx start end;
          Some (chunks @ [\<lparr>Text = t, Index = idx, StartByte = start, EndByte = end,
                          TokenCount = tok\<rparr>], idx + 1) })"

declare appendChunk_def [go_eval]

end
