(* ===== verification/Chunk_Boundaries.thy ===== *)
theory Chunk_Boundaries
  imports Chunk_Core
begin

text \<open>
  The two segmenters of package \<^verbatim>\<open>chunk\<close>: \<open>Paragraphs\<close>
  (\<^verbatim>\<open>chunk/chunk.go\<close>) and \<open>Headings\<close> (\<^verbatim>\<open>chunk/headings.go\<close>),
  with the line and Markdown helpers the latter shares with the code-aware splitter. The
  locale \<open>segmenter\<close> is the contract the packing loop wants of a segmenter: on a valid,
  non-empty tx it returns units that tile the tx at rune boundaries.
\<close>

subsection \<open>Paragraphs\<close>

text \<open>Where the next newline byte would have to be: past an optional carriage return.\<close>

definition newline_at :: "string \<Rightarrow> int \<Rightarrow> int" where
  "newline_at tx e = (if byte_at tx e = Some CR then e + 1 else e)"

lemma newline_at_ge: "e \<le> newline_at tx e"
  by (simp add: newline_at_def)

function blank_run :: "string \<Rightarrow> int \<Rightarrow> int \<Rightarrow> int \<times> int" where
  "blank_run tx e count =
     (if e < len tx
      then (if newline_at tx e < len tx \<and> byte_at tx (newline_at tx e) = Some LF
            then blank_run tx (newline_at tx e + 1) (count + 1)
            else (e, count))
      else (e, count))"
  by pat_completeness auto
termination
proof (relation "measure (\<lambda>(tx, e, count). nat (len tx - e))", goal_cases)
  case (2 tx e count)
  then show ?case using newline_at_ge [of e tx] by simp
qed simp

declare blank_run.simps [simp del]

lemma blank_run_step:
  "e < len tx \<Longrightarrow> newline_at tx e < len tx \<Longrightarrow> byte_at tx (newline_at tx e) = Some LF \<Longrightarrow>
     blank_run tx e count = blank_run tx (newline_at tx e + 1) (count + 1)"
  by (subst blank_run.simps) simp

lemma blank_run_stop:
  "\<not> (e < len tx \<and> newline_at tx e < len tx \<and> byte_at tx (newline_at tx e) = Some LF) \<Longrightarrow>
     blank_run tx e count = (e, count)"
  by (subst blank_run.simps) auto

lemma blank_run_ge: "e \<le> fst (blank_run tx e count)"
proof (induction tx e count rule: blank_run.induct)
  case (1 tx e count)
  show ?case
  proof (cases "e < len tx \<and> newline_at tx e < len tx \<and> byte_at tx (newline_at tx e) = Some LF")
    case True
    then have "newline_at tx e + 1 \<le> fst (blank_run tx (newline_at tx e + 1) (count + 1))"
      using "1.IH" by blast
    then show ?thesis
      using True newline_at_ge [of e tx] by (simp add: blank_run_step)
  qed (simp add: blank_run_stop)
qed

lemma blank_run_LF: "byte_at tx i = Some LF \<Longrightarrow> i < fst (blank_run tx i count)"
proof -
  assume b: "byte_at tx i = Some LF"
  then have "i < len tx" by (simp add: byte_at_Some_iff)
  moreover have "newline_at tx i = i" using b by (simp add: newline_at_def)
  ultimately have "blank_run tx i count = blank_run tx (i + 1) (count + 1)"
    using b blank_run_step [of i tx count] by simp
  then show ?thesis using blank_run_ge [of "i + 1" tx "count + 1"] by simp
qed

text \<open>\<open>nextBlankLine\<close>, as the loop over \<open>i\<close>; \<open>pos\<close> stays the first position.\<close>

function blank_from :: "string \<Rightarrow> int \<Rightarrow> int \<Rightarrow> int \<times> int" where
  "blank_from tx pos i =
     (if i < len tx
      then if byte_at tx i \<noteq> Some LF then blank_from tx pos (i + 1)
           else (let r = blank_run tx i 0 in
                 if 2 \<le> snd r
                 then (if pos < i \<and> byte_at tx (i - 1) = Some CR then i - 1 else i, fst r)
                 else blank_from tx pos (fst r - 1 + 1))
      else (-1, -1))"
  by pat_completeness auto
termination
  by (relation "measure (\<lambda>(tx, pos, i). nat (len tx - i))")
    (auto dest: blank_run_LF [of _ _ 0])

declare blank_from.simps [simp del]

definition nextBlankLine :: "string \<Rightarrow> int \<Rightarrow> int \<times> int" where
  "nextBlankLine tx pos = blank_from tx pos pos"

text \<open>What a run of newlines ends with: a newline, or nothing was consumed.\<close>

lemma blank_run_end:
  "0 \<le> e \<Longrightarrow> blank_run tx e count = (e', count') \<Longrightarrow>
     e' = e \<or> (e < e' \<and> e' \<le> len tx \<and> byte_at tx (e' - 1) = Some LF)"
proof (induction tx e count rule: blank_run.induct)
  case (1 tx e count)
  show ?case
  proof (cases "e < len tx \<and> newline_at tx e < len tx \<and> byte_at tx (newline_at tx e) = Some LF")
    case True
    let ?k = "newline_at tx e + 1"
    have "blank_run tx ?k (count + 1) = (e', count')"
      using True "1.prems"(2) by (simp add: blank_run_step)
    then have "e' = ?k \<or> (?k < e' \<and> e' \<le> len tx \<and> byte_at tx (e' - 1) = Some LF)"
      using "1.IH" True "1.prems"(1) newline_at_ge [of e tx] by simp
    then show ?thesis
      using True newline_at_ge [of e tx] by auto
  qed (use "1.prems"(2) in \<open>simp add: blank_run_stop\<close>)
qed

lemma blank_from_spec:
  assumes "0 \<le> pos" and "pos \<le> i" and "blank_from tx pos i = (sep, e)"
  shows "(sep, e) = (-1, -1) \<or>
    (pos \<le> sep \<and> sep < e \<and> e \<le> len tx \<and> byte_at tx (e - 1) = Some LF)"
  using assms
proof (induction tx pos i rule: blank_from.induct)
  case (1 tx pos i)
  obtain e' c where r: "blank_run tx i 0 = (e', c)" by fastforce
  note unf = "1.prems"(3) [unfolded blank_from.simps [of tx pos i]]
  consider (none) "\<not> i < len tx" | (skip) "i < len tx" "byte_at tx i \<noteq> Some LF"
    | (hit) "i < len tx" "byte_at tx i = Some LF" "2 \<le> c"
    | (single) "i < len tx" "byte_at tx i = Some LF" "\<not> 2 \<le> c"
    by blast
  then show ?case
  proof cases
    case none
    with unf show ?thesis by simp
  next
    case skip
    with unf have "blank_from tx pos (i + 1) = (sep, e)" by simp
    then show ?thesis using "1.IH"(1) [OF skip] "1.prems" by simp
  next
    case hit
    have lt: "i < e'" using blank_run_LF [OF hit(2), of 0] r by simp
    have end_ok: "e' \<le> len tx \<and> byte_at tx (e' - 1) = Some LF"
      using blank_run_end [OF _ r] "1.prems" lt by auto
    have "e = e'" "sep = i \<or> (sep = i - 1 \<and> pos < i)"
      using unf hit r by (auto simp: Let_def split: if_splits)
    with lt end_ok "1.prems" show ?thesis by auto
  next
    case single
    have "i < e'" using blank_run_LF [OF single(2), of 0] r by simp
    have "blank_from tx pos (e' - 1 + 1) = (sep, e)"
      using unf single r by (simp add: Let_def)
    then show ?thesis
      using "1.IH"(2) [OF single(1) _ refl] single r \<open>i < e'\<close> "1.prems" by simp
  qed
qed

lemma nextBlankLine_spec:
  assumes "0 \<le> pos" and "nextBlankLine tx pos = (sep, e)" and "\<not> sep < 0"
  shows "pos \<le> sep \<and> sep < e \<and> e \<le> len tx \<and> byte_at tx (e - 1) = Some LF"
  using blank_from_spec [OF assms(1) order_refl assms(2) [unfolded nextBlankLine_def]] assms(3)
  by auto

function paragraphs_from :: "string \<Rightarrow> int \<Rightarrow> Unit list" where
  "paragraphs_from tx start =
     (if 0 \<le> start \<and> start < len tx
      then (let r = nextBlankLine tx start in
            if fst r < 0 then [\<lparr>Start = start, End = len tx\<rparr>]
            else \<lparr>Start = start, End = snd r\<rparr> # paragraphs_from tx (snd r))
      else [])"
  by pat_completeness auto
termination
proof (relation "measure (\<lambda>(tx, start). nat (len tx - start))", goal_cases)
  case (2 tx start r)
  then show ?case using nextBlankLine_spec [of start tx "fst r" "snd r"] by auto
qed auto

declare paragraphs_from.simps [simp del]

definition Paragraphs :: "string \<Rightarrow> Unit list" where
  "Paragraphs tx = (if tx = [] then [] else paragraphs_from tx 0)"

declare newline_at_def [go_eval] blank_run.simps [go_eval] blank_from.simps [go_eval] nextBlankLine_def [go_eval]
  paragraphs_from.simps [go_eval] Paragraphs_def [go_eval]

subsection \<open>The contract of a segmenter\<close>

text \<open>Units that cover \<open>[lo, hi)\<close> without gap or overlap.\<close>

fun tiles :: "int \<Rightarrow> int \<Rightarrow> Unit list \<Rightarrow> bool" where
  "tiles lo hi [] \<longleftrightarrow> lo = hi"
| "tiles lo hi (u # us) \<longleftrightarrow> Start u = lo \<and> lo < End u \<and> End u \<le> hi \<and> tiles (End u) hi us"

abbreviation ends_aligned :: "string \<Rightarrow> Unit list \<Rightarrow> bool" where
  "ends_aligned tx us \<equiv> list_all (\<lambda>u. runeAligned tx (End u)) us"

lemma tiles_le: "tiles lo hi us \<Longrightarrow> lo \<le> hi"
  by (induction us arbitrary: lo) force+

lemma tiles_valid_from:
  "tiles lo (len tx) us \<Longrightarrow> 0 \<le> lo \<Longrightarrow> runeAligned tx lo \<Longrightarrow> ends_aligned tx us \<Longrightarrow>
     valid_from tx lo us"
  by (induction us arbitrary: lo) auto

lemma tiles_covers:
  "tiles lo hi us \<Longrightarrow> lo \<le> p \<Longrightarrow> p < hi \<Longrightarrow> \<exists>u \<in> set us. Start u \<le> p \<and> p < End u"
proof (induction us arbitrary: lo)
  case (Cons u us)
  then show ?case by (cases "p < End u") auto
qed simp

locale segmenter =
  fixes seg :: Boundaries
  assumes seg_total: "\<exists>us. seg tx = Some us"
    and seg_tiles: "ValidString tx \<Longrightarrow> tx \<noteq> [] \<Longrightarrow> seg tx = Some us \<Longrightarrow>
      tiles 0 (len tx) us \<and> ends_aligned tx us"
begin

lemma seg_valid:
  assumes "ValidString tx" and "tx \<noteq> []" and "seg tx = Some us"
  shows "validUnits tx us"
proof -
  note t = seg_tiles [OF assms]
  then have "us \<noteq> []" using assms(2) by auto
  then show ?thesis
    using t tiles_valid_from [of 0 tx us] by (simp add: validUnits_def runeAligned_def)
qed

lemma seg_covers:
  assumes "ValidString tx" and "seg tx = Some us" and "0 \<le> p" and "p < len tx"
  shows "\<exists>u \<in> set us. Start u \<le> p \<and> p < End u"
proof -
  have "tx \<noteq> []" using assms by auto
  from seg_tiles [OF assms(1) this assms(2)] show ?thesis
    using tiles_covers assms(3,4) by blast
qed

end

lemma aligned_after_ascii:
  assumes "ValidString s" and "i < length s" and "byte_val (s ! i) < (0x80 :: nat)"
  shows "aligned s (i + 1)"
proof -
  have "aligned s i"
    using assms RuneStart_ascii by (simp add: aligned_def)
  moreover have "rune_size (drop i s) = 1"
    using assms by (intro rune_size_ascii) (auto simp: hd_drop_conv_nth)
  ultimately show ?thesis
    using aligned_after_rune [OF assms(1) _ assms(2)] by simp
qed

lemma aligned_after_LF:
  assumes "ValidString tx" and "byte_at tx (e - 1) = Some LF"
  shows "runeAligned tx e"
proof -
  from assms(2) have e: "1 \<le> e" "e \<le> len tx" "tx ! nat (e - 1) = LF"
    by (auto simp: byte_at_Some_iff)
  then have "aligned tx (nat (e - 1) + 1)"
    using assms(1) by (intro aligned_after_ascii) auto
  moreover have "nat (e - 1) + 1 = nat e" using e by simp
  ultimately show ?thesis using e by (intro aligned_runeAligned) simp_all
qed

lemma paragraphs_from_tiles:
  "0 \<le> start \<Longrightarrow> start \<le> len tx \<Longrightarrow>
     tiles start (len tx) (paragraphs_from tx start) \<and>
     (ValidString tx \<longrightarrow> ends_aligned tx (paragraphs_from tx start))"
proof (induction tx start rule: paragraphs_from.induct)
  case (1 tx start)
  show ?case
  proof (cases "start < len tx")
    case True
    obtain sep e where r: "nextBlankLine tx start = (sep, e)" by fastforce
    show ?thesis
    proof (cases "sep < 0")
      case True
      with r \<open>start < len tx\<close> "1.prems" show ?thesis
        by (subst (1 2) paragraphs_from.simps) (simp add: runeAligned_def)
    next
      case False
      from nextBlankLine_spec [OF "1.prems"(1) r False]
      have sp: "start \<le> sep" "sep < e" "e \<le> len tx" "byte_at tx (e - 1) = Some LF" by auto
      have "tiles e (len tx) (paragraphs_from tx e) \<and>
          (ValidString tx \<longrightarrow> ends_aligned tx (paragraphs_from tx e))"
        using "1.IH" [OF _ r [symmetric]] r sp False \<open>start < len tx\<close> "1.prems" by simp
      moreover have "paragraphs_from tx start = \<lparr>Start = start, End = e\<rparr> # paragraphs_from tx e"
        using r False \<open>start < len tx\<close> "1.prems" by (subst paragraphs_from.simps) simp
      ultimately show ?thesis using sp aligned_after_LF by simp
    qed
  next
    case False
    with "1.prems" show ?thesis by (subst (1 2) paragraphs_from.simps) simp
  qed
qed

lemma Paragraphs_tiles:
  "tiles 0 (len tx) (Paragraphs tx)"
  "ValidString tx \<Longrightarrow> ends_aligned tx (Paragraphs tx)"
  using paragraphs_from_tiles [of 0 tx] by (simp_all add: Paragraphs_def)

interpretation paragraphs: segmenter "\<lambda>tx. Some (Paragraphs tx)"
  by unfold_locales (auto simp: Paragraphs_tiles)

subsection \<open>Lines\<close>

definition lineAt :: "string \<Rightarrow> int \<Rightarrow> int \<Rightarrow> (string \<times> int) option" where
  "lineAt tx i e =
     do { rest \<leftarrow> slice tx i e;
          let nl = IndexByte rest LF in
          if nl < 0 then Some (rest, e)
          else let lineEnd = i + nl;
                   lineEnd' = (if i < lineEnd \<and> byte_at tx (lineEnd - 1) = Some CR
                               then lineEnd - 1 else lineEnd)
               in do { line \<leftarrow> slice tx i lineEnd'; Some (line, lineEnd + 1) } }"

declare lineAt_def [go_eval]

text \<open>
  Inside a span, \<open>lineAt\<close> returns, makes progress, and the next line starts right after
  a newline or at the end of the span.
\<close>

lemma lineAt_spec:
  assumes "0 \<le> i" and "i < e" and "e \<le> len tx"
  obtains line next' where "lineAt tx i e = Some (line, next')" and "i < next'" and "next' \<le> e"
    and "next' = e \<or> byte_at tx (next' - 1) = Some LF"
proof -
  obtain rest where rest: "slice tx i e = Some rest"
    using assms by (simp add: slice_def)
  let ?nl = "IndexByte rest LF"
  show ?thesis
  proof (cases "?nl < 0")
    case True
    then have "lineAt tx i e = Some (rest, e)" using rest by (simp add: lineAt_def)
    then show ?thesis using assms by (intro that) auto
  next
    case False
    have nl: "0 \<le> ?nl" "?nl < e - i"
      using False IndexByte_bounds(1) [of rest LF] slice_length [OF rest] by auto
    let ?le = "if i < i + ?nl \<and> byte_at tx (i + ?nl - 1) = Some CR then i + ?nl - 1 else i + ?nl"
    have "\<exists>line. slice tx i ?le = Some line"
      using nl assms by (simp add: slice_def)
    then obtain line where "slice tx i ?le = Some line" by blast
    then have "lineAt tx i e = Some (line, i + ?nl + 1)"
      using rest False by (simp add: lineAt_def Let_def)
    moreover have "byte_at tx (i + ?nl) = Some LF"
    proof -
      have "rest ! nat ?nl = LF" using IndexByte_hit nl by blast
      moreover have "rest ! nat ?nl = tx ! (nat i + nat ?nl)"
        using slice_nth [OF rest] nl slice_length [OF rest] by auto
      ultimately show ?thesis
        using nl assms by (simp add: byte_at_Some_iff nat_add_distrib)
    qed
    ultimately show ?thesis using nl by (intro that) auto
  qed
qed

subsection \<open>Markdown lines\<close>

text \<open>The loops \<open>for i < len(line) && line[i] == c { i++ }\<close>.\<close>

function skip_byte :: "char \<Rightarrow> string \<Rightarrow> int \<Rightarrow> int" where
  "skip_byte c line i =
     (if i < len line \<and> byte_at line i = Some c then skip_byte c line (i + 1) else i)"
  by pat_completeness auto
termination
  by (relation "measure (\<lambda>(c, line, i). nat (len line - i))") auto

declare skip_byte.simps [simp del]

abbreviation SP :: char where "SP \<equiv> CHR 0x20"
abbreviation BACKTICK :: char where "BACKTICK \<equiv> CHR 0x60"
abbreviation TILDE :: char where "TILDE \<equiv> CHR 0x7E"

text \<open>
  \<open>fenceMarker\<close>: \<open>Some (ch, n, info)\<close> for a code-fence delimiter line (fence character,
  run length, whether an info string follows), \<open>None\<close> where the code returns
  \<open>ok = false\<close>.
\<close>

definition fenceMarker :: "string \<Rightarrow> (char \<times> int \<times> bool) option" where
  "fenceMarker line =
     (let i = skip_byte SP line 0 in
      if 3 < i \<or> len line \<le> i then None
      else (case byte_at line i of None \<Rightarrow> None | Some c \<Rightarrow>
        if c \<noteq> BACKTICK \<and> c \<noteq> TILDE then None
        else let j = skip_byte c line i in
          if j - i < 3 then None
          else let rest = drop (nat j) line in
            if c = BACKTICK \<and> BACKTICK \<in> set rest then None
            else Some (c, j - i, TrimSpace rest \<noteq> [])))"

definition isFenceOpen :: "string \<Rightarrow> bool" where
  "isFenceOpen line \<longleftrightarrow> fenceMarker line \<noteq> None"

definition atxLevel :: "string \<Rightarrow> int" where
  "atxLevel line =
     (let i = skip_byte SP line 0 in
      if 3 < i then 0
      else let h = skip_byte (CHR 0x23) line i; level = h - i in
        if level < 1 \<or> 6 < level then 0
        else if h = len line \<or> byte_at line h = Some SP \<or> byte_at line h = Some TAB then level
        else 0)"

definition setextUnderline :: "string \<Rightarrow> bool" where
  "setextUnderline line =
     (let i = skip_byte SP line 0 in
      if 3 < i \<or> len line \<le> i then False
      else (case byte_at line i of None \<Rightarrow> False | Some c \<Rightarrow>
        if c \<noteq> CHR 0x3D \<and> c \<noteq> CHR 0x2D then False
        else let j = skip_byte c line i in
          if j < len line then Trim (drop (nat j) line) [SP, TAB] = [] else True))"

declare skip_byte.simps [go_eval] fenceMarker_def [go_eval] isFenceOpen_def [go_eval]
  atxLevel_def [go_eval] setextUnderline_def [go_eval]

text \<open>A line closes a fence opened with \<open>n\<close> characters \<open>ch\<close>.\<close>

definition closesFence :: "char \<Rightarrow> int \<Rightarrow> string \<Rightarrow> bool" where
  "closesFence ch n line =
     (case fenceMarker line of None \<Rightarrow> False
      | Some (c2, m2, info2) \<Rightarrow> c2 = ch \<and> n \<le> m2 \<and> \<not> info2)"

declare closesFence_def [go_eval]

subsection \<open>Headings\<close>

record HState =
  starts :: "int list"
  inFence :: bool
  fenceChar :: char
  fenceLen :: int
  prevLineStart :: int
  prevIsParagraph :: bool

definition h_init :: HState where
  "h_init = \<lparr>starts = [], inFence = False, fenceChar = CHR 0x00, fenceLen = 0,
             prevLineStart = 0, prevIsParagraph = False\<rparr>"

definition appendStart :: "int list \<Rightarrow> int \<Rightarrow> int list" where
  "appendStart ss s = (if ss \<noteq> [] \<and> last ss = s then ss else ss @ [s])"

text \<open>One iteration of the loop of \<open>Headings\<close>, on the line that begins at \<open>i\<close>.\<close>

definition h_step :: "int \<Rightarrow> string \<Rightarrow> HState \<Rightarrow> HState" where
  "h_step i line st =
     (if inFence st
      then (if closesFence (fenceChar st) (fenceLen st) line then st\<lparr>inFence := False\<rparr> else st)
             \<lparr>prevIsParagraph := False, prevLineStart := i\<rparr>
      else (case fenceMarker line of
              Some (ch, n, _) \<Rightarrow>
                st\<lparr>fenceChar := ch, fenceLen := n, inFence := True, prevIsParagraph := False\<rparr>
            | None \<Rightarrow>
                if 0 < atxLevel line
                then st\<lparr>starts := appendStart (starts st) i, prevIsParagraph := False\<rparr>
                else if prevIsParagraph st \<and> setextUnderline line
                then st\<lparr>starts := appendStart (starts st) (prevLineStart st),
                         prevIsParagraph := False\<rparr>
                else if TrimSpace line = [] then st\<lparr>prevIsParagraph := False\<rparr>
                else st\<lparr>prevIsParagraph := True\<rparr>)
             \<lparr>prevLineStart := i\<rparr>)"

partial_function (option) h_loop :: "string \<Rightarrow> int \<Rightarrow> HState \<Rightarrow> HState option" where
  "h_loop tx i st =
     (if i < len tx
      then do { r \<leftarrow> lineAt tx i (len tx); h_loop tx (snd r) (h_step i (fst r) st) }
      else Some st)"

fun section_units :: "int list \<Rightarrow> int \<Rightarrow> Unit list" where
  "section_units [] tot = []"
| "section_units [s] tot = [\<lparr>Start = s, End = tot\<rparr>]"
| "section_units (s # s' # ss) tot = \<lparr>Start = s, End = s'\<rparr> # section_units (s' # ss) tot"

text \<open>Reading \<open>starts[0]\<close> of an empty slice is a panic.\<close>

definition unitsFromStarts :: "int list \<Rightarrow> int \<Rightarrow> Unit list option" where
  "unitsFromStarts ss tot =
     (case ss of [] \<Rightarrow> None
      | s # _ \<Rightarrow> Some ((if 0 < s then [\<lparr>Start = 0, End = s\<rparr>] else []) @ section_units ss tot))"

definition Headings :: Boundaries where
  "Headings tx =
     (if tx = [] then Some []
      else do { st \<leftarrow> h_loop tx 0 h_init;
                if starts st = [] then Some (Paragraphs tx)
                else unitsFromStarts (starts st) (len tx) })"

declare h_init_def [go_eval] appendStart_def [go_eval] h_step_def [go_eval]
  h_loop.simps [code, go_eval] section_units.simps [go_eval] unitsFromStarts_def [go_eval]
  Headings_def [go_eval]

text \<open>
  The invariant of the loop at a line that begins at \<open>i\<close>: the section starts are line
  starts before \<open>i\<close>, strictly ascending, and all lie before the previous line when that line
  is still an open paragraph (so a setext underline may add it).
\<close>

definition line_start :: "string \<Rightarrow> int \<Rightarrow> bool" where
  "line_start tx i \<longleftrightarrow> i = 0 \<or> byte_at tx (i - 1) = Some LF"

definition h_inv :: "string \<Rightarrow> int \<Rightarrow> HState \<Rightarrow> bool" where
  "h_inv tx i st \<longleftrightarrow>
     sorted_wrt (<) (starts st) \<and> list_all (\<lambda>s. 0 \<le> s \<and> s < i \<and> line_start tx s) (starts st)
     \<and> (prevIsParagraph st \<longrightarrow> 0 \<le> prevLineStart st \<and> prevLineStart st < i
           \<and> line_start tx (prevLineStart st)
           \<and> list_all (\<lambda>s. s < prevLineStart st) (starts st))"

lemma h_inv_init: "h_inv tx 0 h_init"
  by (simp add: h_inv_def h_init_def)

lemma h_step_inv:
  assumes "h_inv tx i st" and "0 \<le> i" and "i < k" and "line_start tx i"
  shows "h_inv tx k (h_step i line st)"
proof -
  have up: "list_all (\<lambda>s. 0 \<le> s \<and> s < k \<and> line_start tx s) (starts st)"
    using assms(1,3) by (auto simp: h_inv_def list_all_iff)
  have last: "starts st \<noteq> [] \<Longrightarrow> last (starts st) \<noteq> i"
    using assms(1) by (auto simp: h_inv_def list_all_iff)
  have lastp: "prevIsParagraph st \<Longrightarrow> starts st \<noteq> [] \<Longrightarrow> last (starts st) \<noteq> prevLineStart st"
    using assms(1) last_in_set [of "starts st"] by (force simp: h_inv_def list_all_iff)
  show ?thesis
    using assms up last lastp
    by (auto simp: h_inv_def h_step_def appendStart_def list_all_iff sorted_wrt_append
        split: option.splits)
qed

lemma h_loop_returns:
  assumes "0 \<le> i" and "i \<le> len tx" and "i < len tx \<Longrightarrow> line_start tx i" and "h_inv tx i st"
  shows "\<exists>st'. h_loop tx i st = Some st' \<and> h_inv tx (len tx) st'"
  using assms
proof (induction "nat (len tx - i)" arbitrary: i st rule: less_induct)
  case less
  show ?case
  proof (cases "i < len tx")
    case True
    obtain line k where l: "lineAt tx i (len tx) = Some (line, k)" and k: "i < k" "k \<le> len tx"
      and nl: "k = len tx \<or> byte_at tx (k - 1) = Some LF"
      using lineAt_spec [OF less.prems(1) True order_refl] by blast
    have "h_inv tx k (h_step i line st)"
      using less.prems True k by (intro h_step_inv) auto
    then obtain st' where "h_loop tx k (h_step i line st) = Some st'" "h_inv tx (len tx) st'"
      using less.hyps [of k "h_step i line st"] k nl less.prems(1) True
      by (auto simp: line_start_def)
    then show ?thesis using True l by (subst h_loop.simps) simp
  next
    case False
    then show ?thesis using less.prems by (subst h_loop.simps) simp
  qed
qed

lemma section_units_tiles:
  "sorted_wrt (<) (s # ss) \<Longrightarrow> list_all (\<lambda>s. s < tot) (s # ss) \<Longrightarrow>
     tiles s tot (section_units (s # ss) tot)"
  by (induction ss arbitrary: s) auto

lemma section_units_ends:
  "list_all (\<lambda>s. line_start tx s \<and> 0 \<le> s) ss \<Longrightarrow> ValidString tx \<Longrightarrow>
     ends_aligned tx (section_units ss (len tx))"
  by (induction ss "len tx" rule: section_units.induct)
    (auto simp: line_start_def runeAligned_def [of _ 0] runeAligned_def [of _ "len _"]
        aligned_after_LF)

lemma Headings_segmenter:
  "\<exists>us. Headings tx = Some us \<and>
     (tx \<noteq> [] \<longrightarrow> tiles 0 (len tx) us \<and> (ValidString tx \<longrightarrow> ends_aligned tx us))"
proof (cases "tx = []")
  case False
  obtain st where st: "h_loop tx 0 h_init = Some st" and inv: "h_inv tx (len tx) st"
    using h_loop_returns [of 0 tx h_init] h_inv_init by (auto simp: line_start_def)
  show ?thesis
  proof (cases "starts st")
    case Nil
    then have "Headings tx = Some (Paragraphs tx)" using False st by (simp add: Headings_def)
    then show ?thesis using Paragraphs_tiles by auto
  next
    case (Cons s ss)
    let ?us = "section_units (s # ss) (len tx)"
    have srt: "sorted_wrt (<) (s # ss)" and bnd: "list_all (\<lambda>s. s < len tx) (s # ss)"
      and ls: "list_all (\<lambda>s. line_start tx s \<and> 0 \<le> s) (s # ss)"
      using inv Cons by (auto simp: h_inv_def list_all_iff)
    have t: "tiles s (len tx) ?us" by (rule section_units_tiles [OF srt bnd])
    have e: "ValidString tx \<Longrightarrow> ends_aligned tx ?us" by (rule section_units_ends [OF ls])
    have h: "Headings tx = Some ((if 0 < s then [\<lparr>Start = 0, End = s\<rparr>] else []) @ ?us)"
      using False st Cons by (simp add: Headings_def unitsFromStarts_def)
    have s: "0 \<le> s" "s \<le> len tx" "line_start tx s" using ls bnd by auto
    show ?thesis
    proof (cases "0 < s")
      case True
      then have "ValidString tx \<Longrightarrow> runeAligned tx s"
        using s aligned_after_LF by (auto simp: line_start_def)
      then show ?thesis using h t e True s by simp
    next
      case False
      then have "s = 0" using s by simp
      then show ?thesis using h t e by simp
    qed
  qed
qed (simp add: Headings_def)

interpretation headings: segmenter Headings
proof unfold_locales
  fix tx us
  show "\<exists>us. Headings tx = Some us" using Headings_segmenter by blast
  assume "ValidString tx" "tx \<noteq> []" "Headings tx = Some us"
  then show "tiles 0 (len tx) us \<and> ends_aligned tx us"
    using Headings_segmenter [of tx] by auto
qed

end
