(* ===== verification/Float64.thy ===== *)
theory Float64
  imports Prelude
begin

text \<open>
  The non-negative part of Go's \<open>float64\<close>, as far as the chunker needs it: conversion
  from an integer, division, multiplication, and truncation back to an integer. A value
  \<open>F64 m e\<close> stands for \<open>m * 2 ^ e\<close> with a significand below \<open>2 ^ 53\<close>; every
  operation rounds to nearest, ties to even, as IEEE 754 requires. The operands are integers below
  \<open>2 ^ 63\<close> and their quotients, so exponents stay far inside the range of normal
  numbers and neither overflow nor underflow is modelled. The result of converting a value
  that does not fit an \<open>int64\<close> is left to the implementation by the language
  specification, so it is a parameter (\<open>oor\<close>) of the conversion.
\<close>

datatype float64 = F64 (mant: nat) (expo: int)

fun bitlen :: "nat \<Rightarrow> nat" where
  "bitlen n = (if n = 0 then 0 else Suc (bitlen (n div 2)))"

declare bitlen.simps [simp del]

definition round_half_even :: "nat \<Rightarrow> nat \<Rightarrow> nat" where
  "round_half_even p q =
     (let d = p div q; r = p mod q in
      if 2 * r < q then d else if q < 2 * r then d + 1 else if even d then d else d + 1)"

text \<open>The float nearest to the positive rational \<open>p / q * 2 ^ e\<close>.\<close>

definition scaled :: "nat \<Rightarrow> int \<Rightarrow> nat" where
  "scaled n k = (if 0 \<le> k then n * 2 ^ nat k else n)"

definition round_frac :: "nat \<Rightarrow> nat \<Rightarrow> int \<Rightarrow> float64" where
  "round_frac p q e =
     (if p = 0 then F64 0 0
      else let k0 = int (bitlen p) - int (bitlen q) - 53;
               big = scaled q k0 * 2 ^ 53 \<le> scaled p (- k0);
               k = (if big then k0 + 1 else k0)
           in F64 (round_half_even (scaled p (- k)) (scaled q k)) (k + e))"

definition f64_of_nat :: "nat \<Rightarrow> float64" where
  "f64_of_nat n = round_frac n 1 0"

definition f64_div :: "float64 \<Rightarrow> float64 \<Rightarrow> float64" where
  "f64_div x y = round_frac (mant x) (mant y) (expo x - expo y)"

definition f64_mul :: "float64 \<Rightarrow> float64 \<Rightarrow> float64" where
  "f64_mul x y = round_frac (mant x * mant y) 1 (expo x + expo y)"

text \<open>Truncation towards zero, for the values of an \<open>int64\<close>.\<close>

definition f64_trunc :: "float64 \<Rightarrow> int" where
  "f64_trunc x = (if 0 \<le> expo x then int (mant x) * 2 ^ nat (expo x)
                  else int (mant x div 2 ^ nat (- expo x)))"

definition f64_to_int :: "(float64 \<Rightarrow> int) \<Rightarrow> float64 \<Rightarrow> int" where
  "f64_to_int oor x = (if f64_trunc x < 2 ^ 63 then f64_trunc x else oor x)"

declare bitlen.simps [go_eval] round_half_even_def [go_eval] scaled_def [go_eval]
  round_frac_def [go_eval] f64_of_nat_def [go_eval] f64_div_def [go_eval]
  f64_mul_def [go_eval] f64_trunc_def [go_eval] f64_to_int_def [go_eval]

lemma f64_zero [simp]: "f64_of_nat 0 = F64 0 0"
  by (simp add: f64_of_nat_def round_frac_def)

lemma f64_mul_zero [simp]: "f64_mul (F64 0 e) y = F64 0 0"
  by (simp add: f64_mul_def round_frac_def)

lemma f64_trunc_zero [simp]: "f64_to_int oor (F64 0 0) = 0"
  by (simp add: f64_to_int_def f64_trunc_def)

end
