(* ===== verification/Chunk_Split.thy ===== *)
theory Chunk_Split
  imports Chunk_Boundaries Float64
begin

text \<open>
  The splitters of package \<^verbatim>\<open>chunk\<close> as the code has them: the prose splitter
  (\<open>hardSplitProse\<close>), the code-aware splitters of \<^verbatim>\<open>chunk/codesplit.go\<close>
  (\<open>splitFenced\<close>, \<open>splitLines\<close>), the dispatch \<open>hardSplit\<close> and the entry point
  \<open>Split\<close>. Everything that slices runs in the option monad (\<open>None\<close> is a panic or a
  loop that never ends). The three copies of the packing loop in the code are one
  \<open>pack_loop\<close> here, with what each does with an oversize region as an argument.
\<close>

subsection \<open>Cutting a prose span\<close>

function back_to_start :: "string \<Rightarrow> int \<Rightarrow> int \<Rightarrow> int" where
  "back_to_start tx start e =
     (if start < e \<and> e < len tx \<and> (case byte_at tx e of Some b \<Rightarrow> \<not> RuneStart b | None \<Rightarrow> False)
      then back_to_start tx start (e - 1) else e)"
  by pat_completeness auto
termination
  by (relation "measure (\<lambda>(tx, start, e). nat (e - start))") auto

declare back_to_start.simps [simp del]

definition snapEndToRuneBoundary :: "string \<Rightarrow> int \<Rightarrow> int \<Rightarrow> int option" where
  "snapEndToRuneBoundary tx start idealEnd =
     (let ideal = (if len tx < idealEnd then len tx else idealEnd);
          e = back_to_start tx start ideal in
      if start < e then Some e
      else do { rest \<leftarrow> slice tx start (len tx);
                Some (min (start + int (rune_size rest)) (len tx)) })"

function forward_to_start :: "string \<Rightarrow> int \<Rightarrow> int" where
  "forward_to_start tx idx =
     (if idx < len tx \<and> (case byte_at tx idx of Some b \<Rightarrow> \<not> RuneStart b | None \<Rightarrow> False)
      then forward_to_start tx (idx + 1) else idx)"
  by pat_completeness auto
termination
  by (relation "measure (\<lambda>(tx, idx). nat (len tx - idx))") auto

declare forward_to_start.simps [simp del]

definition snapStartToRuneStart :: "string \<Rightarrow> int \<Rightarrow> int" where
  "snapStartToRuneStart tx idx =
     (if idx \<le> 0 then 0 else if len tx \<le> idx then len tx else forward_to_start tx idx)"

text \<open>The loop of \<open>lastSentenceEnd\<close>: at index \<open>i\<close>, with the bytes from \<open>i\<close> on.\<close>

fun sentence_loop :: "string \<Rightarrow> int \<Rightarrow> int \<Rightarrow> int" where
  "sentence_loop (c # d # s) i acc =
     sentence_loop (d # s) (i + 1)
       (if (c = CHR ''.'' \<or> c = CHR ''!'' \<or> c = CHR ''?'') \<and> d = SP then i else acc)"
| "sentence_loop s i acc = acc"

definition lastSentenceEnd :: "string \<Rightarrow> int" where
  "lastSentenceEnd s = sentence_loop s 0 (-1)"

definition lastWhitespace :: "string \<Rightarrow> int" where
  "lastWhitespace s = foldl (\<lambda>acc (i, r). if IsSpace r then i else acc) (-1) (range_runes 0 s)"

text \<open>The window length is never negative, so Go's truncating division is \<open>div\<close>.\<close>

definition findBoundary :: "string \<Rightarrow> int \<Rightarrow> int \<Rightarrow> int option" where
  "findBoundary tx start idealEnd =
     (let windowStart = max (idealEnd - (idealEnd - start) div 4) start in
      do { window \<leftarrow> slice tx windowStart idealEnd;
           let i = lastSentenceEnd window in
           if 0 \<le> i then Some (windowStart + i + 1)
           else let k = lastWhitespace window in
                if 0 \<le> k then Some (windowStart + k) else Some idealEnd })"

partial_function (option) prose_loop ::
  "string \<Rightarrow> int \<Rightarrow> int \<Rightarrow> int \<Rightarrow> Estimate \<Rightarrow> int \<Rightarrow> out \<Rightarrow> out option" where
  "prose_loop tx end' target overlap est pos st =
     (if pos < end' then
        do { e0 \<leftarrow> (if end' \<le> pos + target then Some end' else findBoundary tx pos (pos + target));
             e \<leftarrow> snapEndToRuneBoundary tx pos e0;
             chunkText \<leftarrow> slice tx pos e;
             st' \<leftarrow> appendChunk tx pos e (est chunkText) st;
             if end' \<le> e then Some st'
             else prose_loop tx end' target overlap est
                    (snapStartToRuneStart tx
                      (if e - overlap \<le> pos then pos + 1 else e - overlap)) st' }
      else Some st)"

text \<open>
  The byte window of a token budget: \<open>int(float64(tokens) * (float64(len(span)) / float64(total)))\<close>.
  Token counts reach this point non-negative (\<open>maxTokens\<close>, \<open>overlapTokens\<close>).
\<close>

definition byte_window :: "(float64 \<Rightarrow> int) \<Rightarrow> int \<Rightarrow> int \<Rightarrow> int \<Rightarrow> int" where
  "byte_window oor tokens spanLen tot =
     f64_to_int oor
       (f64_mul (f64_of_nat (nat tokens)) (f64_div (f64_of_nat (nat spanLen)) (f64_of_nat (nat tot))))"

definition hardSplitProse ::
  "(float64 \<Rightarrow> int) \<Rightarrow> string \<Rightarrow> int \<Rightarrow> int \<Rightarrow> int \<Rightarrow> int \<Rightarrow> Estimate \<Rightarrow> out \<Rightarrow> out option" where
  "hardSplitProse oor tx start end' maxTok overlapTok est st =
     do { span \<leftarrow> slice tx start end';
          let tot = max (est span) 1;
              target = max (byte_window oor maxTok (len span) tot) 1;
              overlap = max (byte_window oor overlapTok (len span) tot) 0 in
          prose_loop tx end' target overlap est start st }"

declare back_to_start.simps [go_eval] snapEndToRuneBoundary_def [go_eval]
  forward_to_start.simps [go_eval] snapStartToRuneStart_def [go_eval] sentence_loop.simps [go_eval]
  lastSentenceEnd_def [go_eval] lastWhitespace_def [go_eval] findBoundary_def [go_eval]
  prose_loop.simps [code, go_eval] byte_window_def [go_eval] hardSplitProse_def [go_eval]

subsection \<open>Packing regions\<close>

partial_function (option) pack_loop ::
  "(nat \<Rightarrow> out \<Rightarrow> out option) \<Rightarrow> string \<Rightarrow> (int \<times> int) list \<Rightarrow> int list \<Rightarrow> int \<Rightarrow> int \<Rightarrow>
   nat \<Rightarrow> out \<Rightarrow> out option" where
  "pack_loop oversize tx bounds tok maxTok overlapTok i st =
     (if i < length bounds then
        do { t \<leftarrow> idx_at tok i;
             if maxTok < t
             then do { st' \<leftarrow> oversize i st;
                       pack_loop oversize tx bounds tok maxTok overlapTok (i + 1) st' }
             else do { g \<leftarrow> growChunk tok i maxTok;
                       lo \<leftarrow> idx_at bounds i;
                       hi \<leftarrow> idx_at bounds (fst g);
                       st' \<leftarrow> appendChunk tx (fst lo) (snd hi) (snd g) st;
                       if fst g = length bounds - 1 then Some st'
                       else do { i' \<leftarrow> overlapStart tok i (fst g) overlapTok;
                                 pack_loop oversize tx bounds tok maxTok overlapTok i' st' } } }
      else Some st)"

declare pack_loop.simps [code, go_eval]

text \<open>The token counts of regions: slicing each region of the text.\<close>

fun region_tokens :: "Estimate \<Rightarrow> string \<Rightarrow> (int \<times> int) list \<Rightarrow> int list option" where
  "region_tokens est tx [] = Some []"
| "region_tokens est tx ((a, b) # bs) =
     do { s \<leftarrow> slice tx a b; ts \<leftarrow> region_tokens est tx bs; Some (est s # ts) }"

declare region_tokens.simps [go_eval]

subsection \<open>Code-aware splitting\<close>

record codeSpan =
  cs_start :: int
  cs_end :: int
  cs_fence :: bool

abbreviation cs_bounds :: "codeSpan list \<Rightarrow> (int \<times> int) list" where
  "cs_bounds gs \<equiv> map (\<lambda>g. (cs_start g, cs_end g)) gs"

partial_function (option) spanHasFence :: "string \<Rightarrow> int \<Rightarrow> int \<Rightarrow> bool option" where
  "spanHasFence tx i end' =
     (if i < end' then
        do { r \<leftarrow> lineAt tx i end';
             if isFenceOpen (fst r) then Some True else spanHasFence tx (snd r) end' }
      else Some False)"

text \<open>The inner loop of \<open>fencedGroups\<close>: past the closing fence, or to the end.\<close>

partial_function (option) fence_end :: "string \<Rightarrow> int \<Rightarrow> int \<Rightarrow> char \<Rightarrow> int \<Rightarrow> int option" where
  "fence_end tx i end' ch n =
     (if i < end' then
        do { r \<leftarrow> lineAt tx i end';
             if closesFence ch n (fst r) then Some (snd r) else fence_end tx (snd r) end' ch n }
      else Some i)"

partial_function (option) fencedGroups :: "string \<Rightarrow> int \<Rightarrow> int \<Rightarrow> codeSpan list option" where
  "fencedGroups tx i end' =
     (if i < end' then
        do { r \<leftarrow> lineAt tx i end';
             (case fenceMarker (fst r) of
                None \<Rightarrow> do { gs \<leftarrow> fencedGroups tx (snd r) end';
                             Some (\<lparr>cs_start = i, cs_end = snd r, cs_fence = False\<rparr> # gs) }
              | Some m \<Rightarrow> do { k \<leftarrow> fence_end tx (snd r) end' (fst m) (fst (snd m));
                               gs \<leftarrow> fencedGroups tx k end';
                               Some (\<lparr>cs_start = i, cs_end = k, cs_fence = True\<rparr> # gs) }) }
      else Some [])"

partial_function (option) span_lines :: "string \<Rightarrow> int \<Rightarrow> int \<Rightarrow> codeSpan list option" where
  "span_lines tx i end' =
     (if i < end' then
        do { r \<leftarrow> lineAt tx i end';
             ls \<leftarrow> span_lines tx (snd r) end';
             Some (\<lparr>cs_start = i, cs_end = snd r, cs_fence = False\<rparr> # ls) }
      else Some [])"

definition splitLines ::
  "(float64 \<Rightarrow> int) \<Rightarrow> string \<Rightarrow> int \<Rightarrow> int \<Rightarrow> int \<Rightarrow> int \<Rightarrow> Estimate \<Rightarrow> out \<Rightarrow> out option" where
  "splitLines oor tx start end' maxTok overlapTok est st =
     do { ls \<leftarrow> span_lines tx start end';
          tok \<leftarrow> region_tokens est tx (cs_bounds ls);
          pack_loop
            (\<lambda>k. hardSplitProse oor tx (cs_start (ls ! k)) (cs_end (ls ! k)) maxTok overlapTok est)
            tx (cs_bounds ls) tok maxTok overlapTok 0 st }"

definition splitFenced ::
  "(float64 \<Rightarrow> int) \<Rightarrow> string \<Rightarrow> int \<Rightarrow> int \<Rightarrow> int \<Rightarrow> int \<Rightarrow> Estimate \<Rightarrow> out \<Rightarrow> out option" where
  "splitFenced oor tx start end' maxTok overlapTok est st =
     do { groups \<leftarrow> fencedGroups tx start end';
          tok \<leftarrow> region_tokens est tx (cs_bounds groups);
          pack_loop
            (\<lambda>k. if cs_fence (groups ! k)
                 then splitLines oor tx (cs_start (groups ! k)) (cs_end (groups ! k))
                        maxTok overlapTok est
                 else hardSplitProse oor tx (cs_start (groups ! k)) (cs_end (groups ! k))
                        maxTok overlapTok est)
            tx (cs_bounds groups) tok maxTok overlapTok 0 st }"

definition hardSplit ::
  "(float64 \<Rightarrow> int) \<Rightarrow> string \<Rightarrow> int \<Rightarrow> int \<Rightarrow> int \<Rightarrow> int \<Rightarrow> Estimate \<Rightarrow> out \<Rightarrow> out option" where
  "hardSplit oor tx start end' maxTok overlapTok est st =
     do { fenced \<leftarrow> spanHasFence tx start end';
          if fenced then splitFenced oor tx start end' maxTok overlapTok est st
          else hardSplitProse oor tx start end' maxTok overlapTok est st }"

declare spanHasFence.simps [code, go_eval] fence_end.simps [code, go_eval] fencedGroups.simps [code, go_eval]
  span_lines.simps [code, go_eval] splitLines_def [go_eval] splitFenced_def [go_eval]
  hardSplit_def [go_eval]

subsection \<open>Configuration and the entry point\<close>

record Config =
  MaxTokens :: int
  OverlapTokens :: int
  NoOverlap :: bool
  cfg_Estimate :: "Estimate option"
  cfg_Boundaries :: "Boundaries option"

definition maxTokens :: "Config \<Rightarrow> int" where
  "maxTokens c = (if MaxTokens c \<le> 0 then DefaultMaxTokens else MaxTokens c)"

definition overlapTokens :: "Config \<Rightarrow> int" where
  "overlapTokens c =
     (if NoOverlap c then 0
      else if OverlapTokens c \<le> 0 then DefaultOverlapTokens else OverlapTokens c)"

definition estimate :: "Config \<Rightarrow> Estimate" where
  "estimate c = (case cfg_Estimate c of Some f \<Rightarrow> f | None \<Rightarrow> defaultEstimate)"

definition boundaries :: "Config \<Rightarrow> Boundaries" where
  "boundaries c =
     (case cfg_Boundaries c of Some f \<Rightarrow> f | None \<Rightarrow> (\<lambda>tx. Some (Paragraphs tx)))"

abbreviation unit_bounds :: "Unit list \<Rightarrow> (int \<times> int) list" where
  "unit_bounds us \<equiv> map (\<lambda>u. (Start u, End u)) us"

definition shift_chunk :: "int \<Rightarrow> Chunk \<Rightarrow> Chunk" where
  "shift_chunk off c = c\<lparr>StartByte := StartByte c + off, EndByte := EndByte c + off\<rparr>"

definition Split :: "(float64 \<Rightarrow> int) \<Rightarrow> string \<Rightarrow> Config \<Rightarrow> Chunk list option" where
  "Split oor source cfg =
     (let trimmed = TrimSpace source in
      if trimmed = [] then Some []
      else
        let off = len source - len (TrimLeftFunc source IsSpace) in
        do { tx \<leftarrow> slice source off (off + len trimmed);
             let est = estimate cfg; maxTok = maxTokens cfg; overlapTok = overlapTokens cfg in
             do { us0 \<leftarrow> boundaries cfg tx;
                  let us = (if validUnits tx us0 then us0
                            else [\<lparr>Start = 0, End = len tx\<rparr>]) in
                  do { tok \<leftarrow> region_tokens est tx (unit_bounds us);
                       r \<leftarrow> pack_loop
                              (\<lambda>k. hardSplit oor tx (Start (us ! k)) (End (us ! k))
                                     maxTok overlapTok est)
                              tx (unit_bounds us) tok maxTok overlapTok 0 ([], 0);
                       Some (if 0 < off then map (shift_chunk off) (fst r) else fst r) } } })"

declare maxTokens_def [go_eval] overlapTokens_def [go_eval] estimate_def [go_eval]
  boundaries_def [go_eval] shift_chunk_def [go_eval] Split_def [go_eval]

end
