(* ===== verification/Chunk_Emits.thy ===== *)
theory Chunk_Emits
  imports Chunk_Split
begin

text \<open>
  What a splitter promises about the chunks it appends, and the two ways the code composes
  splitters: one chunk followed by more (the loops) and one splitter after another (an
  oversize region inside the packing loop).
\<close>

subsection \<open>Properties of a list of chunks\<close>

definition chunk_ok :: "string \<Rightarrow> Chunk \<Rightarrow> bool" where
  "chunk_ok tx c \<longleftrightarrow>
     StartByte c < EndByte c \<and> slice tx (StartByte c) (EndByte c) = Some (Text c)"

definition within :: "int \<Rightarrow> int \<Rightarrow> Chunk list \<Rightarrow> bool" where
  "within lo hi cs \<longleftrightarrow> list_all (\<lambda>c. lo \<le> StartByte c \<and> EndByte c \<le> hi) cs"

fun indexed :: "int \<Rightarrow> Chunk list \<Rightarrow> bool" where
  "indexed n [] = True"
| "indexed n (c # cs) \<longleftrightarrow> Index c = n \<and> indexed (n + 1) cs"

definition ascending :: "Chunk list \<Rightarrow> bool" where
  "ascending cs \<longleftrightarrow> sorted_wrt (<) (map StartByte cs)"

definition covers :: "Chunk list \<Rightarrow> int \<Rightarrow> bool" where
  "covers cs p \<longleftrightarrow> (\<exists>c \<in> set cs. StartByte c \<le> p \<and> p < EndByte c)"

definition rune_at :: "string \<Rightarrow> int \<Rightarrow> bool" where
  "rune_at tx p \<longleftrightarrow> (case byte_at tx p of Some b \<Rightarrow> RuneStart b | None \<Rightarrow> False)"

definition budgeted :: "Estimate \<Rightarrow> int \<Rightarrow> Chunk list \<Rightarrow> bool" where
  "budgeted est maxTok cs \<longleftrightarrow>
     list_all (\<lambda>c. TokenCount c \<le> maxTok \<or> TokenCount c = est (Text c)) cs"

definition cut_aligned :: "string \<Rightarrow> Chunk list \<Rightarrow> bool" where
  "cut_aligned tx cs \<longleftrightarrow>
     list_all (\<lambda>c. runeAligned tx (StartByte c) \<and> runeAligned tx (EndByte c)) cs"

fun contiguous :: "int \<Rightarrow> int \<Rightarrow> Chunk list \<Rightarrow> bool" where
  "contiguous lo hi [] \<longleftrightarrow> lo = hi"
| "contiguous lo hi (c # cs) \<longleftrightarrow> StartByte c = lo \<and> contiguous (EndByte c) hi cs"

lemmas chunk_props = chunk_ok_def within_def ascending_def budgeted_def cut_aligned_def

lemma indexed_append: "indexed n (cs @ ds) \<longleftrightarrow> indexed n cs \<and> indexed (n + len cs) ds"
  by (induction cs arbitrary: n) (auto simp: add.assoc add.commute)

lemma indexed_nth: "indexed n cs \<Longrightarrow> k < length cs \<Longrightarrow> Index (cs ! k) = n + int k"
  by (induction cs arbitrary: n k) (auto simp: nth_Cons split: nat.splits)

lemma contiguous_append:
  "contiguous lo mid cs \<Longrightarrow> contiguous mid hi ds \<Longrightarrow> contiguous lo hi (cs @ ds)"
  by (induction cs arbitrary: lo) auto

lemma covers_append: "covers (cs @ ds) p \<longleftrightarrow> covers cs p \<or> covers ds p"
  by (auto simp: covers_def)

lemma covers_Cons: "covers (c # cs) p \<longleftrightarrow> (StartByte c \<le> p \<and> p < EndByte c) \<or> covers cs p"
  by (auto simp: covers_def)

text \<open>Contiguous chunks put together are the text they were cut from.\<close>

lemma contiguous_concat:
  "list_all (chunk_ok tx) cs \<Longrightarrow> contiguous lo hi cs \<Longrightarrow> 0 \<le> lo \<Longrightarrow> hi \<le> len tx \<Longrightarrow>
     slice tx lo hi = Some (concat (map Text cs))"
proof (induction cs arbitrary: lo)
  case Nil
  then show ?case by (simp add: slice_def)
next
  case (Cons c cs)
  then have "slice tx lo (EndByte c) = Some (Text c)" and "0 \<le> EndByte c"
    by (auto simp: chunk_ok_def)
  moreover from Cons this have "slice tx (EndByte c) hi = Some (concat (map Text cs))"
    by simp
  ultimately show ?case using slice_append by simp
qed

subsection \<open>What a splitter promises\<close>

text \<open>
  The chunks \<open>cs\<close> lie in \<open>[lo, hi)\<close>, are slices of the text in strictly ascending
  order, reach every rune that starts at a position of \<open>C\<close>, keep to the budget unless
  they are cut from inside a region, are cut at rune boundaries if \<open>A\<close>, and leave no gap
  and no overlap if \<open>G\<close>.
\<close>

definition emits ::
  "Estimate \<Rightarrow> int \<Rightarrow> string \<Rightarrow> int \<Rightarrow> int \<Rightarrow> int set \<Rightarrow> bool \<Rightarrow> bool \<Rightarrow> Chunk list \<Rightarrow> bool" where
  "emits est maxTok tx lo hi C A G cs \<longleftrightarrow>
     list_all (chunk_ok tx) cs \<and> within lo hi cs \<and> ascending cs
     \<and> (\<forall>p \<in> C. rune_at tx p \<longrightarrow> covers cs p) \<and> budgeted est maxTok cs
     \<and> (A \<longrightarrow> cut_aligned tx cs) \<and> (G \<longrightarrow> contiguous lo hi cs)"

definition runs ::
  "Estimate \<Rightarrow> int \<Rightarrow> string \<Rightarrow> int \<Rightarrow> int \<Rightarrow> int set \<Rightarrow> bool \<Rightarrow> bool \<Rightarrow> (out \<Rightarrow> out option) \<Rightarrow> bool"
  where
  "runs est maxTok tx lo hi C A G f \<longleftrightarrow>
     (\<forall>chunks idx. \<exists>cs. f (chunks, idx) = Some (chunks @ cs, idx + len cs) \<and> indexed idx cs
        \<and> emits est maxTok tx lo hi C A G cs)"

lemma runsI:
  assumes "\<And>chunks idx. \<exists>cs. f (chunks, idx) = Some (chunks @ cs, idx + len cs) \<and> indexed idx cs
     \<and> emits est maxTok tx lo hi C A G cs"
  shows "runs est maxTok tx lo hi C A G f"
  using assms by (simp add: runs_def)

lemma runsE:
  assumes "runs est maxTok tx lo hi C A G f"
  obtains cs where "f (chunks, idx) = Some (chunks @ cs, idx + len cs)" and "indexed idx cs"
    and "emits est maxTok tx lo hi C A G cs"
  using assms by (fastforce simp: runs_def)

lemma runs_weaken:
  assumes "runs est maxTok tx lo hi C A G f" and "C' \<subseteq> C" and "A' \<Longrightarrow> A" and "G' \<Longrightarrow> G"
  shows "runs est maxTok tx lo hi C' A' G' f"
  using assms by (fastforce simp: runs_def emits_def)

text \<open>One chunk, appended.\<close>

definition one_chunk :: "string \<Rightarrow> int \<Rightarrow> int \<Rightarrow> int \<Rightarrow> int \<Rightarrow> Chunk" where
  "one_chunk t a b n k = \<lparr>Text = t, Index = k, StartByte = a, EndByte = b, TokenCount = n\<rparr>"

lemma appendChunk_slice:
  "slice tx a b = Some t \<Longrightarrow>
     appendChunk tx a b n (chunks, idx) = Some (chunks @ [one_chunk t a b n idx], idx + 1)"
  by (simp add: appendChunk_def one_chunk_def)

lemma emits_one:
  assumes "slice tx lo hi = Some t" and "lo < hi" and "n \<le> maxTok \<or> n = est t"
    and "A \<Longrightarrow> runeAligned tx lo \<and> runeAligned tx hi"
  shows "emits est maxTok tx lo hi {lo..<hi} A G [one_chunk t lo hi n k]"
  using assms by (auto simp: emits_def chunk_props covers_def one_chunk_def)

text \<open>One chunk and then the rest of a loop that starts at \<open>lo'\<close>.\<close>

lemma emits_Cons:
  assumes t: "slice tx lo b = Some t" and b: "lo < b" "b \<le> hi"
    and n: "n \<le> maxTok \<or> n = est t"
    and al: "A \<Longrightarrow> runeAligned tx lo \<and> runeAligned tx b"
    and rest: "emits est maxTok tx lo' hi C' A G cs" and lo': "lo < lo'"
    and C: "\<And>p. p \<in> C \<Longrightarrow> rune_at tx p \<Longrightarrow> (lo \<le> p \<and> p < b) \<or> p \<in> C'"
    and G: "G \<Longrightarrow> lo' = b"
  shows "emits est maxTok tx lo hi C A G (one_chunk t lo b n k # cs)"
proof -
  let ?c = "one_chunk t lo b n k"
  have "within lo hi cs" using rest lo' by (auto simp: emits_def within_def list_all_iff)
  moreover have "\<forall>c \<in> set cs. lo < StartByte c"
    using rest lo' by (auto simp: emits_def within_def list_all_iff)
  moreover have "\<forall>p \<in> C. rune_at tx p \<longrightarrow> covers (?c # cs) p"
    using C rest by (auto simp: emits_def covers_Cons one_chunk_def)
  ultimately show ?thesis
    using t b n al rest G by (auto simp: emits_def chunk_props one_chunk_def)
qed

text \<open>One splitter after another.\<close>

lemma emits_append:
  assumes c1: "emits est maxTok tx lo mid C1 A G cs" and c2: "emits est maxTok tx mid' hi C2 A G ds"
    and mid: "lo \<le> mid" "mid \<le> mid'" "mid' \<le> hi"
    and C: "C \<subseteq> C1 \<union> C2" and G: "G \<Longrightarrow> mid = mid'"
  shows "emits est maxTok tx lo hi C A G (cs @ ds)"
proof -
  have w: "within lo hi (cs @ ds)"
    using c1 c2 mid by (auto simp: emits_def within_def list_all_iff)
  have "\<forall>c \<in> set cs. StartByte c < mid'" "\<forall>d \<in> set ds. mid' \<le> StartByte d"
    using c1 c2 mid by (fastforce simp: emits_def within_def chunk_ok_def list_all_iff)+
  then have "ascending (cs @ ds)"
    using c1 c2 sorted_wrt_less_append [of "map StartByte cs" "map StartByte ds" mid']
    by (simp add: emits_def ascending_def)
  moreover have "\<forall>p \<in> C. rune_at tx p \<longrightarrow> covers (cs @ ds) p"
    using c1 c2 C by (auto simp: emits_def covers_append)
  moreover have "G \<Longrightarrow> contiguous lo hi (cs @ ds)"
    using c1 c2 G by (auto simp: emits_def intro: contiguous_append)
  ultimately show ?thesis
    using c1 c2 w by (auto simp: emits_def budgeted_def cut_aligned_def)
qed

subsection \<open>The contract of a span splitter\<close>

text \<open>
  Where a span may end: at the end of the text, before the first byte of a rune, or after a
  newline.
\<close>

definition clean_end :: "string \<Rightarrow> int \<Rightarrow> bool" where
  "clean_end tx e \<longleftrightarrow> e = len tx \<or> rune_at tx e \<or> byte_at tx (e - 1) = Some LF"

abbreviation cut_at_runes :: "string \<Rightarrow> int \<Rightarrow> int \<Rightarrow> bool" where
  "cut_at_runes tx lo hi \<equiv> ValidString tx \<and> runeAligned tx lo \<and> runeAligned tx hi"

abbreviation splits :: "Estimate \<Rightarrow> int \<Rightarrow> int \<Rightarrow> string \<Rightarrow> int \<Rightarrow> int \<Rightarrow> (out \<Rightarrow> out option) \<Rightarrow> bool" where
  "splits est maxTok overlapTok tx lo hi f \<equiv>
     runs est maxTok tx lo hi {lo..<hi} (cut_at_runes tx lo hi)
       (cut_at_runes tx lo hi \<and> overlapTok \<le> 0) f"

locale span_splitter =
  fixes split :: "string \<Rightarrow> int \<Rightarrow> int \<Rightarrow> out \<Rightarrow> out option"
    and est :: Estimate and maxTok :: int and overlapTok :: int
  assumes split_runs: "0 \<le> lo \<Longrightarrow> lo < hi \<Longrightarrow> hi \<le> len tx \<Longrightarrow> clean_end tx hi \<Longrightarrow>
    splits est maxTok overlapTok tx lo hi (split tx lo hi)"
begin

text \<open>A splitter appends to what is there and never fails.\<close>

lemma split_appends:
  assumes "0 \<le> lo" and "lo < hi" and "hi \<le> len tx" and "clean_end tx hi"
  shows "\<exists>cs. split tx lo hi (chunks, idx) = Some (chunks @ cs, idx + len cs)
    \<and> indexed idx cs \<and> list_all (chunk_ok tx) cs \<and> within lo hi cs \<and> ascending cs"
proof -
  obtain cs where "split tx lo hi (chunks, idx) = Some (chunks @ cs, idx + len cs)"
    "indexed idx cs" "emits est maxTok tx lo hi {lo..<hi} (cut_at_runes tx lo hi)
       (cut_at_runes tx lo hi \<and> overlapTok \<le> 0) cs"
    using runsE [OF split_runs [OF assms]] by blast
  then show ?thesis by (auto simp: emits_def)
qed

lemma split_result:
  assumes "0 \<le> lo" and "lo < hi" and "hi \<le> len tx" and "clean_end tx hi"
    and "split tx lo hi st = Some st'"
  shows "\<exists>cs. fst st' = fst st @ cs \<and> within lo hi cs"
  using split_appends [OF assms(1-4), of "fst st" "snd st"] assms(5) by auto

text \<open>Without overlap, the chunks of a span of valid text rebuild it.\<close>

lemma split_rebuilds:
  assumes "0 \<le> lo" and "lo < hi" and "hi \<le> len tx" and "cut_at_runes tx lo hi" and "overlapTok \<le> 0"
  shows "\<exists>cs. split tx lo hi (chunks, idx) = Some (chunks @ cs, idx + len cs)
    \<and> slice tx lo hi = Some (concat (map Text cs))"
proof -
  have "clean_end tx hi"
    using assms by (auto simp: clean_end_def runeAligned_def rune_at_def)
  then obtain cs where "split tx lo hi (chunks, idx) = Some (chunks @ cs, idx + len cs)"
    "emits est maxTok tx lo hi {lo..<hi} (cut_at_runes tx lo hi)
       (cut_at_runes tx lo hi \<and> overlapTok \<le> 0) cs"
    using runsE [OF split_runs] assms by metis
  then show ?thesis
    using contiguous_concat [of tx cs lo hi] assms by (auto simp: emits_def)
qed

end

end
