(* ===== verification/Chunk_Pack.thy ===== *)
theory Chunk_Pack
  imports Chunk_Emits
begin

text \<open>
  The packing loop over ascending regions of the text: when what it does with an oversize
  region meets the splitter contract on that region, the loop meets it on all of them, and it
  never cuts a region that fits the budget.
\<close>

subsection \<open>Ascending regions\<close>

definition regions :: "string \<Rightarrow> (int \<times> int) list \<Rightarrow> bool" where
  "regions tx bs \<longleftrightarrow>
     list_all (\<lambda>p. 0 \<le> fst p \<and> fst p < snd p \<and> snd p \<le> len tx) bs
     \<and> sorted_wrt (\<lambda>p q. snd p \<le> fst q) bs"

definition region_points :: "(int \<times> int) list \<Rightarrow> nat \<Rightarrow> int set" where
  "region_points bs i = (\<Union>k \<in> {i..<length bs}. {fst (bs ! k)..<snd (bs ! k)})"

definition adjacent :: "(int \<times> int) list \<Rightarrow> bool" where
  "adjacent bs \<longleftrightarrow> (\<forall>k. Suc k < length bs \<longrightarrow> snd (bs ! k) = fst (bs ! Suc k))"

lemma regions_nth [spans]:
  assumes "regions tx bs" and "k < length bs"
  shows "0 \<le> fst (bs ! k)" "fst (bs ! k) < snd (bs ! k)" "snd (bs ! k) \<le> len tx"
  using assms by (auto simp: regions_def list_all_length)

lemma regions_less:
  "regions tx bs \<Longrightarrow> i < j \<Longrightarrow> j < length bs \<Longrightarrow> snd (bs ! i) \<le> fst (bs ! j)"
  by (auto simp: regions_def sorted_wrt_iff_nth_less)

lemma regions_le:
  assumes "regions tx bs" and "i \<le> j" and "j < length bs"
  shows "fst (bs ! i) \<le> fst (bs ! j)" "snd (bs ! i) \<le> snd (bs ! j)" "fst (bs ! i) < snd (bs ! j)"
  using assms regions_less [OF assms(1), of i j] regions_nth [OF assms(1), of i]
    regions_nth [OF assms(1), of j]
  by (cases "i = j"; force)+

lemma regions_slice:
  assumes "regions tx bs" and "i \<le> j" and "j < length bs"
  obtains t where "slice tx (fst (bs ! i)) (snd (bs ! j)) = Some t"
  using assms regions_le [OF assms] regions_nth [OF assms(1), of i] regions_nth [OF assms(1), of j]
  by (auto simp: slice_def)

lemma region_tokens_returns:
  assumes "regions tx bs"
  obtains tok where "region_tokens est tx bs = Some tok" and "length tok = length bs"
    and "\<And>k t. k < length bs \<Longrightarrow> slice tx (fst (bs ! k)) (snd (bs ! k)) = Some t \<Longrightarrow> tok ! k = est t"
proof -
  have "\<exists>tok. region_tokens est tx bs = Some tok \<and> length tok = length bs \<and>
     (\<forall>k < length bs. \<forall>t. slice tx (fst (bs ! k)) (snd (bs ! k)) = Some t \<longrightarrow> tok ! k = est t)"
    using assms
  proof (induction bs)
    case (Cons p bs)
    obtain a b where p: "p = (a, b)" by fastforce
    have s: "0 \<le> a" "a < b" "b \<le> len tx" and "regions tx bs"
      using Cons.prems p by (auto simp: regions_def)
    then obtain tok where "region_tokens est tx bs = Some tok" "length tok = length bs"
      "\<forall>k < length bs. \<forall>t. slice tx (fst (bs ! k)) (snd (bs ! k)) = Some t \<longrightarrow> tok ! k = est t"
      using Cons.IH by blast
    moreover obtain t where "slice tx a b = Some t" using s by (auto simp: slice_def)
    ultimately show ?case
      by (intro exI [of _ "est t # tok"]) (auto simp: p nth_Cons split: nat.splits)
  qed simp
  then show ?thesis using that by blast
qed

subsection \<open>The loop meets the contract\<close>

lemma emits_weaken_C:
  "emits est maxTok tx lo hi C A G cs \<Longrightarrow> C' \<subseteq> C \<Longrightarrow> emits est maxTok tx lo hi C' A G cs"
  by (auto simp: emits_def)

lemma region_points_split:
  assumes "regions tx bs" and "j < length bs" and "i' \<le> j + 1"
  shows "region_points bs i \<subseteq> {fst (bs ! i)..<snd (bs ! j)} \<union> region_points bs i'"
proof
  fix p assume "p \<in> region_points bs i"
  then obtain k where k: "i \<le> k" "k < length bs" "fst (bs ! k) \<le> p" "p < snd (bs ! k)"
    by (auto simp: region_points_def)
  show "p \<in> {fst (bs ! i)..<snd (bs ! j)} \<union> region_points bs i'"
  proof (cases "i' \<le> k")
    case True
    with k show ?thesis by (auto simp: region_points_def)
  next
    case False
    then have "k \<le> j" using assms(3) by simp
    then show ?thesis
      using k regions_le(1) [OF assms(1) k(1,2)] regions_le(2) [OF assms(1), of k j] assms(2) by simp
  qed
qed

lemma pack_loop_done: "length bs \<le> i \<Longrightarrow> pack_loop ov tx bs tok m q i st = Some st"
  by (subst pack_loop.simps) simp

lemma pack_loop_runs:
  assumes bs: "regions tx bs" and tok: "length tok = length bs"
    and A: "A \<Longrightarrow> list_all (\<lambda>p. runeAligned tx (fst p) \<and> runeAligned tx (snd p)) bs"
    and G: "G \<Longrightarrow> overlapTok \<le> 0 \<and> adjacent bs"
    and over: "\<And>k. k < length bs \<Longrightarrow> maxTok < tok ! k \<Longrightarrow>
      runs est maxTok tx (fst (bs ! k)) (snd (bs ! k)) {fst (bs ! k)..<snd (bs ! k)} A G (oversize k)"
    and i: "i < length bs"
  shows "runs est maxTok tx (fst (bs ! i)) (snd (bs ! (length bs - 1))) (region_points bs i) A G
    (pack_loop oversize tx bs tok maxTok overlapTok i)"
  using i
proof (induction "length bs - i" arbitrary: i rule: less_induct)
  case less
  let ?n = "length bs" and ?lo = "fst (bs ! i)" and ?hi = "snd (bs ! (length bs - 1))"
  have last: "snd (bs ! k) \<le> ?hi" if "k < ?n" for k
    using regions_le(2) [OF bs, of k "?n - 1"] that by simp
  have before: "fst (bs ! k) \<le> ?hi" if "k < ?n" for k
    using last [OF that] regions_nth(2) [OF bs that] by simp
  show ?case
  proof (rule runsI)
    fix chunks :: "Chunk list" and idx :: int
    show "\<exists>cs. pack_loop oversize tx bs tok maxTok overlapTok i (chunks, idx) =
        Some (chunks @ cs, idx + len cs) \<and> indexed idx cs
        \<and> emits est maxTok tx ?lo ?hi (region_points bs i) A G cs"
    proof (cases "maxTok < tok ! i")
      case True
      obtain cs where cs: "oversize i (chunks, idx) = Some (chunks @ cs, idx + len cs)"
        "indexed idx cs" "emits est maxTok tx ?lo (snd (bs ! i)) {?lo..<snd (bs ! i)} A G cs"
        using runsE [OF over [OF less.prems True]] by blast
      have step: "pack_loop oversize tx bs tok maxTok overlapTok i (chunks, idx) =
          pack_loop oversize tx bs tok maxTok overlapTok (i + 1) (chunks @ cs, idx + len cs)"
        using less.prems True tok cs(1) by (subst pack_loop.simps) (simp add: idx_at_def)
      note C = region_points_split [OF bs less.prems, of "i + 1" i]
      show ?thesis
      proof (cases "i + 1 < ?n")
        case nxt: True
        have dec: "?n - (i + 1) < ?n - i" using less.prems by simp
        obtain ds where ds: "pack_loop oversize tx bs tok maxTok overlapTok (i + 1)
            (chunks @ cs, idx + len cs) = Some ((chunks @ cs) @ ds, idx + len cs + len ds)"
          "indexed (idx + len cs) ds"
          "emits est maxTok tx (fst (bs ! (i + 1))) ?hi (region_points bs (i + 1)) A G ds"
          using runsE [OF less.hyps [OF dec nxt], of "chunks @ cs" "idx + len cs"] by blast
        have "emits est maxTok tx ?lo ?hi (region_points bs i) A G (cs @ ds)"
          by (rule emits_append [OF cs(3) ds(3)])
            (use C G nxt regions_nth(2) [OF bs, of i] regions_less [OF bs, of i "i + 1"] before
              in \<open>auto simp: adjacent_def\<close>)
        then show ?thesis
          using step ds cs by (intro exI [of _ "cs @ ds"]) (simp add: indexed_append)
      next
        case False
        then have "i = ?n - 1" using less.prems by simp
        moreover have "region_points bs (i + 1) = {}" using False by (simp add: region_points_def)
        ultimately have "emits est maxTok tx ?lo ?hi (region_points bs i) A G cs"
          using emits_weaken_C [OF cs(3)] C by simp
        then show ?thesis
          using step cs False by (intro exI [of _ cs]) (simp add: pack_loop_done)
      qed
    next
      case False
      then obtain j where j: "growChunk tok i maxTok = Some (j, tok_sum tok i j)" "i \<le> j" "j < ?n"
        "tok_sum tok i j \<le> maxTok"
        using growChunk_spec [of i tok maxTok] less.prems tok by (metis linorder_not_less)
      obtain t where t: "slice tx ?lo (snd (bs ! j)) = Some t"
        using regions_slice [OF bs j(2,3)] .
      let ?c = "one_chunk t ?lo (snd (bs ! j)) (tok_sum tok i j) idx"
      have al: "A \<Longrightarrow> runeAligned tx ?lo \<and> runeAligned tx (snd (bs ! j))"
        using A j less.prems by (auto simp: list_all_length)
      have lt: "?lo < snd (bs ! j)" using regions_le(3) [OF bs j(2,3)] .
      show ?thesis
      proof (cases "j = ?n - 1")
        case True
        have "pack_loop oversize tx bs tok maxTok overlapTok i (chunks, idx) =
            Some (chunks @ [?c], idx + 1)"
          using less.prems False tok j t True
          by (subst pack_loop.simps) (simp add: idx_at_def appendChunk_slice)
        moreover have "emits est maxTok tx ?lo ?hi (region_points bs i) A G [?c]"
        proof (rule emits_weaken_C)
          show "emits est maxTok tx ?lo ?hi {?lo..<?hi} A G [?c]"
            using t lt j(4) al True by (auto intro!: emits_one)
          show "region_points bs i \<subseteq> {?lo..<?hi}"
            using region_points_split [OF bs j(3), of "j + 1" i] True
            by (auto simp: region_points_def)
        qed
        ultimately show ?thesis by (intro exI [of _ "[?c]"]) (simp add: one_chunk_def)
      next
        case more: False
        have jt: "j < length tok" using j(3) tok by simp
        obtain i' where i': "overlapStart tok i j overlapTok = Some i'" "i < i'" "i' \<le> j + 1"
          "i' \<le> j \<Longrightarrow> 0 < overlapTok"
          by (rule overlapStart_spec [OF j(2) jt, of overlapTok]) blast
        have i'n: "i' < ?n" using more i'(3) j(3) by simp
        have step: "pack_loop oversize tx bs tok maxTok overlapTok i (chunks, idx) =
            pack_loop oversize tx bs tok maxTok overlapTok i' (chunks @ [?c], idx + 1)"
          using less.prems False tok j t more i'(1)
          by (subst pack_loop.simps) (simp add: idx_at_def appendChunk_slice)
        have dec: "?n - i' < ?n - i" using less.prems i'(2) by simp
        obtain ds where ds: "pack_loop oversize tx bs tok maxTok overlapTok i'
            (chunks @ [?c], idx + 1) = Some ((chunks @ [?c]) @ ds, idx + 1 + len ds)"
          "indexed (idx + 1) ds"
          "emits est maxTok tx (fst (bs ! i')) ?hi (region_points bs i') A G ds"
          using runsE [OF less.hyps [OF dec i'n], of "chunks @ [?c]" "idx + 1"] by blast
        have "emits est maxTok tx ?lo ?hi (region_points bs i) A G (?c # ds)"
        proof (rule emits_Cons [OF t lt last [OF j(3)] _ al ds(3)])
          show "?lo < fst (bs ! i')"
            using regions_less [OF bs i'(2) i'n] regions_nth(2) [OF bs less.prems] by simp
          show "G \<Longrightarrow> fst (bs ! i') = snd (bs ! j)"
            using G i' i'n by (cases "i' = j + 1") (auto simp: adjacent_def)
        qed (use j region_points_split [OF bs j(3) i'(3), of i] in auto)
        then show ?thesis
          using step ds by (intro exI [of _ "?c # ds"]) (simp add: one_chunk_def)
      qed
    qed
  qed
qed

subsection \<open>Regions that fit are never cut\<close>

definition keeps :: "int \<Rightarrow> int \<Rightarrow> Chunk \<Rightarrow> bool" where
  "keeps a b c \<longleftrightarrow>
     (StartByte c \<le> a \<and> b \<le> EndByte c) \<or> EndByte c \<le> a \<or> b \<le> StartByte c"

lemma within_keeps: "within lo hi cs \<Longrightarrow> hi \<le> a \<or> b \<le> lo \<Longrightarrow> list_all (keeps a b) cs"
  by (auto simp: within_def keeps_def list_all_iff)

lemma pack_loop_all:
  assumes "pack_loop oversize tx bs tok maxTok q i st = Some st'"
    and "list_all P (fst st)" and "length tok = length bs"
    and "\<And>k st st'. k < length bs \<Longrightarrow> maxTok < tok ! k \<Longrightarrow> oversize k st = Some st' \<Longrightarrow>
      list_all P (fst st) \<Longrightarrow> list_all P (fst st')"
    and "\<And>i j t n idx. i \<le> j \<Longrightarrow> j < length bs \<Longrightarrow>
      slice tx (fst (bs ! i)) (snd (bs ! j)) = Some t \<Longrightarrow>
      P (one_chunk t (fst (bs ! i)) (snd (bs ! j)) n idx)"
  shows "list_all P (fst st')"
  using assms
proof (induction "length bs - i" arbitrary: i st rule: less_induct)
  case less
  note run = less.prems(1) and ok = less.prems(2) and tok = less.prems(3)
    and over = less.prems(4) and packed = less.prems(5)
  show ?case
  proof (cases "i < length bs")
    case i: True
    show ?thesis
    proof (cases "maxTok < tok ! i")
      case True
      then obtain st1 where st1: "oversize i st = Some st1"
        "pack_loop oversize tx bs tok maxTok q (i + 1) st1 = Some st'"
        using run i tok by (subst (asm) pack_loop.simps) (auto simp: idx_at_def bind_eq_Some)
      have "length bs - (i + 1) < length bs - i" using i by simp
      from less.hyps [OF this st1(2) over [OF i True st1(1) ok] tok over packed]
      show ?thesis .
    next
      case False
      then obtain j where j: "growChunk tok i maxTok = Some (j, tok_sum tok i j)" "i \<le> j"
        "j < length bs"
        using growChunk_spec [of i tok maxTok] i tok by (metis linorder_not_less)
      obtain chunks idx where st: "st = (chunks, idx)" by fastforce
      from j i False run tok obtain t where t: "slice tx (fst (bs ! i)) (snd (bs ! j)) = Some t"
        by (subst (asm) pack_loop.simps) (auto simp: st idx_at_def bind_eq_Some appendChunk_def)
      let ?st1 = "(chunks @ [one_chunk t (fst (bs ! i)) (snd (bs ! j)) (tok_sum tok i j) idx], idx + 1)"
      have ok1: "list_all P (fst ?st1)" using ok packed [OF j(2,3) t] by (simp add: st)
      show ?thesis
      proof (cases "j = length bs - 1")
        case True
        then have "st' = ?st1"
          using run i False tok j t
          by (subst (asm) pack_loop.simps) (simp add: st idx_at_def appendChunk_slice)
        with ok1 show ?thesis by simp
      next
        case more: False
        have "j < length tok" using j(3) tok by simp
        with j(2) obtain i' where i': "overlapStart tok i j q = Some i'" "i < i'"
          using overlapStart_spec by metis
        have "pack_loop oversize tx bs tok maxTok q i st =
            pack_loop oversize tx bs tok maxTok q i' ?st1"
          using i False tok j(1,3) t more i'(1)
          by (subst pack_loop.simps) (simp add: st idx_at_def appendChunk_slice)
        then have nxt: "pack_loop oversize tx bs tok maxTok q i' ?st1 = Some st'"
          using run by simp
        have "length bs - i' < length bs - i" using i i'(2) by simp
        from less.hyps [OF this nxt ok1 tok over packed] show ?thesis .
      qed
    qed
  next
    case False
    then show ?thesis using run ok by (simp add: pack_loop_done)
  qed
qed

text \<open>A stretch inside one region is kept when it is that region, or when its splitter keeps it.\<close>

lemma pack_loop_keeps:
  assumes run: "pack_loop oversize tx bs tok maxTok q i st = Some st'"
    and st: "list_all (keeps a b) (fst st)"
    and bs: "regions tx bs" and tok: "length tok = length bs"
    and m: "m < length bs" "fst (bs ! m) \<le> a" "b \<le> snd (bs ! m)"
    and mine: "\<And>st st'. maxTok < tok ! m \<Longrightarrow> oversize m st = Some st' \<Longrightarrow>
      list_all (keeps a b) (fst st) \<Longrightarrow> list_all (keeps a b) (fst st')"
    and other: "\<And>k st st'. k < length bs \<Longrightarrow> maxTok < tok ! k \<Longrightarrow> oversize k st = Some st' \<Longrightarrow>
      \<exists>cs. fst st' = fst st @ cs \<and> within (fst (bs ! k)) (snd (bs ! k)) cs"
  shows "list_all (keeps a b) (fst st')"
proof (rule pack_loop_all [OF run st tok])
  fix k st st'
  assume k: "k < length bs" "maxTok < tok ! k" "oversize k st = Some st'"
    and ok: "list_all (keeps a b) (fst st)"
  show "list_all (keeps a b) (fst st')"
  proof (cases "k = m")
    case True
    with mine k ok show ?thesis by blast
  next
    case False
    then have "snd (bs ! k) \<le> a \<or> b \<le> fst (bs ! k)"
      using regions_less [OF bs, of k m] regions_less [OF bs, of m k] k(1) m by linarith
    then show ?thesis using other [OF k] ok within_keeps by fastforce
  qed
next
  fix i j t n idx
  assume ij: "i \<le> j" "j < length bs"
  consider "m < i" | "i \<le> m" "m \<le> j" | "j < m" by linarith
  then show "keeps a b (one_chunk t (fst (bs ! i)) (snd (bs ! j)) n idx)"
  proof cases
    case 1
    then show ?thesis
      using regions_less [OF bs, of m i] ij m by (simp add: keeps_def one_chunk_def)
  next
    case 2
    then show ?thesis
      using regions_le(1) [OF bs, of i m] regions_le(2) [OF bs, of m j] ij m
      by (simp add: keeps_def one_chunk_def)
  next
    case 3
    then show ?thesis
      using regions_less [OF bs, of j m] m by (simp add: keeps_def one_chunk_def)
  qed
qed

end
