(* ===== verification/Chunk_Prose.thy ===== *)
theory Chunk_Prose
  imports Chunk_Emits
begin

text \<open>
  The prose splitter meets the contract: it returns for every text, estimator and budget,
  its windows never leave the span, it always advances, and it loses no rune.
\<close>

subsection \<open>Finding a cut\<close>

lemma sentence_loop_range:
  "-1 \<le> acc \<Longrightarrow> acc < i \<Longrightarrow> 0 \<le> i \<Longrightarrow> s \<noteq> [] \<Longrightarrow>
     -1 \<le> sentence_loop s i acc \<and> sentence_loop s i acc < i + len s - 1 \<or> sentence_loop s i acc = acc"
proof (induction s i acc rule: sentence_loop.induct)
  case (1 c d s i acc)
  let ?a = "if (c = CHR ''.'' \<or> c = CHR ''!'' \<or> c = CHR ''?'') \<and> d = SP then i else acc"
  have "-1 \<le> ?a" "?a < i + 1" using "1.prems" by auto
  then have "-1 \<le> sentence_loop (d # s) (i + 1) ?a \<and>
      sentence_loop (d # s) (i + 1) ?a < i + 1 + len (d # s) - 1 \<or>
      sentence_loop (d # s) (i + 1) ?a = ?a"
    using "1.IH" "1.prems" by simp
  then show ?case using "1.prems" by (auto split: if_splits)
qed auto

lemma lastSentenceEnd_range: "0 \<le> lastSentenceEnd s \<Longrightarrow> lastSentenceEnd s + 1 < len s + 1 \<and> lastSentenceEnd s < len s"
proof (cases "s = []")
  case True
  then show "0 \<le> lastSentenceEnd s \<Longrightarrow> ?thesis" by (simp add: lastSentenceEnd_def)
next
  case False
  then show "0 \<le> lastSentenceEnd s \<Longrightarrow> ?thesis"
    using sentence_loop_range [of "-1" 0 s] by (auto simp: lastSentenceEnd_def)
qed

lemma lastWhitespace_range: "lastWhitespace s = -1 \<or> (0 \<le> lastWhitespace s \<and> lastWhitespace s < len s)"
proof -
  have "foldl (\<lambda>acc (i, r). if IsSpace r then i else acc) a xs \<in> insert a (fst ` set xs)"
    for a :: int and xs
    by (induction xs arbitrary: a) (auto split: prod.splits)
  then have "lastWhitespace s \<in> insert (-1) (fst ` set (range_runes 0 s))"
    by (simp add: lastWhitespace_def)
  then show ?thesis using range_runes_range by fastforce
qed

text \<open>The cut lies in the last quarter of the window, so never before the window's start.\<close>

lemma findBoundary_range:
  assumes "0 \<le> start" and "start < ideal" and "ideal \<le> len tx"
  obtains e where "findBoundary tx start ideal = Some e" and "start \<le> e" and "e \<le> ideal"
    and "ideal - (ideal - start) div 4 \<le> e"
proof -
  let ?w = "max (ideal - (ideal - start) div 4) start"
  have w: "start \<le> ?w" "?w \<le> ideal" "0 \<le> ?w" "ideal - (ideal - start) div 4 \<le> ?w"
    using assms by auto
  then obtain win where win: "slice tx ?w ideal = Some win"
    using assms by (simp add: slice_def)
  have l: "len win = ideal - ?w" using slice_length [OF win] .
  consider "0 \<le> lastSentenceEnd win" | "\<not> 0 \<le> lastSentenceEnd win" "0 \<le> lastWhitespace win"
    | "\<not> 0 \<le> lastSentenceEnd win" "\<not> 0 \<le> lastWhitespace win"
    by blast
  then show ?thesis
  proof cases
    case 1
    with win have "findBoundary tx start ideal = Some (?w + lastSentenceEnd win + 1)"
      by (simp add: findBoundary_def)
    then show ?thesis
      by (rule that) (use 1 w l lastSentenceEnd_range [of win] in linarith)+
  next
    case 2
    with win have "findBoundary tx start ideal = Some (?w + lastWhitespace win)"
      by (simp add: findBoundary_def)
    then show ?thesis
      by (rule that) (use 2 w l lastWhitespace_range [of win] in linarith)+
  next
    case 3
    with win have "findBoundary tx start ideal = Some ideal" by (simp add: findBoundary_def)
    then show ?thesis by (rule that) (use w assms in linarith)+
  qed
qed

subsection \<open>Snapping to rune boundaries\<close>

lemma back_to_start_spec:
  assumes "start \<le> e"
  shows "start \<le> back_to_start tx start e \<and> back_to_start tx start e \<le> e \<and>
    (start < back_to_start tx start e \<and> 0 \<le> start \<and> e \<le> len tx \<longrightarrow>
       runeAligned tx (back_to_start tx start e))"
  using assms
proof (induction tx start e rule: back_to_start.induct)
  case (1 tx start e)
  show ?case
  proof (cases "start < e \<and> e < len tx \<and> (case byte_at tx e of Some b \<Rightarrow> \<not> RuneStart b | None \<Rightarrow> False)")
    case True
    then have "back_to_start tx start e = back_to_start tx start (e - 1)"
      by (subst back_to_start.simps) simp
    then show ?thesis using "1.IH" [OF True] True by auto
  next
    case False
    then have "back_to_start tx start e = e" by (subst back_to_start.simps) auto
    then show ?thesis
      using False "1.prems" by (auto simp: runeAligned_def byte_at_def)
  qed
qed

lemma snapEnd_spec:
  assumes pos: "0 \<le> pos" "pos < hi" "hi \<le> len tx" and clean: "clean_end tx hi"
    and e0: "pos \<le> e0" "e0 \<le> hi"
  obtains e where "snapEndToRuneBoundary tx pos e0 = Some e" and "pos < e" and "e \<le> hi"
    and "ValidString tx \<and> runeAligned tx pos \<Longrightarrow> runeAligned tx e"
proof -
  let ?b = "back_to_start tx pos e0"
  have b: "pos \<le> ?b" "?b \<le> e0" "pos < ?b \<Longrightarrow> runeAligned tx ?b"
    using back_to_start_spec [OF e0(1), of tx] pos e0 by auto
  show ?thesis
  proof (cases "pos < ?b")
    case True
    then have "snapEndToRuneBoundary tx pos e0 = Some ?b"
      using pos e0 by (simp add: snapEndToRuneBoundary_def)
    with True b e0 show ?thesis by (intro that) auto
  next
    case False
    let ?t = "drop (nat pos) tx"
    let ?n = "rune_size ?t"
    have t: "?t \<noteq> []" "slice tx pos (len tx) = Some ?t"
      using pos by (auto simp: slice_def)
    have n: "0 < ?n" "?n \<le> length ?t" using rune_size_bounds [OF t(1)] by auto
    have "int (length ?t) = len tx - pos" using pos by (simp add: of_nat_diff)
    then have nt: "pos + int ?n \<le> len tx" using n by linarith
    have snap: "snapEndToRuneBoundary tx pos e0 = Some (pos + int ?n)"
      using False b pos e0 t nt by (simp add: snapEndToRuneBoundary_def)
    have cont: "\<not> rune_at tx p" if "pos < p" "p < pos + int ?n" for p
    proof -
      have "\<not> RuneStart (?t ! nat (p - pos))"
        using that by (intro rune_size_cont) auto
      moreover have "?t ! nat (p - pos) = tx ! nat p"
        using that pos n by (simp add: nat_diff_distrib)
      ultimately show ?thesis by (auto simp: rune_at_def byte_at_def)
    qed
    have "pos + int ?n \<le> hi"
    proof (rule ccontr)
      assume "\<not> pos + int ?n \<le> hi"
      then have nr: "\<not> rune_at tx hi" and lt: "hi < pos + int ?n" using cont pos by auto
      then have "hi < len tx" using n pos by auto
      with clean nr have lf: "byte_at tx (hi - 1) = Some LF" by (auto simp: clean_end_def)
      then have "rune_at tx (hi - 1)" by (simp add: rune_at_def RuneStart_def)
      then have "hi - 1 = pos" using cont [of "hi - 1"] lt pos by force
      then have "?n = 1"
        using lf t(1) pos by (intro rune_size_ascii) (auto simp: byte_at_Some_iff hd_drop_conv_nth)
      with lt pos show False by simp
    qed
    moreover have "runeAligned tx (pos + int ?n)" if "ValidString tx \<and> runeAligned tx pos"
    proof -
      have "aligned tx (nat pos + ?n)"
        using that runeAligned_aligned t(1) by (intro aligned_after_rune) auto
      then show ?thesis using pos by (intro aligned_runeAligned) (auto simp: nat_add_distrib)
    qed
    ultimately show ?thesis using snap n by (intro that) auto
  qed
qed

lemma forward_to_start_spec:
  assumes "0 \<le> i" and "i \<le> len tx"
  shows "i \<le> forward_to_start tx i \<and> forward_to_start tx i \<le> len tx
    \<and> runeAligned tx (forward_to_start tx i)
    \<and> (\<forall>p. i \<le> p \<and> rune_at tx p \<longrightarrow> forward_to_start tx i \<le> p)"
  using assms
proof (induction tx i rule: forward_to_start.induct)
  case (1 tx i)
  show ?case
  proof (cases "i < len tx \<and> (case byte_at tx i of Some b \<Rightarrow> \<not> RuneStart b | None \<Rightarrow> False)")
    case True
    then have f: "forward_to_start tx i = forward_to_start tx (i + 1)"
      by (subst forward_to_start.simps) simp
    have "\<not> rune_at tx i" using True by (auto simp: rune_at_def split: option.splits)
    then have "\<forall>p. i \<le> p \<and> rune_at tx p \<longrightarrow> i + 1 \<le> p"
      by (metis order_le_less zless_imp_add1_zle)
    with f "1.IH" [OF True] True "1.prems" show ?thesis by fastforce
  next
    case False
    then have "forward_to_start tx i = i" by (subst forward_to_start.simps) auto
    then show ?thesis using False "1.prems" by (auto simp: runeAligned_def byte_at_def)
  qed
qed

lemma snapStart_spec:
  assumes "0 < i" and "i \<le> len tx"
  shows "i \<le> snapStartToRuneStart tx i \<and> snapStartToRuneStart tx i \<le> len tx
    \<and> runeAligned tx (snapStartToRuneStart tx i)
    \<and> (\<forall>p. i \<le> p \<and> rune_at tx p \<longrightarrow> snapStartToRuneStart tx i \<le> p)"
  using assms forward_to_start_spec [of i tx]
  by (auto simp: snapStartToRuneStart_def runeAligned_def rune_at_def byte_at_def split: if_splits)

subsection \<open>The loop\<close>

lemma prose_loop_runs:
  assumes "0 \<le> pos" and "pos < hi" and "hi \<le> len tx" and "clean_end tx hi"
    and "1 \<le> target" and "0 \<le> overlap"
  shows "runs est maxTok tx pos hi {pos..<hi} (cut_at_runes tx pos hi)
    (cut_at_runes tx pos hi \<and> overlap = 0) (prose_loop tx hi target overlap est pos)"
  using assms(1,2)
proof (induction "nat (hi - pos)" arbitrary: pos rule: less_induct)
  case less
  have "\<exists>e0. (if hi \<le> pos + target then Some hi else findBoundary tx pos (pos + target)) = Some e0
      \<and> pos \<le> e0 \<and> e0 \<le> hi"
  proof (cases "hi \<le> pos + target")
    case False
    then obtain e where "findBoundary tx pos (pos + target) = Some e" "pos \<le> e" "e \<le> pos + target"
      using findBoundary_range [of pos "pos + target" tx] less.prems assms by auto
    with False show ?thesis by auto
  qed (use less.prems in auto)
  then obtain e0 where e0: "(if hi \<le> pos + target then Some hi else findBoundary tx pos (pos + target)) = Some e0"
    "pos \<le> e0" "e0 \<le> hi" by blast
  obtain e where e: "snapEndToRuneBoundary tx pos e0 = Some e" "pos < e" "e \<le> hi"
    and al: "ValidString tx \<and> runeAligned tx pos \<Longrightarrow> runeAligned tx e"
    using snapEnd_spec [OF less.prems assms(3,4) e0(2,3)] by blast
  obtain t where t: "slice tx pos e = Some t"
    using e less.prems assms by (simp add: slice_def)
  let ?next = "snapStartToRuneStart tx (if e - overlap \<le> pos then pos + 1 else e - overlap)"
  have nx: "0 < (if e - overlap \<le> pos then pos + 1 else e - overlap)"
    "(if e - overlap \<le> pos then pos + 1 else e - overlap) \<le> e"
    "pos < (if e - overlap \<le> pos then pos + 1 else e - overlap)"
    using less.prems e assms(6) by auto
  then have next_gt: "pos < ?next" and next_al: "runeAligned tx ?next"
    and next_le: "\<And>p. e \<le> p \<Longrightarrow> rune_at tx p \<Longrightarrow> ?next \<le> p"
    using snapStart_spec [OF nx(1), of tx] e assms(3) by fastforce+
  show ?case
  proof (rule runsI)
    fix chunks :: "Chunk list" and idx :: int
    have step: "prose_loop tx hi target overlap est pos (chunks, idx) =
      (if hi \<le> e then Some (chunks @ [one_chunk t pos e (est t) idx], idx + 1)
       else prose_loop tx hi target overlap est ?next
              (chunks @ [one_chunk t pos e (est t) idx], idx + 1))"
      by (subst prose_loop.simps) (simp add: e0(1) e(1) t appendChunk_slice less.prems)
    show "\<exists>cs. prose_loop tx hi target overlap est pos (chunks, idx) =
        Some (chunks @ cs, idx + len cs) \<and> indexed idx cs
        \<and> emits est maxTok tx pos hi {pos..<hi} (cut_at_runes tx pos hi)
             (cut_at_runes tx pos hi \<and> overlap = 0) cs"
    proof (cases "hi \<le> e")
      case True
      then have "e = hi" using e by simp
      moreover have "emits est maxTok tx pos e {pos..<e} (cut_at_runes tx pos e)
          (cut_at_runes tx pos e \<and> overlap = 0) [one_chunk t pos e (est t) idx]"
        using t e(2) by (rule emits_one) auto
      ultimately show ?thesis
        using step True by (intro exI [of _ "[one_chunk t pos e (est t) idx]"])
          (simp add: one_chunk_def)
    next
      case False
      let ?c = "one_chunk t pos e (est t) idx"
      show ?thesis
      proof (cases "?next < hi")
        case True
        from less.hyps [OF _ _ True] next_gt less.prems True
        have "runs est maxTok tx ?next hi {?next..<hi} (cut_at_runes tx ?next hi)
          (cut_at_runes tx ?next hi \<and> overlap = 0) (prose_loop tx hi target overlap est ?next)"
          by simp
        then obtain cs where cs: "prose_loop tx hi target overlap est ?next (chunks @ [?c], idx + 1)
            = Some ((chunks @ [?c]) @ cs, idx + 1 + len cs)" "indexed (idx + 1) cs"
          and em: "emits est maxTok tx ?next hi {?next..<hi} (cut_at_runes tx ?next hi)
            (cut_at_runes tx ?next hi \<and> overlap = 0) cs"
          by (rule runsE)
        have em': "emits est maxTok tx ?next hi {?next..<hi} (cut_at_runes tx pos hi)
            (cut_at_runes tx pos hi \<and> overlap = 0) cs"
          using em next_al by (auto simp: emits_def)
        have "emits est maxTok tx pos hi {pos..<hi} (cut_at_runes tx pos hi)
             (cut_at_runes tx pos hi \<and> overlap = 0) (?c # cs)"
        proof (rule emits_Cons [OF t e(2,3) _ _ em' next_gt])
          fix p assume "p \<in> {pos..<hi}" "rune_at tx p"
          then show "(pos \<le> p \<and> p < e) \<or> p \<in> {?next..<hi}"
            using next_le [of p] by (cases "e \<le> p") auto
        next
          assume G: "cut_at_runes tx pos hi \<and> overlap = 0"
          then have "rune_at tx e"
            using al False e less.prems assms(3) by (auto simp: runeAligned_def rune_at_def)
          then show "?next = e" using next_le [of e] G snapStart_spec [of e tx] e less.prems assms(3)
            by fastforce
        qed (use al in auto)
        then show ?thesis
          using step False cs by (intro exI [of _ "?c # cs"]) (simp add: one_chunk_def)
      next
        case nlt: False
        have stop: "prose_loop tx hi target overlap est ?next (chunks @ [?c], idx + 1)
            = Some (chunks @ [?c], idx + 1)"
          using nlt by (subst prose_loop.simps) simp
        have last: "\<not> rune_at tx p" if "e \<le> p" "p < hi" for p
          using next_le [OF that(1)] that nlt by auto
        have "\<not> cut_at_runes tx pos hi"
        proof
          assume "cut_at_runes tx pos hi"
          then have "rune_at tx e"
            using al False e less.prems assms(3) by (auto simp: runeAligned_def rune_at_def)
          then show False using last [of e] False by simp
        qed
        moreover have "p < e" if "p \<in> {pos..<hi}" "rune_at tx p" for p
          using last [of p] that by force
        ultimately have "emits est maxTok tx pos hi {pos..<hi} (cut_at_runes tx pos hi)
             (cut_at_runes tx pos hi \<and> overlap = 0) [?c]"
          using t e by (auto simp: emits_def chunk_props covers_def one_chunk_def)
        then show ?thesis
          using step False stop by (intro exI [of _ "[?c]"]) (simp add: one_chunk_def)
      qed
    qed
  qed
qed

lemma byte_window_zero: "tokens \<le> 0 \<Longrightarrow> byte_window oor tokens n tot = 0"
  by (simp add: byte_window_def)

lemma hardSplitProse_runs:
  assumes "0 \<le> lo" and "lo < hi" and "hi \<le> len tx" and "clean_end tx hi"
  shows "splits est maxTok overlapTok tx lo hi (hardSplitProse oor tx lo hi maxTok overlapTok est)"
proof -
  obtain span where span: "slice tx lo hi = Some span"
    using assms by (simp add: slice_def)
  let ?tot = "max (est span) 1"
  let ?target = "max (byte_window oor maxTok (len span) ?tot) 1"
  let ?overlap = "max (byte_window oor overlapTok (len span) ?tot) 0"
  have "hardSplitProse oor tx lo hi maxTok overlapTok est =
      prose_loop tx hi ?target ?overlap est lo"
    by (rule ext) (simp add: hardSplitProse_def span Let_def)
  then show ?thesis
    using prose_loop_runs [OF assms, of ?target ?overlap est maxTok]
    by (auto elim!: runs_weaken simp: byte_window_zero)
qed

interpretation prose: span_splitter
  "\<lambda>tx lo hi. hardSplitProse oor tx lo hi maxTok overlapTok est" est maxTok overlapTok
  for oor est maxTok overlapTok
  by unfold_locales (rule hardSplitProse_runs)

end
