(* ===== verification/Chunk_Code.thy ===== *)
theory Chunk_Code
  imports Chunk_Pack Chunk_Prose
begin

text \<open>
  The code-aware splitters of \<^verbatim>\<open>chunk/codesplit.go\<close> and the dispatch
  \<open>hardSplit\<close>: each cuts its span at line ends into pieces that tile it, so each meets the
  splitter contract, and \<open>hardSplit\<close> never cuts a fenced block that fits the budget.
\<close>

subsection \<open>Pieces that tile a span and end with lines\<close>

fun chain :: "int \<Rightarrow> int \<Rightarrow> (int \<times> int) list \<Rightarrow> bool" where
  "chain lo hi [] \<longleftrightarrow> lo = hi"
| "chain lo hi (p # ps) \<longleftrightarrow> fst p = lo \<and> lo < snd p \<and> snd p \<le> hi \<and> chain (snd p) hi ps"

abbreviation line_ends :: "string \<Rightarrow> int \<Rightarrow> (int \<times> int) list \<Rightarrow> bool" where
  "line_ends tx hi bs \<equiv> list_all (\<lambda>p. snd p = hi \<or> byte_at tx (snd p - 1) = Some LF) bs"

lemma tiles_chain: "tiles lo hi us \<longleftrightarrow> chain lo hi (unit_bounds us)"
  by (induction us arbitrary: lo) auto

lemma chain_bounds:
  "chain lo hi bs \<Longrightarrow> list_all (\<lambda>p. lo \<le> fst p \<and> fst p < snd p \<and> snd p \<le> hi) bs"
proof (induction bs arbitrary: lo)
  case (Cons p bs)
  then have "list_all (\<lambda>q. snd p \<le> fst q \<and> fst q < snd q \<and> snd q \<le> hi) bs" by simp
  then show ?case using Cons.prems by (auto simp: list_all_iff)
qed simp

lemma chain_sorted: "chain lo hi bs \<Longrightarrow> sorted_wrt (\<lambda>p q. snd p \<le> fst q) bs"
proof (induction bs arbitrary: lo)
  case (Cons p bs)
  then show ?case using chain_bounds [of "snd p" hi bs] by (auto simp: list_all_iff)
qed simp

lemma chain_regions: "chain lo hi bs \<Longrightarrow> 0 \<le> lo \<Longrightarrow> hi \<le> len tx \<Longrightarrow> regions tx bs"
  using chain_bounds [of lo hi bs] chain_sorted [of lo hi bs]
  by (auto simp: regions_def list_all_iff)

lemma chain_adjacent: "chain lo hi bs \<Longrightarrow> adjacent bs"
proof (induction bs arbitrary: lo)
  case (Cons p bs)
  then have "adjacent bs" by auto
  moreover have "bs \<noteq> [] \<Longrightarrow> fst (bs ! 0) = snd p" using Cons.prems by (cases bs) auto
  ultimately show ?case by (auto simp: adjacent_def nth_Cons split: nat.splits)
qed (simp add: adjacent_def)

lemma chain_ends:
  assumes "chain lo hi bs" and "lo < hi"
  shows "bs \<noteq> []" "fst (bs ! 0) = lo" "snd (bs ! (length bs - 1)) = hi"
proof -
  show ne: "bs \<noteq> []" using assms by auto
  then show "fst (bs ! 0) = lo" using assms by (cases bs) auto
  have "snd (last bs) = hi" if "bs \<noteq> []" "chain lo hi bs" for lo
    using that by (induction bs arbitrary: lo) (auto split: if_splits)
  then show "snd (bs ! (length bs - 1)) = hi" using ne assms by (simp add: last_conv_nth)
qed

lemma chain_points: "chain lo hi bs \<Longrightarrow> {lo..<hi} \<subseteq> region_points bs 0"
proof
  fix p assume "chain lo hi bs" "p \<in> {lo..<hi}"
  then have "\<exists>q \<in> set bs. fst q \<le> p \<and> p < snd q"
  proof (induction bs arbitrary: lo)
    case (Cons q bs)
    then show ?case by (cases "p < snd q") auto
  qed simp
  then obtain k where "k < length bs" "fst (bs ! k) \<le> p" "p < snd (bs ! k)"
    by (auto simp: in_set_conv_nth)
  then show "p \<in> region_points bs 0" by (force simp: region_points_def)
qed

lemma chain_aligned:
  "chain lo hi bs \<Longrightarrow> line_ends tx hi bs \<Longrightarrow> cut_at_runes tx lo hi \<Longrightarrow>
     list_all (\<lambda>p. runeAligned tx (fst p) \<and> runeAligned tx (snd p)) bs"
  by (induction bs arbitrary: lo) (auto intro: aligned_after_LF)

lemma chain_clean:
  "line_ends tx hi bs \<Longrightarrow> clean_end tx hi \<Longrightarrow> k < length bs \<Longrightarrow> clean_end tx (snd (bs ! k))"
  by (auto simp: list_all_length clean_end_def)

text \<open>Packing such pieces is a splitter of the span.\<close>

lemma pack_chain_splits:
  assumes r: "0 \<le> lo" "lo < hi" "hi \<le> len tx"
    and ch: "chain lo hi bs" and le: "line_ends tx hi bs"
    and over: "\<And>k. k < length bs \<Longrightarrow>
      splits est maxTok overlapTok tx (fst (bs ! k)) (snd (bs ! k)) (oversize k)"
  shows "splits est maxTok overlapTok tx lo hi
    (\<lambda>st. do { tok \<leftarrow> region_tokens est tx bs;
               pack_loop oversize tx bs tok maxTok overlapTok 0 st })"
proof -
  let ?A = "cut_at_runes tx lo hi" and ?G = "cut_at_runes tx lo hi \<and> overlapTok \<le> 0"
  have bs: "regions tx bs" using chain_regions [OF ch r(1,3)] .
  obtain tok where tok: "region_tokens est tx bs = Some tok" "length tok = length bs"
    using region_tokens_returns [OF bs] by blast
  note ends = chain_ends [OF ch r(2)]
  have al: "?A \<Longrightarrow> list_all (\<lambda>p. runeAligned tx (fst p) \<and> runeAligned tx (snd p)) bs"
    using chain_aligned [OF ch le] by simp
  have "runs est maxTok tx (fst (bs ! 0)) (snd (bs ! (length bs - 1))) (region_points bs 0) ?A ?G
      (pack_loop oversize tx bs tok maxTok overlapTok 0)"
  proof (rule pack_loop_runs [OF bs tok(2) al])
    fix k assume k: "k < length bs"
    show "runs est maxTok tx (fst (bs ! k)) (snd (bs ! k)) {fst (bs ! k)..<snd (bs ! k)} ?A ?G
        (oversize k)"
      by (rule runs_weaken [OF over [OF k]]) (use al k in \<open>auto simp: list_all_length\<close>)
  qed (use chain_adjacent [OF ch] ends in auto)
  then show ?thesis
    using tok ends chain_points [OF ch] by (auto elim!: runs_weaken)
qed

subsection \<open>The three ways a span is cut into lines and groups\<close>

lemma span_lines_chain:
  assumes "0 \<le> i" and "i \<le> e" and "e \<le> len tx"
  shows "\<exists>ls. span_lines tx i e = Some ls \<and> chain i e (cs_bounds ls) \<and> line_ends tx e (cs_bounds ls)"
  using assms(1,2)
proof (induction "nat (e - i)" arbitrary: i rule: less_induct)
  case less
  show ?case
  proof (cases "i < e")
    case True
    obtain line k where l: "lineAt tx i e = Some (line, k)" "i < k" "k \<le> e"
      "k = e \<or> byte_at tx (k - 1) = Some LF"
      using lineAt_spec [OF less.prems(1) True assms(3)] .
    moreover obtain ls where "span_lines tx k e = Some ls" "chain k e (cs_bounds ls)"
      "line_ends tx e (cs_bounds ls)"
      using less.hyps [of k] l less.prems True by auto
    ultimately show ?thesis using True by (subst span_lines.simps) simp
  next
    case False
    then show ?thesis using less.prems by (subst span_lines.simps) simp
  qed
qed

lemma fence_end_spec:
  assumes "0 \<le> i" and "i \<le> e" and "e \<le> len tx" and "i = e \<or> byte_at tx (i - 1) = Some LF"
  shows "\<exists>k. fence_end tx i e ch n = Some k \<and> i \<le> k \<and> k \<le> e
    \<and> (k = e \<or> byte_at tx (k - 1) = Some LF)"
  using assms(1,2,4)
proof (induction "nat (e - i)" arbitrary: i rule: less_induct)
  case less
  show ?case
  proof (cases "i < e")
    case True
    obtain line k where l: "lineAt tx i e = Some (line, k)" "i < k" "k \<le> e"
      "k = e \<or> byte_at tx (k - 1) = Some LF"
      using lineAt_spec [OF less.prems(1) True assms(3)] .
    moreover obtain k' where "fence_end tx k e ch n = Some k'" "k \<le> k'" "k' \<le> e"
      "k' = e \<or> byte_at tx (k' - 1) = Some LF"
      using less.hyps [of k] l less.prems True by auto
    ultimately show ?thesis using True by (subst fence_end.simps) simp
  next
    case False
    then show ?thesis using less.prems by (subst fence_end.simps) simp
  qed
qed

lemma fencedGroups_chain:
  assumes "0 \<le> i" and "i \<le> e" and "e \<le> len tx"
  shows "\<exists>gs. fencedGroups tx i e = Some gs \<and> chain i e (cs_bounds gs)
    \<and> line_ends tx e (cs_bounds gs)"
  using assms(1,2)
proof (induction "nat (e - i)" arbitrary: i rule: less_induct)
  case less
  show ?case
  proof (cases "i < e")
    case True
    obtain line k where l: "lineAt tx i e = Some (line, k)" "i < k" "k \<le> e"
      "k = e \<or> byte_at tx (k - 1) = Some LF"
      using lineAt_spec [OF less.prems(1) True assms(3)] .
    have rest: "\<exists>gs. fencedGroups tx k' e = Some gs \<and> chain k' e (cs_bounds gs)
        \<and> line_ends tx e (cs_bounds gs)" if "i < k'" "k' \<le> e" for k'
      using less.hyps [of k'] less.prems that by auto
    show ?thesis
    proof (cases "fenceMarker line")
      case None
      then show ?thesis using rest [of k] l True by (subst fencedGroups.simps) auto
    next
      case (Some m)
      obtain k' where k': "fence_end tx k e (fst m) (fst (snd m)) = Some k'" "k \<le> k'" "k' \<le> e"
        "k' = e \<or> byte_at tx (k' - 1) = Some LF"
        using fence_end_spec [of k e tx "fst m" "fst (snd m)"] l less.prems assms(3) by auto
      then show ?thesis
        using rest [of k'] l True Some by (subst fencedGroups.simps) auto
    qed
  next
    case False
    then show ?thesis using less.prems by (subst fencedGroups.simps) simp
  qed
qed

lemma spanHasFence_returns:
  assumes "0 \<le> i" and "i \<le> e" and "e \<le> len tx"
  shows "\<exists>b. spanHasFence tx i e = Some b"
  using assms(1,2)
proof (induction "nat (e - i)" arbitrary: i rule: less_induct)
  case less
  show ?case
  proof (cases "i < e")
    case True
    obtain line k where l: "lineAt tx i e = Some (line, k)" "i < k" "k \<le> e"
      using lineAt_spec [OF less.prems(1) True assms(3)] by blast
    then show ?thesis
      using less.hyps [of k] less.prems True by (subst spanHasFence.simps) auto
  next
    case False
    then show ?thesis by (subst spanHasFence.simps) (intro exI [of _ False], simp)
  qed
qed

subsection \<open>The splitters meet the contract\<close>

lemma splitLines_runs:
  assumes r: "0 \<le> lo" "lo < hi" "hi \<le> len tx" and clean: "clean_end tx hi"
  shows "splits est maxTok overlapTok tx lo hi (splitLines oor tx lo hi maxTok overlapTok est)"
proof -
  obtain ls where ls: "span_lines tx lo hi = Some ls" "chain lo hi (cs_bounds ls)"
    "line_ends tx hi (cs_bounds ls)"
    using span_lines_chain [of lo hi tx] r by auto
  have bs: "regions tx (cs_bounds ls)" using chain_regions [OF ls(2) r(1,3)] .
  have "splits est maxTok overlapTok tx lo hi
    (\<lambda>st. do { tok \<leftarrow> region_tokens est tx (cs_bounds ls);
               pack_loop (\<lambda>k. hardSplitProse oor tx (cs_start (ls ! k)) (cs_end (ls ! k))
                  maxTok overlapTok est) tx (cs_bounds ls) tok maxTok overlapTok 0 st })"
  proof (rule pack_chain_splits [OF r ls(2,3)])
    fix k assume k: "k < length (cs_bounds ls)"
    show "splits est maxTok overlapTok tx (fst (cs_bounds ls ! k)) (snd (cs_bounds ls ! k))
        (hardSplitProse oor tx (cs_start (ls ! k)) (cs_end (ls ! k)) maxTok overlapTok est)"
      using prose.split_runs regions_nth [OF bs k] chain_clean [OF ls(3) clean k] k by simp
  qed
  then show ?thesis using ls(1) by (simp add: splitLines_def [abs_def])
qed

interpretation lines: span_splitter
  "\<lambda>tx lo hi. splitLines oor tx lo hi maxTok overlapTok est" est maxTok overlapTok
  for oor est maxTok overlapTok
  by unfold_locales (rule splitLines_runs)

lemma splitFenced_runs:
  assumes r: "0 \<le> lo" "lo < hi" "hi \<le> len tx" and clean: "clean_end tx hi"
  shows "splits est maxTok overlapTok tx lo hi (splitFenced oor tx lo hi maxTok overlapTok est)"
proof -
  obtain gs where gs: "fencedGroups tx lo hi = Some gs" "chain lo hi (cs_bounds gs)"
    "line_ends tx hi (cs_bounds gs)"
    using fencedGroups_chain [of lo hi tx] r by auto
  have bs: "regions tx (cs_bounds gs)" using chain_regions [OF gs(2) r(1,3)] .
  let ?over = "\<lambda>k. if cs_fence (gs ! k)
      then splitLines oor tx (cs_start (gs ! k)) (cs_end (gs ! k)) maxTok overlapTok est
      else hardSplitProse oor tx (cs_start (gs ! k)) (cs_end (gs ! k)) maxTok overlapTok est"
  have "splits est maxTok overlapTok tx lo hi
    (\<lambda>st. do { tok \<leftarrow> region_tokens est tx (cs_bounds gs);
               pack_loop ?over tx (cs_bounds gs) tok maxTok overlapTok 0 st })"
  proof (rule pack_chain_splits [OF r gs(2,3)])
    fix k assume k: "k < length (cs_bounds gs)"
    show "splits est maxTok overlapTok tx (fst (cs_bounds gs ! k)) (snd (cs_bounds gs ! k)) (?over k)"
      using prose.split_runs lines.split_runs regions_nth [OF bs k] chain_clean [OF gs(3) clean k] k
      by simp
  qed
  then show ?thesis using gs(1) by (simp add: splitFenced_def [abs_def])
qed

interpretation fenced: span_splitter
  "\<lambda>tx lo hi. splitFenced oor tx lo hi maxTok overlapTok est" est maxTok overlapTok
  for oor est maxTok overlapTok
  by unfold_locales (rule splitFenced_runs)

lemma hardSplit_runs:
  assumes r: "0 \<le> lo" "lo < hi" "hi \<le> len tx" and clean: "clean_end tx hi"
  shows "splits est maxTok overlapTok tx lo hi (hardSplit oor tx lo hi maxTok overlapTok est)"
proof -
  obtain b where "spanHasFence tx lo hi = Some b"
    using spanHasFence_returns [of lo hi tx] r by auto
  then show ?thesis
    using fenced.split_runs [OF r clean] prose.split_runs [OF r clean]
    by (cases b) (simp_all add: hardSplit_def [abs_def])
qed

interpretation hard: span_splitter
  "\<lambda>tx lo hi. hardSplit oor tx lo hi maxTok overlapTok est" est maxTok overlapTok
  for oor est maxTok overlapTok
  by unfold_locales (rule hardSplit_runs)

subsection \<open>A fenced block that fits is never cut\<close>

lemma fence_seen:
  assumes "0 \<le> i" and "i \<le> e" and "e \<le> len tx"
    and "fencedGroups tx i e = Some gs" and "g \<in> set gs" and "cs_fence g"
  shows "spanHasFence tx i e = Some True"
  using assms(1,2,4,5)
proof (induction "nat (e - i)" arbitrary: i gs rule: less_induct)
  case less
  show ?case
  proof (cases "i < e")
    case True
    obtain line k where l: "lineAt tx i e = Some (line, k)" "i < k" "k \<le> e"
      using lineAt_spec [OF less.prems(1) True assms(3)] by blast
    show ?thesis
    proof (cases "fenceMarker line")
      case None
      then obtain gs' where gs': "fencedGroups tx k e = Some gs'"
        "gs = \<lparr>cs_start = i, cs_end = k, cs_fence = False\<rparr> # gs'"
        using less.prems(3) l True
        by (subst (asm) fencedGroups.simps) (auto simp: bind_eq_Some)
      then have "g \<in> set gs'" using less.prems(4) assms(6) by auto
      then have "spanHasFence tx k e = Some True"
        using less.hyps [OF _ _ _ gs'(1)] l less.prems(1) True by auto
      then show ?thesis
        using l True None by (subst spanHasFence.simps) (simp add: isFenceOpen_def)
    next
      case (Some m)
      then have "isFenceOpen line" by (simp add: isFenceOpen_def)
      then show ?thesis using l True by (subst spanHasFence.simps) simp
    qed
  next
    case False
    then have "gs = []" using less.prems by (subst (asm) fencedGroups.simps) simp
    then show ?thesis using less.prems by simp
  qed
qed

lemma splitFenced_keeps:
  assumes r: "0 \<le> lo" "lo < hi" "hi \<le> len tx" and clean: "clean_end tx hi"
    and gs: "fencedGroups tx lo hi = Some gs" and m: "m < length gs"
    and t: "slice tx (cs_start (gs ! m)) (cs_end (gs ! m)) = Some t" "est t \<le> maxTok"
    and run: "splitFenced oor tx lo hi maxTok overlapTok est st = Some st'"
    and st: "list_all (keeps (cs_start (gs ! m)) (cs_end (gs ! m))) (fst st)"
  shows "list_all (keeps (cs_start (gs ! m)) (cs_end (gs ! m))) (fst st')"
proof -
  have ch: "chain lo hi (cs_bounds gs)" "line_ends tx hi (cs_bounds gs)"
    using fencedGroups_chain [of lo hi tx] r gs by auto
  have bs: "regions tx (cs_bounds gs)" using chain_regions [OF ch(1) r(1,3)] .
  obtain tok where tok: "region_tokens est tx (cs_bounds gs) = Some tok"
    "length tok = length (cs_bounds gs)"
    and tk: "\<And>k t. k < length (cs_bounds gs) \<Longrightarrow>
      slice tx (fst (cs_bounds gs ! k)) (snd (cs_bounds gs ! k)) = Some t \<Longrightarrow> tok ! k = est t"
    by (rule region_tokens_returns [OF bs, of est]) blast
  have tm: "tok ! m \<le> maxTok" using tk [of m t] m t by simp
  let ?over = "\<lambda>k. if cs_fence (gs ! k)
      then splitLines oor tx (cs_start (gs ! k)) (cs_end (gs ! k)) maxTok overlapTok est
      else hardSplitProse oor tx (cs_start (gs ! k)) (cs_end (gs ! k)) maxTok overlapTok est"
  have "pack_loop ?over tx (cs_bounds gs) tok maxTok overlapTok 0 st = Some st'"
    using run gs tok by (simp add: splitFenced_def)
  from this st bs tok(2) show ?thesis
  proof (rule pack_loop_keeps)
    fix k st st' assume k: "k < length (cs_bounds gs)" and o: "?over k st = Some st'"
    show "\<exists>cs. fst st' = fst st @ cs \<and> within (fst (cs_bounds gs ! k)) (snd (cs_bounds gs ! k)) cs"
    proof (cases "cs_fence (gs ! k)")
      case True
      then show ?thesis
        using lines.split_result [OF regions_nth [OF bs k] chain_clean [OF ch(2) clean k]] o k by simp
    next
      case False
      then show ?thesis
        using prose.split_result [OF regions_nth [OF bs k] chain_clean [OF ch(2) clean k]] o k by simp
    qed
  qed (use m tm in auto)
qed

lemma hardSplit_keeps:
  assumes r: "0 \<le> lo" "lo < hi" "hi \<le> len tx" and clean: "clean_end tx hi"
    and gs: "fencedGroups tx lo hi = Some gs" and g: "g \<in> set gs" "cs_fence g"
    and t: "slice tx (cs_start g) (cs_end g) = Some t" "est t \<le> maxTok"
    and run: "hardSplit oor tx lo hi maxTok overlapTok est st = Some st'"
    and st: "list_all (keeps (cs_start g) (cs_end g)) (fst st)"
  shows "list_all (keeps (cs_start g) (cs_end g)) (fst st')"
proof -
  have "spanHasFence tx lo hi = Some True" using fence_seen [OF r(1) _ r(3) gs g] r(2) by simp
  then have "splitFenced oor tx lo hi maxTok overlapTok est st = Some st'"
    using run by (simp add: hardSplit_def)
  moreover obtain m where "m < length gs" "g = gs ! m" using g(1) by (auto simp: in_set_conv_nth)
  ultimately show ?thesis using splitFenced_keeps [OF r clean gs] t st by blast
qed

text \<open>A fenced group starts at its opening line and lies in the span.\<close>

lemma fencedGroups_in_span:
  assumes "0 \<le> lo" and "lo \<le> hi" and "hi \<le> len tx" and "fencedGroups tx lo hi = Some gs"
    and "g \<in> set gs"
  shows "lo \<le> cs_start g" "cs_start g < cs_end g" "cs_end g \<le> hi"
  using fencedGroups_chain [OF assms(1-3)] chain_bounds [of lo hi "cs_bounds gs"] assms(4,5)
  by (auto simp: list_all_iff)

end
