(* ===== verification/Chunk_Correct.thy ===== *)
theory Chunk_Correct
  imports Chunk_Code
begin

text \<open>
  The correctness of \<open>Split\<close>: what its result is for every source, configuration, token
  estimator and boundary function that returns. The lemmas up to \<open>Split_emits\<close> bring the
  contract of the packing loop to the entry point; the properties follow from it.
\<close>

subsection \<open>Validated units are ascending regions\<close>

definition split_units :: "Config \<Rightarrow> string \<Rightarrow> Unit list option" where
  "split_units cfg tx =
     do { us0 \<leftarrow> boundaries cfg tx;
          Some (if validUnits tx us0 then us0 else [\<lparr>Start = 0, End = len tx\<rparr>]) }"

definition trim_off :: "string \<Rightarrow> int" where
  "trim_off source = len source - len (TrimLeftFunc source IsSpace)"

lemma valid_from_regions:
  "valid_from tx lo us \<Longrightarrow> 0 \<le> lo \<Longrightarrow>
     regions tx (unit_bounds us) \<and> list_all (\<lambda>u. lo \<le> Start u) us
     \<and> list_all (\<lambda>u. runeAligned tx (Start u) \<and> runeAligned tx (End u)) us"
proof (induction us arbitrary: lo)
  case (Cons u us)
  then have u: "lo \<le> Start u" "Start u < End u" "End u \<le> len tx" "runeAligned tx (Start u)"
    "runeAligned tx (End u)" and v: "valid_from tx (End u) us" "0 \<le> End u"
    by (auto split: if_splits)
  from Cons.IH [OF v] show ?case
    using u Cons.prems(2) by (auto simp: regions_def list_all_iff)
qed (simp add: regions_def)

lemma split_units_ok:
  assumes "split_units cfg tx = Some us" and "tx \<noteq> []"
  shows "us \<noteq> []" and "regions tx (unit_bounds us)"
    and "list_all (\<lambda>u. runeAligned tx (Start u) \<and> runeAligned tx (End u)) us"
proof -
  have "us \<noteq> [] \<and> valid_from tx 0 us"
    using assms by (auto simp: split_units_def bind_eq_Some validUnits_def runeAligned_def
        split: if_splits)
  then show "us \<noteq> []" "regions tx (unit_bounds us)"
    "list_all (\<lambda>u. runeAligned tx (Start u) \<and> runeAligned tx (End u)) us"
    using valid_from_regions [of tx 0 us] by auto
qed

lemma runeAligned_clean: "0 < e \<Longrightarrow> runeAligned tx e \<Longrightarrow> clean_end tx e"
  by (auto simp: runeAligned_def clean_end_def rune_at_def)

subsection \<open>From the loop to the entry point\<close>

lemma shift_chunk_0 [simp]: "shift_chunk 0 = id"
  by (rule ext) (simp add: shift_chunk_def)

text \<open>What \<open>Split\<close> runs, in terms of the validated units.\<close>

abbreviation pack_units where
  "pack_units oor cfg tx us tok \<equiv>
     pack_loop (\<lambda>k. hardSplit oor tx (Start (us ! k)) (End (us ! k))
         (maxTokens cfg) (overlapTokens cfg) (estimate cfg))
       tx (unit_bounds us) tok (maxTokens cfg) (overlapTokens cfg) 0"

lemma Split_unfold:
  assumes "TrimSpace source \<noteq> []" and "split_units cfg (TrimSpace source) = Some us"
    and "region_tokens (estimate cfg) (TrimSpace source) (unit_bounds us) = Some tok"
  shows "Split oor source cfg =
    do { r \<leftarrow> pack_units oor cfg (TrimSpace source) us tok ([], 0);
         Some (map (shift_chunk (trim_off source)) (fst r)) }"
proof -
  have off: "\<not> 0 < trim_off source \<Longrightarrow> trim_off source = 0"
    using TrimSpace_slice(2) [of source] by (simp add: trim_off_def)
  obtain us0 where us0: "boundaries cfg (TrimSpace source) = Some us0"
    "us = (if validUnits (TrimSpace source) us0 then us0
           else [\<lparr>Start = 0, End = len (TrimSpace source)\<rparr>])"
    using assms(2) by (auto simp: split_units_def bind_eq_Some)
  show ?thesis
    using assms(1,3) TrimSpace_slice(1) [of source] us0 off
    by (cases "0 < trim_off source") (simp_all add: Split_def Let_def trim_off_def [symmetric])
qed

lemma Split_emits:
  assumes ne: "TrimSpace source \<noteq> []" and us: "split_units cfg (TrimSpace source) = Some us"
  obtains cs where
    "Split oor source cfg = Some (map (shift_chunk (trim_off source)) cs)" and "indexed 0 cs"
    and "emits (estimate cfg) (maxTokens cfg) (TrimSpace source) (Start (us ! 0))
      (End (us ! (length us - 1))) (region_points (unit_bounds us) 0)
      (ValidString (TrimSpace source))
      (ValidString (TrimSpace source) \<and> overlapTokens cfg \<le> 0 \<and> adjacent (unit_bounds us)) cs"
proof -
  let ?tx = "TrimSpace source" and ?est = "estimate cfg" and ?m = "maxTokens cfg"
    and ?q = "overlapTokens cfg"
  note ok = split_units_ok [OF us ne]
  obtain tok where tok: "region_tokens ?est ?tx (unit_bounds us) = Some tok"
    "length tok = length (unit_bounds us)"
    using region_tokens_returns [OF ok(2)] by blast
  let ?A = "ValidString ?tx" and ?G = "ValidString ?tx \<and> ?q \<le> 0 \<and> adjacent (unit_bounds us)"
  have i: "0 < length (unit_bounds us)" using ok(1) by simp
  have al: "list_all (\<lambda>p. runeAligned ?tx (fst p) \<and> runeAligned ?tx (snd p)) (unit_bounds us)"
    using ok(3) by (auto simp: list_all_iff)
  have "runs ?est ?m ?tx (fst (unit_bounds us ! 0))
      (snd (unit_bounds us ! (length (unit_bounds us) - 1))) (region_points (unit_bounds us) 0)
      ?A ?G (pack_units oor cfg ?tx us tok)"
  proof (rule pack_loop_runs [OF ok(2) tok(2) _ _ _ i])
    fix k assume k: "k < length (unit_bounds us)"
    have "runeAligned ?tx (Start (us ! k))" "runeAligned ?tx (End (us ! k))"
      using al k by (auto simp: list_all_length)
    then have "splits ?est ?m ?q ?tx (Start (us ! k)) (End (us ! k))
        (hardSplit oor ?tx (Start (us ! k)) (End (us ! k)) ?m ?q ?est)"
      and A: "cut_at_runes ?tx (Start (us ! k)) (End (us ! k)) = ValidString ?tx"
      using hard.split_runs [of "Start (us ! k)" "End (us ! k)" ?tx] regions_nth [OF ok(2) k] k
        runeAligned_clean [of "End (us ! k)" ?tx]
      by simp_all
    from runs_weaken [OF this(1), of "{Start (us ! k)..<End (us ! k)}" ?A ?G]
    show "runs ?est ?m ?tx (fst (unit_bounds us ! k)) (snd (unit_bounds us ! k))
        {fst (unit_bounds us ! k)..<snd (unit_bounds us ! k)} ?A ?G
        (hardSplit oor ?tx (Start (us ! k)) (End (us ! k)) ?m ?q ?est)"
      using A k by auto
  qed (use al in auto)
  then obtain cs where cs: "pack_units oor cfg ?tx us tok ([], 0) = Some ([] @ cs, 0 + len cs)"
    "indexed 0 cs" "emits ?est ?m ?tx (Start (us ! 0)) (End (us ! (length us - 1)))
      (region_points (unit_bounds us) 0) ?A ?G cs"
    using i by (auto elim!: runsE [of _ _ _ _ _ _ _ _ _ "[]" 0])
  then show ?thesis
    using Split_unfold [OF ne us tok(1)] by (intro that) simp_all
qed

text \<open>The same at the level of the source: everything moves by the trimmed prefix.\<close>

lemma chunk_ok_shift:
  assumes "chunk_ok (TrimSpace source) c"
  shows "chunk_ok source (shift_chunk (trim_off source) c)"
  using assms slice_slice [OF TrimSpace_slice(1) [of source]]
  by (simp add: chunk_ok_def shift_chunk_def trim_off_def add.commute)

lemma indexed_shift: "indexed n (map (shift_chunk off) cs) = indexed n cs"
  by (induction cs arbitrary: n) (auto simp: shift_chunk_def)

lemma covers_shift: "covers (map (shift_chunk off) cs) p \<longleftrightarrow> covers cs (p - off)"
  by (simp add: covers_def shift_chunk_def le_diff_eq diff_less_eq)

lemma Text_shift [simp]: "Text (shift_chunk off c) = Text c"
  by (simp add: shift_chunk_def)

lemma Split_cases:
  assumes "Split oor source cfg = Some out"
  obtains "out = []" "TrimSpace source = []"
  | us cs where "TrimSpace source \<noteq> []" and "split_units cfg (TrimSpace source) = Some us"
    and "out = map (shift_chunk (trim_off source)) cs" and "indexed 0 cs"
    and "emits (estimate cfg) (maxTokens cfg) (TrimSpace source) (Start (us ! 0))
      (End (us ! (length us - 1))) (region_points (unit_bounds us) 0)
      (ValidString (TrimSpace source))
      (ValidString (TrimSpace source) \<and> overlapTokens cfg \<le> 0 \<and> adjacent (unit_bounds us)) cs"
proof (cases "TrimSpace source = []")
  case True
  then show ?thesis using that(1) assms by (simp add: Split_def)
next
  case False
  have "boundaries cfg (TrimSpace source) \<noteq> None"
    using assms False TrimSpace_slice(1) [of source]
    by (auto simp: Split_def Let_def bind_eq_Some)
  then obtain us where us: "split_units cfg (TrimSpace source) = Some us"
    by (auto simp: split_units_def)
  obtain cs where cs: "Split oor source cfg = Some (map (shift_chunk (trim_off source)) cs)"
    and *: "indexed 0 cs"
    "emits (estimate cfg) (maxTokens cfg) (TrimSpace source) (Start (us ! 0))
      (End (us ! (length us - 1))) (region_points (unit_bounds us) 0)
      (ValidString (TrimSpace source))
      (ValidString (TrimSpace source) \<and> overlapTokens cfg \<le> 0 \<and> adjacent (unit_bounds us)) cs"
    using Split_emits [OF False us, of oor] .
  from cs assms have "out = map (shift_chunk (trim_off source)) cs" by simp
  from that(2) [OF False us this *] show ?thesis .
qed

subsection \<open>The properties\<close>

text \<open>
  C1: \<open>Split\<close> returns, without a panic and without an endless loop, for every source,
  every budget, every token estimator (including ones that count nothing, or count wildly)
  and every boundary function that itself returns on the trimmed text.
\<close>

theorem Split_returns:
  assumes "boundaries cfg (TrimSpace source) \<noteq> None"
  shows "\<exists>out. Split oor source cfg = Some out"
proof (cases "TrimSpace source = []")
  case False
  obtain us where "split_units cfg (TrimSpace source) = Some us"
    using assms by (auto simp: split_units_def)
  then show ?thesis using Split_emits [OF False, of cfg us oor] by blast
qed (simp add: Split_def)

text \<open>
  C3: every chunk of a result is a non-empty slice of the original source: its text is
  \<open>source[StartByte:EndByte]\<close>, whatever units and estimates the caller supplied.
\<close>

theorem Split_slices:
  assumes "Split oor source cfg = Some out" and "c \<in> set out"
  shows "StartByte c < EndByte c \<and> slice source (StartByte c) (EndByte c) = Some (Text c)"
  using assms(1)
proof (cases rule: Split_cases)
  case (2 us cs)
  then have "list_all (chunk_ok source) out"
    using chunk_ok_shift by (auto simp: emits_def list_all_iff)
  then show ?thesis using assms(2) by (auto simp: list_all_iff chunk_ok_def)
qed (use assms(2) in simp)


lemma Split_covers:
  assumes "Split oor source cfg = Some out" and "split_units cfg (TrimSpace source) = Some us"
    and "u \<in> set us" and "Start u \<le> p" and "p < End u" and "rune_at (TrimSpace source) p"
  shows "covers out (trim_off source + p)"
  using assms(1)
proof (cases rule: Split_cases)
  case 1
  then show ?thesis using assms(6) by (simp add: rune_at_def byte_at_def split: if_splits)
next
  case (2 us' cs)
  then have "us' = us" using assms(2) by simp
  moreover obtain k where "k < length us" "u = us ! k" using assms(3) by (auto simp: in_set_conv_nth)
  ultimately have "p \<in> region_points (unit_bounds us') 0"
    using assms(4,5) by (force simp: region_points_def)
  then have "covers cs p" using 2(5) assms(6) by (simp add: emits_def)
  then show ?thesis using 2(3) by (simp add: covers_shift)
qed

text \<open>
  C4: nothing is lost. Every rune that starts inside a unit of the boundary function (or
  anywhere in the trimmed text, when its units are not usable) lies in some chunk.
\<close>

theorem Split_covers_units:
  assumes "Split oor source cfg = Some out" and "split_units cfg (TrimSpace source) = Some us"
    and "u \<in> set us" and "Start u \<le> p" and "p < End u" and "rune_at (TrimSpace source) p"
  shows "\<exists>c \<in> set out. StartByte c \<le> trim_off source + p \<and> trim_off source + p < EndByte c"
  using Split_covers [OF assms] by (simp add: covers_def)


text \<open>C12: a valid UTF-8 source is cut into chunks of valid UTF-8: no cut falls inside a rune.\<close>

theorem Split_utf8:
  assumes "ValidString source" and "Split oor source cfg = Some out" and "c \<in> set out"
  shows "ValidString (Text c)"
  using assms(2)
proof (cases rule: Split_cases)
  case (2 us cs)
  obtain d where d: "d \<in> set cs" "Text c = Text d" using 2(3) assms(3) by auto
  have v: "ValidString (TrimSpace source)" using assms(1) TrimSpace_slice(4) by blast
  then have "runeAligned (TrimSpace source) (StartByte d)" "runeAligned (TrimSpace source) (EndByte d)"
    "slice (TrimSpace source) (StartByte d) (EndByte d) = Some (Text d)"
    using 2(5) d by (auto simp: emits_def cut_aligned_def chunk_ok_def list_all_iff)
  then show ?thesis
    using ValidString_slice [OF v] runeAligned_aligned d(2) by metis
qed (use assms(3) in simp)

lemma rebuild:
  assumes v: "ValidString source" and no: "NoOverlap cfg" and sp: "Split oor source cfg = Some out"
    and t: "\<And>us. TrimSpace source \<noteq> [] \<Longrightarrow> boundaries cfg (TrimSpace source) = Some us \<Longrightarrow>
      validUnits (TrimSpace source) us \<and> tiles 0 (len (TrimSpace source)) us"
  shows "concat (map Text out) = TrimSpace source"
  using sp
proof (cases rule: Split_cases)
  case (2 us cs)
  let ?tx = "TrimSpace source"
  have v': "ValidString ?tx" using v TrimSpace_slice(4) by blast
  have ch: "chain 0 (len ?tx) (unit_bounds us)"
    using 2(1,2) t by (auto simp: split_units_def bind_eq_Some tiles_chain)
  have e: "fst (unit_bounds us ! 0) = 0" "snd (unit_bounds us ! (length (unit_bounds us) - 1)) = len ?tx"
    "unit_bounds us \<noteq> []"
    using chain_ends [OF ch] 2(1) by simp_all
  have "contiguous 0 (len ?tx) cs"
    using 2(5) v' no chain_adjacent [OF ch] e by (simp add: emits_def overlapTokens_def)
  moreover have "list_all (chunk_ok ?tx) cs" using 2(5) by (simp add: emits_def)
  ultimately have "slice ?tx 0 (len ?tx) = Some (concat (map Text cs))"
    using contiguous_concat [of ?tx cs 0 "len ?tx"] by simp
  moreover have "map Text out = map Text cs" using 2(3) by simp
  ultimately show ?thesis by simp
qed simp

text \<open>
  C2: with \<open>NoOverlap\<close>, on a valid source, the chunks that \<open>Paragraphs\<close> or
  \<open>Headings\<close> lead to are exactly the trimmed source, cut up: their concatenation is it.
\<close>

theorem Split_rebuilds:
  assumes "ValidString source" and "NoOverlap cfg"
    and "cfg_Boundaries cfg = None \<or> cfg_Boundaries cfg = Some Headings"
    and "Split oor source cfg = Some out"
  shows "concat (map Text out) = TrimSpace source"
  using assms(1,2,4)
proof (rule rebuild)
  fix us assume ne: "TrimSpace source \<noteq> []" and us: "boundaries cfg (TrimSpace source) = Some us"
  have v: "ValidString (TrimSpace source)" using assms(1) TrimSpace_slice(4) by blast
  show "validUnits (TrimSpace source) us \<and> tiles 0 (len (TrimSpace source)) us"
    using assms(3) us paragraphs.seg_valid [OF v ne] paragraphs.seg_tiles [OF v ne]
      headings.seg_valid [OF v ne] headings.seg_tiles [OF v ne]
    by (auto simp: boundaries_def)
qed

lemma keeps_shift:
  "list_all (keeps a b) cs \<Longrightarrow> list_all (keeps (off + a) (off + b)) (map (shift_chunk off) cs)"
  by (auto simp: list_all_iff keeps_def shift_chunk_def)

lemma Split_keeps:
  assumes sp: "Split oor source cfg = Some out" and us: "split_units cfg (TrimSpace source) = Some us"
    and m: "m < length us" "Start (us ! m) \<le> a" "b \<le> End (us ! m)"
    and mine: "\<And>st st' t. slice (TrimSpace source) (Start (us ! m)) (End (us ! m)) = Some t \<Longrightarrow>
      maxTokens cfg < estimate cfg t \<Longrightarrow>
      hardSplit oor (TrimSpace source) (Start (us ! m)) (End (us ! m)) (maxTokens cfg)
        (overlapTokens cfg) (estimate cfg) st = Some st' \<Longrightarrow>
      list_all (keeps a b) (fst st) \<Longrightarrow> list_all (keeps a b) (fst st')"
  shows "list_all (keeps (trim_off source + a) (trim_off source + b)) out"
proof (cases "TrimSpace source = []")
  case True
  then show ?thesis using sp by (simp add: Split_def)
next
  case ne: False
  let ?tx = "TrimSpace source"
  note ok = split_units_ok [OF us ne]
  obtain tok where tok: "region_tokens (estimate cfg) ?tx (unit_bounds us) = Some tok"
    "length tok = length (unit_bounds us)"
    and tk: "\<And>k t. k < length (unit_bounds us) \<Longrightarrow>
      slice ?tx (fst (unit_bounds us ! k)) (snd (unit_bounds us ! k)) = Some t \<Longrightarrow>
      tok ! k = estimate cfg t"
    by (rule region_tokens_returns [OF ok(2), of "estimate cfg"]) blast
  have "do { r \<leftarrow> pack_units oor cfg ?tx us tok ([], 0);
             Some (map (shift_chunk (trim_off source)) (fst r)) } = Some out"
    using Split_unfold [OF ne us tok(1), of oor] sp by simp
  then obtain r where r: "pack_units oor cfg ?tx us tok ([], 0) = Some r"
    and out: "out = map (shift_chunk (trim_off source)) (fst r)"
    by (auto simp: bind_eq_Some)
  have "list_all (keeps a b) (fst r)"
  proof (rule pack_loop_keeps [OF r _ ok(2) tok(2)])
    fix st st' assume big: "maxTokens cfg < tok ! m"
      and run: "hardSplit oor ?tx (Start (us ! m)) (End (us ! m)) (maxTokens cfg)
        (overlapTokens cfg) (estimate cfg) st = Some st'" and kept: "list_all (keeps a b) (fst st)"
    have ml: "m < length (unit_bounds us)" using m(1) by simp
    obtain t where t: "slice ?tx (Start (us ! m)) (End (us ! m)) = Some t"
      using regions_slice [OF ok(2) order_refl ml] m(1) by auto
    then show "list_all (keeps a b) (fst st')"
      using mine [OF t _ run kept] tk [OF ml, of t] big m(1) by simp
  next
    fix k st st' assume k: "k < length (unit_bounds us)"
      and run: "hardSplit oor ?tx (Start (us ! k)) (End (us ! k)) (maxTokens cfg)
        (overlapTokens cfg) (estimate cfg) st = Some st'"
    have "runeAligned ?tx (End (us ! k))" using ok(3) k by (simp add: list_all_length)
    then show "\<exists>cs. fst st' = fst st @ cs
        \<and> within (fst (unit_bounds us ! k)) (snd (unit_bounds us ! k)) cs"
      using hard.split_result [OF _ _ _ _ run] regions_nth [OF ok(2) k] k
        runeAligned_clean [of "End (us ! k)" ?tx]
      by simp
  qed (use m in auto)
  then show ?thesis unfolding out by (rule keeps_shift)
qed

text \<open>
  C6: a unit that fits the budget on its own is never cut: each chunk contains it whole or
  misses it.
\<close>

theorem Split_unit_whole:
  assumes "Split oor source cfg = Some out" and "split_units cfg (TrimSpace source) = Some us"
    and "u \<in> set us" and "slice (TrimSpace source) (Start u) (End u) = Some t"
    and "estimate cfg t \<le> maxTokens cfg" and "c \<in> set out"
  shows "keeps (trim_off source + Start u) (trim_off source + End u) c"
proof -
  obtain m where m: "m < length us" "u = us ! m" using assms(3) by (auto simp: in_set_conv_nth)
  have "list_all (keeps (trim_off source + Start u) (trim_off source + End u)) out"
    by (rule Split_keeps [OF assms(1,2) m(1)]) (use m assms(4,5) in auto)
  then show ?thesis using assms(6) by (simp add: list_all_iff)
qed


text \<open>
  With the built-in segmenters nothing of a valid source is lost: every position of the
  trimmed text lies in some chunk, with any overlap.
\<close>

theorem Split_covers_all:
  assumes "ValidString source"
    and "cfg_Boundaries cfg = None \<or> cfg_Boundaries cfg = Some Headings"
    and "Split oor source cfg = Some out" and "0 \<le> p" and "p < len (TrimSpace source)"
    and "rune_at (TrimSpace source) p"
  shows "\<exists>c \<in> set out. StartByte c \<le> trim_off source + p \<and> trim_off source + p < EndByte c"
proof -
  let ?tx = "TrimSpace source"
  have v: "ValidString ?tx" using assms(1) TrimSpace_slice(4) by blast
  have ne: "?tx \<noteq> []" using assms(4,5) by auto
  have "\<exists>us. boundaries cfg ?tx = Some us \<and> validUnits ?tx us
      \<and> (\<exists>u \<in> set us. Start u \<le> p \<and> p < End u)"
  proof (cases "cfg_Boundaries cfg")
    case None
    then show ?thesis
      using paragraphs.seg_valid [OF v ne] paragraphs.seg_covers [OF v _ assms(4,5)]
      by (auto simp: boundaries_def)
  next
    case (Some f)
    then have "boundaries cfg = Headings" using assms(2) by (simp add: boundaries_def)
    then show ?thesis
      using headings.seg_total [of ?tx] headings.seg_valid [OF v ne]
        headings.seg_covers [OF v _ assms(4,5)]
      by auto
  qed
  then obtain us u where us: "split_units cfg ?tx = Some us"
    and u: "u \<in> set us" "Start u \<le> p" "p < End u"
    by (auto simp: split_units_def)
  from Split_covers [OF assms(3) us u assms(6)] show ?thesis by (simp add: covers_def)
qed

end
