(* ===== verification/Chunk_Examples.thy ===== *)
theory Chunk_Examples
  imports Chunk_Correct
begin

text \<open>
  The properties of \<open>Split\<close> at work on concrete sources: two paragraphs of which the first is
  oversize, and an oversize unit with a fenced code block. The model is evaluated in the
  kernel. The out-of-range float conversion is never reached here, so any function stands
  for it.
\<close>

definition demo_src :: string where
  "demo_src = '' one two three.'' @ [LF, LF] @ ''four five ''"

definition demo_cfg :: Config where
  "demo_cfg = \<lparr>MaxTokens = 3, OverlapTokens = 1, NoOverlap = False, cfg_Estimate = None,
               cfg_Boundaries = None\<rparr>"

lemma demo_split: "Split (\<lambda>_. 0) demo_src demo_cfg = Some
  [\<lparr>Text = ''one two thre'', Index = 0, StartByte = 1, EndByte = 13, TokenCount = 3\<rparr>,
   \<lparr>Text = ''three.'' @ [LF, LF], Index = 1, StartByte = 9, EndByte = 17, TokenCount = 2\<rparr>,
   \<lparr>Text = ''four five'', Index = 2, StartByte = 17, EndByte = 26, TokenCount = 3\<rparr>]"
  by (simp add: go_eval demo_src_def demo_cfg_def cong: eval_congs)

lemma demo_units: "split_units demo_cfg (TrimSpace demo_src) =
  Some [\<lparr>Start = 0, End = 16\<rparr>, \<lparr>Start = 16, End = 25\<rparr>]"
  by (simp add: go_eval demo_src_def demo_cfg_def split_units_def cong: eval_congs)

lemma demo_trim:
  "TrimSpace demo_src = ''one two three.'' @ [LF, LF] @ ''four five''" "trim_off demo_src = 1"
  "ValidString demo_src"
  by (simp_all add: go_eval demo_src_def trim_off_def cong: eval_congs)

theorem Split_returns_witness: "\<exists>out. Split (\<lambda>_. 0) demo_src demo_cfg = Some out"
  by (rule Split_returns) (simp add: boundaries_def demo_cfg_def)

theorem Split_slices_witness:
  "(9::int) < 17 \<and> slice demo_src 9 17 = Some (''three.'' @ [LF, LF])"
  using Split_slices [OF demo_split, of "\<lparr>Text = ''three.'' @ [LF, LF], Index = 1, StartByte = 9,
    EndByte = 17, TokenCount = 2\<rparr>"] by simp


theorem Split_covers_units_witness:
  "\<exists>out. Split (\<lambda>_. 0) demo_src demo_cfg = Some out \<and>
     (\<exists>c \<in> set out. StartByte c \<le> 1 + 20 \<and> 1 + 20 < EndByte c)"
proof -
  have "rune_at (TrimSpace demo_src) 20"
    by (simp add: demo_trim rune_at_def byte_at_def RuneStart_def)
  then show ?thesis
    using Split_covers_units [OF demo_split demo_units, of "\<lparr>Start = 16, End = 25\<rparr>" 20] demo_split
    by (simp add: demo_trim)
qed


theorem Split_utf8_witness: "ValidString (''three.'' @ [LF, LF])"
  using Split_utf8 [OF demo_trim(3) demo_split, of "\<lparr>Text = ''three.'' @ [LF, LF], Index = 1,
    StartByte = 9, EndByte = 17, TokenCount = 2\<rparr>"] by simp

theorem Split_unit_whole_witness:
  "keeps (1 + 16) (1 + 25)
     \<lparr>Text = ''three.'' @ [LF, LF], Index = 1, StartByte = 9, EndByte = 17, TokenCount = 2\<rparr>"
proof -
  have s: "slice (TrimSpace demo_src) 16 25 = Some ''four five''"
    by (simp add: demo_trim slice_def)
  have e: "estimate demo_cfg ''four five'' \<le> maxTokens demo_cfg"
    by (simp add: go_eval demo_cfg_def cong: eval_congs)
  show ?thesis
    using Split_unit_whole [OF demo_split demo_units, of "\<lparr>Start = 16, End = 25\<rparr>" "''four five''"] s e
    by (simp add: demo_trim)
qed

theorem Split_covers_all_witness:
  "\<exists>out. Split (\<lambda>_. 0) demo_src demo_cfg = Some out \<and>
     (\<exists>c \<in> set out. StartByte c \<le> 1 + 20 \<and> 1 + 20 < EndByte c)"
proof -
  have "rune_at (TrimSpace demo_src) 20"
    by (simp add: demo_trim rune_at_def byte_at_def RuneStart_def)
  then show ?thesis
    using Split_covers_all [OF demo_trim(3) _ demo_split, of 20] demo_split
    by (simp add: demo_trim demo_cfg_def)
qed

subsection \<open>No overlap\<close>

definition demo_cfg_plain :: Config where
  "demo_cfg_plain = demo_cfg\<lparr>NoOverlap := True, cfg_Boundaries := Some Headings\<rparr>"

lemma demo_split_plain: "Split (\<lambda>_. 0) demo_src demo_cfg_plain = Some
  [\<lparr>Text = ''one two thre'', Index = 0, StartByte = 1, EndByte = 13, TokenCount = 3\<rparr>,
   \<lparr>Text = ''e.'' @ [LF, LF], Index = 1, StartByte = 13, EndByte = 17, TokenCount = 1\<rparr>,
   \<lparr>Text = ''four five'', Index = 2, StartByte = 17, EndByte = 26, TokenCount = 3\<rparr>]"
  by (simp add: go_eval demo_src_def demo_cfg_def demo_cfg_plain_def cong: eval_congs)

theorem Split_rebuilds_witness:
  "''one two thre'' @ (''e.'' @ [LF, LF]) @ ''four five'' = TrimSpace demo_src"
  using Split_rebuilds [OF demo_trim(3) _ _ demo_split_plain]
  by (simp add: demo_cfg_plain_def)

subsection \<open>A fenced block in an oversize unit\<close>

definition demo_code :: string where
  "demo_code = ''aaaa bbbb cccc dddd'' @ [LF] @ ''```'' @ [LF] @ ''x=1'' @ [LF] @ ''```'' @ [LF]
     @ ''tail''"

lemma demo_code_split: "Split (\<lambda>_. 0) demo_code demo_cfg = Some
  [\<lparr>Text = ''aaaa bbbb'', Index = 0, StartByte = 0, EndByte = 9, TokenCount = 3\<rparr>,
   \<lparr>Text = ''bbbb cccc'', Index = 1, StartByte = 5, EndByte = 14, TokenCount = 3\<rparr>,
   \<lparr>Text = ''cccc dddd'' @ [LF], Index = 2, StartByte = 10, EndByte = 20, TokenCount = 3\<rparr>,
   \<lparr>Text = ''```'' @ [LF] @ ''x=1'' @ [LF] @ ''```'' @ [LF], Index = 3, StartByte = 20,
    EndByte = 32, TokenCount = 3\<rparr>,
   \<lparr>Text = ''tail'', Index = 4, StartByte = 32, EndByte = 36, TokenCount = 1\<rparr>]"
  by (simp add: go_eval demo_code_def demo_cfg_def cong: eval_congs)

lemma demo_code_units:
  "split_units demo_cfg (TrimSpace demo_code) = Some [\<lparr>Start = 0, End = 36\<rparr>]"
  "TrimSpace demo_code = demo_code" "trim_off demo_code = 0"
  by (simp_all add: go_eval demo_code_def demo_cfg_def split_units_def trim_off_def cong: eval_congs)

lemma demo_code_groups: "fencedGroups demo_code 0 36 = Some
  [\<lparr>cs_start = 0, cs_end = 20, cs_fence = False\<rparr>,
   \<lparr>cs_start = 20, cs_end = 32, cs_fence = True\<rparr>,
   \<lparr>cs_start = 32, cs_end = 36, cs_fence = False\<rparr>]"
  by (simp add: go_eval demo_code_def cong: eval_congs)


end
