(* ===== verification/Chunk_Greedy.thy ===== *)
theory Chunk_Greedy
  imports Chunk_Examples
begin

text \<open>
  How \<open>Split\<close> of \<^verbatim>\<open>chunk/chunk.go\<close> packs units into chunks: a plan says which units each
  chunk takes, each chunk takes as many as fit, and the next one repeats as many of them as fit
  the overlap.
\<close>

text \<open>A chunk of the units \<open>a, \<dots>, b\<close>, or the pieces of one unit that exceeds the budget.\<close>

datatype pack_step = Packed nat nat | Cut nat

text \<open>
  After a chunk of the units \<open>i, \<dots>, j\<close>, the next one begins at unit \<open>i'\<close>: what it repeats fits
  the overlap budget, and with one unit more it would not (or would be the same chunk again).
\<close>

definition next_unit :: "int list \<Rightarrow> int \<Rightarrow> nat \<Rightarrow> nat \<Rightarrow> nat \<Rightarrow> bool" where
  "next_unit tok ov i j i' \<longleftrightarrow> i < i' \<and> i' \<le> j + 1
     \<and> (i' = j + 1 \<or> (0 < ov \<and> back_sum tok j (j + 1 - i') \<le> ov))
     \<and> (i' = i + 1 \<or> ov \<le> 0 \<or> ov < back_sum tok j (j + 2 - i'))"

fun follows :: "int list \<Rightarrow> int \<Rightarrow> int \<Rightarrow> nat \<Rightarrow> pack_step list \<Rightarrow> bool" where
  "follows tok m ov i [] \<longleftrightarrow> i = length tok"
| "follows tok m ov i (Cut k # ss) \<longleftrightarrow>
     k = i \<and> i < length tok \<and> m < tok ! i \<and> follows tok m ov (i + 1) ss"
| "follows tok m ov i (Packed a b # ss) \<longleftrightarrow>
     a = i \<and> i \<le> b \<and> b < length tok \<and> tok ! i \<le> m \<and> tok_sum tok i b \<le> m
     \<and> (if b + 1 = length tok then ss = []
        else m < add64 (tok_sum tok i b) (tok ! (b + 1))
          \<and> (\<exists>i' \<le> b + 1. next_unit tok ov i b i' \<and> follows tok m ov i' ss))"

definition step_chunks ::
  "(nat \<Rightarrow> Chunk list \<Rightarrow> bool) \<Rightarrow> (int \<times> int) list \<Rightarrow> int list \<Rightarrow> pack_step \<Rightarrow> Chunk list \<Rightarrow> bool" where
  "step_chunks Q bs tok s cs \<longleftrightarrow>
     (case s of
        Cut k \<Rightarrow> Q k cs
      | Packed a b \<Rightarrow> length cs = 1 \<and> StartByte (hd cs) = fst (bs ! a) \<and> EndByte (hd cs) = snd (bs ! b)
          \<and> TokenCount (hd cs) = tok_sum tok a b)"

lemma overlapStart_next:
  assumes "i \<le> j" and "j < length tok"
  obtains i' where "overlapStart tok i j ov = Some i'" and "next_unit tok ov i j i'"
proof -
  obtain i' where o: "overlapStart tok i j ov = Some i'" and i': "i < i'" "i' \<le> j + 1"
    "i' \<le> j \<Longrightarrow> 0 < ov \<and> back_sum tok j (j + 1 - i') \<le> ov"
    "0 < ov \<Longrightarrow> i + 1 < i' \<Longrightarrow> ov < back_sum tok j (j + 2 - i')"
    by (rule overlapStart_spec [OF assms, of ov]) blast
  have "i' = j + 1 \<or> i' \<le> j" "i' = i + 1 \<or> i + 1 < i'" "ov \<le> 0 \<or> 0 < ov" using i'(1,2) by auto
  then have "next_unit tok ov i j i'" unfolding next_unit_def using i' by blast
  with o show ?thesis by (rule that)
qed

lemma pack_loop_plan:
  assumes bs: "regions tx bs" and tok: "length tok = length bs"
    and over: "\<And>k chunks idx. k < length bs \<Longrightarrow> m < tok ! k \<Longrightarrow>
      \<exists>cs. oversize k (chunks, idx) = Some (chunks @ cs, idx + len cs) \<and> Q k cs"
    and i: "i \<le> length bs"
  shows "\<exists>ss css. pack_loop oversize tx bs tok m ov i (chunks, idx) =
      Some (chunks @ concat css, idx + len (concat css))
    \<and> follows tok m ov i ss \<and> list_all2 (step_chunks Q bs tok) ss css"
  using i
proof (induction "length bs - i" arbitrary: i chunks idx rule: less_induct)
  case less
  show ?case
  proof (cases "i < length bs")
    case False
    then show ?thesis
      using less.prems tok pack_loop_done [of bs i]
      by (intro exI [of _ "[]"]) simp
  next
    case i: True
    show ?thesis
    proof (cases "m < tok ! i")
      case True
      obtain cs where cs: "oversize i (chunks, idx) = Some (chunks @ cs, idx + len cs)" "Q i cs"
        using over [OF i True] by blast
      have dec: "length bs - (i + 1) < length bs - i" "i + 1 \<le> length bs" using i by simp_all
      obtain ss css where ih: "pack_loop oversize tx bs tok m ov (i + 1) (chunks @ cs, idx + len cs) =
          Some ((chunks @ cs) @ concat css, idx + len cs + len (concat css))"
        "follows tok m ov (i + 1) ss" "list_all2 (step_chunks Q bs tok) ss css"
        using less.hyps [OF dec, of "chunks @ cs" "idx + len cs"] by blast
      have "pack_loop oversize tx bs tok m ov i (chunks, idx) =
          pack_loop oversize tx bs tok m ov (i + 1) (chunks @ cs, idx + len cs)"
        using i True tok cs(1) by (subst pack_loop.simps) (simp add: idx_at_def)
      then show ?thesis
        using ih cs(2) i True tok
        by (intro exI [of _ "Cut i # ss"] exI [of _ "cs # css"]) (simp add: step_chunks_def)
    next
      case False
      then obtain j where j: "growChunk tok i m = Some (j, tok_sum tok i j)" "i \<le> j" "j < length tok"
        "tok_sum tok i j \<le> m" "j + 1 < length tok \<Longrightarrow> m < add64 (tok_sum tok i j) (tok ! (j + 1))"
        using growChunk_spec [of i tok m] i tok by (metis linorder_not_less)
      obtain t where t: "slice tx (fst (bs ! i)) (snd (bs ! j)) = Some t"
        using regions_slice [OF bs j(2)] j(3) tok by metis
      let ?c = "one_chunk t (fst (bs ! i)) (snd (bs ! j)) (tok_sum tok i j) idx"
      have c: "step_chunks Q bs tok (Packed i j) [?c]" by (simp add: step_chunks_def one_chunk_def)
      show ?thesis
      proof (cases "j + 1 = length tok")
        case True
        have "pack_loop oversize tx bs tok m ov i (chunks, idx) = Some (chunks @ [?c], idx + 1)"
          using i False tok j t True
          by (subst pack_loop.simps) (auto simp add: idx_at_def appendChunk_slice)
        then show ?thesis
          using j False True c by (intro exI [of _ "[Packed i j]"] exI [of _ "[[?c]]"]) simp
      next
        case more: False
        obtain i' where i': "overlapStart tok i j ov = Some i'" "next_unit tok ov i j i'"
          using overlapStart_next [OF j(2,3)] by blast
        have le: "i < i'" "i' \<le> j + 1" using i'(2) by (simp_all add: next_unit_def)
        then have dec: "length bs - i' < length bs - i" "i' \<le> length bs" using i j(3) tok by auto
        obtain ss css where ih: "pack_loop oversize tx bs tok m ov i' (chunks @ [?c], idx + 1) =
            Some ((chunks @ [?c]) @ concat css, idx + 1 + len (concat css))"
          "follows tok m ov i' ss" "list_all2 (step_chunks Q bs tok) ss css"
          using less.hyps [OF dec, of "chunks @ [?c]" "idx + 1"] by blast
        have "pack_loop oversize tx bs tok m ov i (chunks, idx) =
            pack_loop oversize tx bs tok m ov i' (chunks @ [?c], idx + 1)"
          using i False tok j t more i'(1)
          by (subst pack_loop.simps) (auto simp add: idx_at_def appendChunk_slice)
        moreover have "follows tok m ov i (Packed i j # ss)"
          using j False more i'(2) ih(2) le by auto
        moreover have "list_all2 (step_chunks Q bs tok) (Packed i j # ss) ([?c] # css)"
          using c ih(3) by simp
        moreover have "Some ((chunks @ [?c]) @ concat css, idx + 1 + len (concat css)) =
            Some (chunks @ concat ([?c] # css), idx + len (concat ([?c] # css)))"
          by simp
        ultimately show ?thesis using ih(1) by metis
      qed
    qed
  qed
qed

text \<open>At the entry point: the units in force, their token counts, and the plan.\<close>

definition unit_tokens :: "Config \<Rightarrow> string \<Rightarrow> Unit list \<Rightarrow> int list" where
  "unit_tokens cfg tx us =
     map (\<lambda>u. estimate cfg (take (nat (End u - Start u)) (drop (nat (Start u)) tx))) us"

lemma region_tokens_units:
  "regions tx (unit_bounds us) \<Longrightarrow>
     region_tokens (estimate cfg) tx (unit_bounds us) = Some (unit_tokens cfg tx us)"
  by (induction us) (auto simp: unit_tokens_def regions_def slice_def)

definition planned :: "int \<Rightarrow> Unit list \<Rightarrow> int list \<Rightarrow> pack_step \<Rightarrow> Chunk list \<Rightarrow> bool" where
  "planned off us tok s cs \<longleftrightarrow>
     (case s of
        Cut k \<Rightarrow> \<forall>c \<in> set cs. off + Start (us ! k) \<le> StartByte c \<and> EndByte c \<le> off + End (us ! k)
      | Packed a b \<Rightarrow> length cs = 1 \<and> StartByte (hd cs) = off + Start (us ! a)
          \<and> EndByte (hd cs) = off + End (us ! b) \<and> TokenCount (hd cs) = tok_sum tok a b)"

lemma split_plan:
  assumes ne: "TrimSpace source \<noteq> []" and us: "split_units cfg (TrimSpace source) = Some us"
    and split: "Split oor source cfg = Some out"
  shows "\<exists>plan css. out = concat css
    \<and> follows (unit_tokens cfg (TrimSpace source) us) (maxTokens cfg) (overlapTokens cfg) 0 plan
    \<and> list_all2 (planned (trim_off source) us (unit_tokens cfg (TrimSpace source) us)) plan css"
proof -
  let ?tx = "TrimSpace source" and ?off = "trim_off source" and ?bs = "unit_bounds us"
  let ?tok = "unit_tokens cfg ?tx us"
  let ?Q = "\<lambda>k. within (Start (us ! k)) (End (us ! k))"
  note ok = split_units_ok [OF us ne]
  have tok: "region_tokens (estimate cfg) ?tx ?bs = Some ?tok" by (rule region_tokens_units [OF ok(2)])
  have over: "\<exists>cs. hardSplit oor ?tx (Start (us ! k)) (End (us ! k)) (maxTokens cfg)
        (overlapTokens cfg) (estimate cfg) (chunks, idx) = Some (chunks @ cs, idx + len cs) \<and> ?Q k cs"
    if "k < length ?bs" for k chunks idx
  proof -
    have "runeAligned ?tx (End (us ! k))" using ok(3) that by (simp add: list_all_length)
    then have "splits (estimate cfg) (maxTokens cfg) (overlapTokens cfg) ?tx (Start (us ! k)) (End (us ! k))
        (hardSplit oor ?tx (Start (us ! k)) (End (us ! k)) (maxTokens cfg) (overlapTokens cfg) (estimate cfg))"
      using hard.split_runs [of "Start (us ! k)" "End (us ! k)" ?tx] regions_nth [OF ok(2) that] that
        runeAligned_clean [of "End (us ! k)" ?tx]
      by simp
    then show ?thesis by (elim runsE [of _ _ _ _ _ _ _ _ _ chunks idx]) (auto simp: emits_def)
  qed
  have len: "length ?tok = length ?bs" and le0: "0 \<le> length ?bs" by (simp_all add: unit_tokens_def)
  have "\<exists>plan css. pack_units oor cfg ?tx us ?tok ([], 0) = Some ([] @ concat css, 0 + len (concat css))
    \<and> follows ?tok (maxTokens cfg) (overlapTokens cfg) 0 plan
    \<and> list_all2 (step_chunks ?Q ?bs ?tok) plan css"
    by (rule pack_loop_plan [OF ok(2) len _ le0]) (rule over)
  then obtain plan css where p:
    "pack_units oor cfg ?tx us ?tok ([], 0) = Some ([] @ concat css, 0 + len (concat css))"
    "follows ?tok (maxTokens cfg) (overlapTokens cfg) 0 plan"
    "list_all2 (step_chunks ?Q ?bs ?tok) plan css"
    by blast
  have "out = concat (map (map (shift_chunk ?off)) css)"
    using split Split_unfold [OF ne us tok] p(1) by (simp add: map_concat)
  moreover have sc: "planned ?off us ?tok s (map (shift_chunk ?off) cs)"
    if "step_chunks ?Q ?bs ?tok s cs" and b: "\<And>a b. s = Packed a b \<Longrightarrow> a < length us \<and> b < length us" for s cs
    using that b by (cases s; cases cs)
      (auto simp: planned_def step_chunks_def shift_chunk_def within_def list_all_iff)
  moreover have idx: "\<forall>a b. Packed a b \<in> set plan \<longrightarrow> a < length us \<and> b < length us"
  proof -
    have "\<forall>a b. Packed a b \<in> set ss \<longrightarrow> a \<le> b \<and> b < length tok" if "follows tok m ov i ss" for tok m ov i ss
      using that by (induction tok m ov i ss rule: follows.induct) (auto split: if_splits)
    from this [OF p(2)] show ?thesis by (fastforce simp: unit_tokens_def)
  qed
  moreover have "list_all2 (planned ?off us ?tok) plan (map (map (shift_chunk ?off)) css)"
    unfolding list_all2_map2
    by (rule list.rel_mono_strong [OF p(3)]) (use sc idx in blast)
  ultimately show ?thesis using p(2) by blast
qed

text \<open>
  C7: \<open>Split\<close> packs greedily. Its chunks follow a plan over the units in force: a unit beyond the
  budget is cut into pieces of its own; any other chunk takes consecutive units, from the first to
  the last byte, carries the sum of their token counts, stays within the budget and could not take
  the next unit; and the chunk after it starts at the earliest unit behind its start whose repeated
  units fit the overlap budget (the next new one without overlap). Sums are 64-bit.
\<close>

theorem Split_greedy:
  assumes "TrimSpace source \<noteq> []" and "split_units cfg (TrimSpace source) = Some us"
    and "Split oor source cfg = Some out"
  shows "\<exists>plan css. out = concat css
    \<and> follows (unit_tokens cfg (TrimSpace source) us) (maxTokens cfg) (overlapTokens cfg) 0 plan
    \<and> list_all2 (planned (trim_off source) us (unit_tokens cfg (TrimSpace source) us)) plan css"
  by (rule split_plan [OF assms])

text \<open>Three units of one token each, a budget of two and an overlap of one.\<close>

definition demo_three :: string where
  "demo_three = ''aa'' @ [LF, LF] @ ''bb'' @ [LF, LF] @ ''cc''"

definition demo_pairs :: Config where
  "demo_pairs = \<lparr>MaxTokens = 2, OverlapTokens = 1, NoOverlap = False, cfg_Estimate = Some (\<lambda>_. 1),
     cfg_Boundaries = None\<rparr>"

definition demo_three_units :: "Unit list" where
  "demo_three_units = [\<lparr>Start = 0, End = 4\<rparr>, \<lparr>Start = 4, End = 8\<rparr>, \<lparr>Start = 8, End = 10\<rparr>]"

definition demo_pair_chunks :: "Chunk list" where
  "demo_pair_chunks =
     [\<lparr>Text = ''aa'' @ [LF, LF] @ ''bb'' @ [LF, LF], Index = 0, StartByte = 0, EndByte = 8, TokenCount = 2\<rparr>,
      \<lparr>Text = ''bb'' @ [LF, LF] @ ''cc'', Index = 1, StartByte = 4, EndByte = 10, TokenCount = 2\<rparr>]"

lemma demo_three_facts:
  "TrimSpace demo_three = demo_three" "split_units demo_pairs demo_three = Some demo_three_units"
  "Split (\<lambda>_. 0) demo_three demo_pairs = Some demo_pair_chunks"
  by (simp_all add: go_eval demo_three_def demo_pairs_def demo_three_units_def demo_pair_chunks_def
      split_units_def cong: eval_congs)

theorem Split_greedy_witness:
  "\<exists>plan css. demo_pair_chunks = concat css
    \<and> follows (unit_tokens demo_pairs demo_three demo_three_units) (maxTokens demo_pairs)
        (overlapTokens demo_pairs) 0 plan
    \<and> list_all2 (planned (trim_off demo_three) demo_three_units
        (unit_tokens demo_pairs demo_three demo_three_units)) plan css"
proof -
  have "demo_three \<noteq> []" by (simp add: demo_three_def)
  then have "TrimSpace demo_three \<noteq> []" by (simp only: demo_three_facts not_False_eq_True)
  from Split_greedy [OF this _ demo_three_facts(3), unfolded demo_three_facts(1),
      OF demo_three_facts(2)]
  show ?thesis .
qed

end
