(* ===== verification/Go_Lines.thy ===== *)
theory Go_Lines
  imports Go_Strings
begin

text \<open>
  Package \<^verbatim>\<open>strings\<close> on lines: splitting a string at a byte and joining the pieces are
  inverse to each other. The line table of a text gives each line its offset.
\<close>

text \<open>\<open>strings.Split\<close> by a one-byte separator, and \<open>strings.Join\<close>.\<close>

fun split_byte :: "char \<Rightarrow> string \<Rightarrow> string list" where
  "split_byte c [] = [[]]"
| "split_byte c (b # s) =
     (if b = c then [] # split_byte c s
      else (case split_byte c s of [] \<Rightarrow> [[b]] | l # ls \<Rightarrow> (b # l) # ls))"

fun join_byte :: "char \<Rightarrow> string list \<Rightarrow> string" where
  "join_byte c [] = []"
| "join_byte c [l] = l"
| "join_byte c (l # l' # ls) = l @ c # join_byte c (l' # ls)"

declare split_byte.simps [go_eval] join_byte.simps [go_eval]

lemma split_byte_not_Nil [simp]: "split_byte c s \<noteq> []"
  by (cases s) (auto split: list.splits)

lemma split_byte_lines: "l \<in> set (split_byte c s) \<Longrightarrow> c \<notin> set l"
  by (induction s arbitrary: l rule: split_byte.induct) (auto split: if_splits list.splits)

lemma join_split_byte: "join_byte c (split_byte c s) = s"
proof (induction c s rule: split_byte.induct)
  case (2 c b s)
  obtain l ls where l: "split_byte c s = l # ls" by (meson list.exhaust split_byte_not_Nil)
  then show ?case using 2 by (cases ls) auto
qed simp

lemma split_byte_append: "c \<notin> set l \<Longrightarrow> split_byte c (l @ c # s) = l # split_byte c s"
  by (induction l) auto

lemma split_byte_single: "c \<notin> set l \<Longrightarrow> split_byte c l = [l]"
  by (induction l) auto

lemma split_join_byte:
  "ls \<noteq> [] \<Longrightarrow> \<forall>l \<in> set ls. c \<notin> set l \<Longrightarrow> split_byte c (join_byte c ls) = ls"
  by (induction c ls rule: join_byte.induct) (simp_all add: split_byte_append split_byte_single)

lemma join_byte_Cons: "ls \<noteq> [] \<Longrightarrow> join_byte c (l # ls) = l @ c # join_byte c ls"
  by (cases ls) auto

lemma join_byte_append:
  "ls \<noteq> [] \<Longrightarrow> ks \<noteq> [] \<Longrightarrow> join_byte c (ls @ ks) = join_byte c ls @ c # join_byte c ks"
  by (induction c ls rule: join_byte.induct) (auto simp: join_byte_Cons)

subsection \<open>The line table of a text\<close>

text \<open>
  A text is its lines, of which only the last one is not ended by a newline; \<open>line_pos tx k\<close> is
  the offset of line \<open>k\<close>, \<open>text_line tx k\<close> its content without a carriage return before the
  newline.
\<close>

abbreviation line_count :: "string \<Rightarrow> nat" where
  "line_count tx \<equiv> length (split_byte LF tx)"

definition raw_line :: "string \<Rightarrow> nat \<Rightarrow> string" where
  "raw_line tx k = split_byte LF tx ! k"

definition line_pos :: "string \<Rightarrow> nat \<Rightarrow> int" where
  "line_pos tx k = (\<Sum>l \<leftarrow> take k (split_byte LF tx). len l + 1)"

definition text_line :: "string \<Rightarrow> nat \<Rightarrow> string" where
  "text_line tx k =
     (let l = raw_line tx k in
      if Suc k < line_count tx \<and> l \<noteq> [] \<and> last l = CR then butlast l else l)"

declare raw_line_def [go_eval] line_pos_def [go_eval] text_line_def [go_eval]

lemma line_count_pos: "0 < line_count tx"
  by simp

lemma line_pos_0 [simp]: "line_pos tx 0 = 0"
  by (simp add: line_pos_def)

lemma line_pos_Suc: "k < line_count tx \<Longrightarrow> line_pos tx (Suc k) = line_pos tx k + len (raw_line tx k) + 1"
  by (simp add: line_pos_def raw_line_def take_Suc_conv_app_nth)

lemma raw_line_no_LF: "k < line_count tx \<Longrightarrow> LF \<notin> set (raw_line tx k)"
  unfolding raw_line_def by (intro split_byte_lines [of _ LF tx]) simp

text \<open>Lines \<open>k\<close> onwards, as the text from the offset of line \<open>k\<close>.\<close>

lemma drop_line:
  "k < line_count tx \<Longrightarrow> 0 \<le> line_pos tx k
     \<and> drop (nat (line_pos tx k)) tx = join_byte LF (drop k (split_byte LF tx))"
proof (induction k)
  case (Suc k)
  let ?ls = "split_byte LF tx"
  have d: "drop k ?ls = raw_line tx k # drop (Suc k) ?ls"
    using Suc.prems by (simp add: raw_line_def Cons_nth_drop_Suc)
  have n: "nat (line_pos tx (Suc k)) = Suc (length (raw_line tx k)) + nat (line_pos tx k)"
    using Suc by (simp add: line_pos_Suc nat_add_distrib)
  have "drop (nat (line_pos tx k)) tx = raw_line tx k @ LF # join_byte LF (drop (Suc k) ?ls)"
    using Suc d by (simp add: join_byte_Cons)
  then have "drop (nat (line_pos tx (Suc k))) tx = join_byte LF (drop (Suc k) ?ls)"
    unfolding n drop_drop [symmetric] by simp
  then show ?case using Suc by (simp add: line_pos_Suc)
qed (simp add: join_split_byte)

lemma line_pos_ge: "k < line_count tx \<Longrightarrow> 0 \<le> line_pos tx k"
  using drop_line by blast

lemma drop_inner_line:
  assumes "Suc k < line_count tx"
  shows "drop (nat (line_pos tx k)) tx = raw_line tx k @ LF # drop (nat (line_pos tx (Suc k))) tx"
proof -
  let ?ls = "split_byte LF tx"
  have "drop k ?ls = raw_line tx k # drop (Suc k) ?ls"
    using assms by (simp add: raw_line_def Cons_nth_drop_Suc)
  then show ?thesis
    using drop_line [of k tx] drop_line [of "Suc k" tx] assms by (simp add: join_byte_Cons)
qed

lemma drop_last_line:
  assumes "Suc k = line_count tx"
  shows "drop (nat (line_pos tx k)) tx = raw_line tx k"
proof -
  have "drop k (split_byte LF tx) = [raw_line tx k]"
    using assms by (metis Cons_nth_drop_Suc drop_eq_Nil lessI order_refl raw_line_def)
  then show ?thesis using drop_line [of k tx] assms by simp
qed

lemma line_pos_bound:
  assumes "k < line_count tx"
  shows "line_pos tx k + len (raw_line tx k) \<le> len tx"
    and "Suc k < line_count tx \<Longrightarrow> line_pos tx k + len (raw_line tx k) < len tx"
    and "Suc k = line_count tx \<Longrightarrow> line_pos tx k + len (raw_line tx k) = len tx"
proof -
  have g: "0 \<le> line_pos tx k" using assms by (rule line_pos_ge)
  show inner: "line_pos tx k + len (raw_line tx k) < len tx" if "Suc k < line_count tx"
    using arg_cong [OF drop_inner_line [OF that], of length] g by auto
  have "nat (line_pos tx k) \<le> length tx"
  proof (cases k)
    case (Suc j)
    then show ?thesis
      using assms line_pos_Suc [of j tx] arg_cong [OF drop_inner_line [of j tx], of length]
        line_pos_ge [of j tx] by auto
  qed simp
  then show last: "line_pos tx k + len (raw_line tx k) = len tx" if "Suc k = line_count tx"
    using arg_cong [OF drop_last_line [OF that], of length] g by simp
  show "line_pos tx k + len (raw_line tx k) \<le> len tx"
    using inner last assms by (cases "Suc k < line_count tx") auto
qed

lemma line_pos_less: "j < k \<Longrightarrow> k < line_count tx \<Longrightarrow> line_pos tx j < line_pos tx k"
proof (induction k)
  case (Suc k)
  have "line_pos tx k < line_pos tx (Suc k)" using Suc.prems by (simp add: line_pos_Suc)
  then show ?case using Suc by (cases "j = k") auto
qed simp

text \<open>The bytes of a line, and the newline that ends it.\<close>

lemma line_byte:
  assumes "k < line_count tx" and "i < length (raw_line tx k)"
  shows "byte_at tx (line_pos tx k + int i) = Some (raw_line tx k ! i)"
proof -
  have "drop (nat (line_pos tx k)) tx ! i = raw_line tx k ! i"
    using assms drop_inner_line [of k tx] drop_last_line [of k tx]
    by (cases "Suc k < line_count tx") (auto simp: nth_append)
  then show ?thesis
    using line_pos_bound(1) [OF assms(1)] line_pos_ge [OF assms(1)] assms(2)
    by (auto simp: byte_at_Some_iff nat_add_distrib)
qed

lemma line_LF:
  assumes "Suc k < line_count tx"
  shows "byte_at tx (line_pos tx k + len (raw_line tx k)) = Some LF"
proof -
  have "drop (nat (line_pos tx k)) tx ! length (raw_line tx k) = LF"
    using drop_inner_line [OF assms] by simp
  then show ?thesis
    using line_pos_bound(2) [of k tx] line_pos_ge [of k tx] assms
    by (auto simp: byte_at_Some_iff nat_add_distrib)
qed

end
