(* ===== verification/Chunk_Sections.thy ===== *)
theory Chunk_Sections
  imports Chunk_Boundaries Go_Lines
begin

text \<open>
  The segmenters against reference definitions on the lines of the text: \<open>Headings\<close>
  (\<^verbatim>\<open>chunk/headings.go\<close>) cuts before every heading outside a fence and nowhere else,
  \<open>Paragraphs\<close> (\<^verbatim>\<open>chunk/chunk.go\<close>) after every run of blank lines.
\<close>

subsection \<open>Lines of the text\<close>

lemma slice_to_end: "0 \<le> a \<Longrightarrow> a \<le> len s \<Longrightarrow> slice s a (len s) = Some (drop (nat a) s)"
  by (simp add: slice_def)

lemma IndexByte_append: "c \<notin> set l \<Longrightarrow> IndexByte (l @ c # s) c = len l"
  by (induction l) (auto simp: Let_def)

lemma lineAt_inner:
  assumes "Suc k < line_count tx"
  shows "lineAt tx (line_pos tx k) (len tx) = Some (text_line tx k, line_pos tx (Suc k))"
proof -
  let ?p = "line_pos tx k" and ?l = "raw_line tx k"
  note b = line_pos_bound(2) [of k tx] line_pos_ge [of k tx]
  have rest: "slice tx ?p (len tx) = Some (?l @ LF # drop (nat (line_pos tx (Suc k))) tx)"
    using b assms drop_inner_line [OF assms] by (simp add: slice_to_end)
  have nl: "IndexByte (?l @ LF # s) LF = len ?l" for s
    using raw_line_no_LF [of k tx] assms by (intro IndexByte_append) simp_all
  have cr: "?p < ?p + len ?l \<and> byte_at tx (?p + len ?l - 1) = Some CR \<longleftrightarrow> ?l \<noteq> [] \<and> last ?l = CR"
  proof (cases "?l = []")
    case False
    then have "byte_at tx (?p + int (length ?l - 1)) = Some (?l ! (length ?l - 1))"
      using assms by (intro line_byte) auto
    moreover have "?p + int (length ?l - 1) = ?p + len ?l - 1" using False by (cases ?l) auto
    ultimately show ?thesis using False by (simp add: last_conv_nth add_diff_eq)
  qed simp
  have sl: "slice tx ?p (?p + int n) = Some (take n ?l)" if "n \<le> length ?l" for n
    using that b assms drop_inner_line [OF assms] by (simp add: slice_def)
  have "slice tx ?p (?p + len ?l - 1) = Some (butlast ?l)" if "?l \<noteq> []"
    using sl [of "length ?l - 1"] that by (simp add: butlast_conv_take of_nat_diff Suc_le_eq algebra_simps)
  moreover have "slice tx ?p (?p + len ?l) = Some ?l" using sl [of "length ?l"] by simp
  ultimately show ?thesis
    using rest cr assms line_pos_Suc [of k tx]
    by (auto simp: lineAt_def nl Let_def text_line_def)
qed

lemma lineAt_last:
  assumes "Suc k = line_count tx"
  shows "lineAt tx (line_pos tx k) (len tx) = Some (text_line tx k, len tx)"
proof -
  have "slice tx (line_pos tx k) (len tx) = Some (raw_line tx k)"
    using line_pos_bound(3) [of k tx] line_pos_ge [of k tx] assms drop_last_line [OF assms]
    by (simp add: slice_to_end)
  moreover have "IndexByte (raw_line tx k) LF < 0"
    using raw_line_no_LF [of k tx] assms by (simp add: IndexByte_neg)
  ultimately show ?thesis using assms by (simp add: lineAt_def text_line_def)
qed

subsection \<open>Headings\<close>

text \<open>The open fence before line \<open>k\<close>, if any: its character and length.\<close>

fun fence_step :: "(char \<times> int) option \<Rightarrow> string \<Rightarrow> (char \<times> int) option" where
  "fence_step None line = map_option (\<lambda>(ch, n, info). (ch, n)) (fenceMarker line)"
| "fence_step (Some (ch, n)) line = (if closesFence ch n line then None else Some (ch, n))"

definition fence_before :: "string \<Rightarrow> nat \<Rightarrow> (char \<times> int) option" where
  "fence_before tx k = foldl (\<lambda>f j. fence_step f (text_line tx j)) None [0..<k]"

text \<open>A line outside every fence that does not open one.\<close>

definition prose_line :: "string \<Rightarrow> nat \<Rightarrow> bool" where
  "prose_line tx k \<longleftrightarrow> fence_before tx k = None \<and> fenceMarker (text_line tx k) = None"

definition atx_heading :: "string \<Rightarrow> nat \<Rightarrow> bool" where
  "atx_heading tx k \<longleftrightarrow> prose_line tx k \<and> 0 < atxLevel (text_line tx k)"

definition underline :: "string \<Rightarrow> nat \<Rightarrow> bool" where
  "underline tx k \<longleftrightarrow> prose_line tx k \<and> \<not> 0 < atxLevel (text_line tx k)
     \<and> setextUnderline (text_line tx k)"

text \<open>
  A line of a paragraph: prose that is no heading, not blank, and does not underline the line of
  a paragraph before it.
\<close>

fun paragraph_line :: "string \<Rightarrow> nat \<Rightarrow> bool" where
  "paragraph_line tx 0 \<longleftrightarrow> prose_line tx 0 \<and> \<not> atx_heading tx 0 \<and> TrimSpace (text_line tx 0) \<noteq> []"
| "paragraph_line tx (Suc k) \<longleftrightarrow> prose_line tx (Suc k) \<and> \<not> atx_heading tx (Suc k)
     \<and> TrimSpace (text_line tx (Suc k)) \<noteq> [] \<and> \<not> (paragraph_line tx k \<and> underline tx (Suc k))"

definition setext_heading :: "string \<Rightarrow> nat \<Rightarrow> bool" where
  "setext_heading tx k \<longleftrightarrow>
     paragraph_line tx k \<and> Suc k < line_count tx \<and> underline tx (Suc k)"

definition heading_lines :: "string \<Rightarrow> nat list" where
  "heading_lines tx = filter (\<lambda>k. atx_heading tx k \<or> setext_heading tx k) [0..<line_count tx]"

text \<open>The units between ascending cuts of a text of length \<open>tot\<close>.\<close>

definition units_between :: "int list \<Rightarrow> int \<Rightarrow> Unit list" where
  "units_between cuts tot = map2 (\<lambda>a b. \<lparr>Start = a, End = b\<rparr>) cuts (tl cuts @ [tot])"

lemma section_units_between: "section_units ss tot = units_between ss tot"
  by (induction ss tot rule: section_units.induct) (simp_all add: units_between_def)

text \<open>The loop visits every line, an empty last one excepted.\<close>

definition visited :: "string \<Rightarrow> nat" where
  "visited tx = (if raw_line tx (line_count tx - 1) = [] then line_count tx - 1 else line_count tx)"

lemma h_loop_lines:
  assumes "k \<le> visited tx"
  shows "h_loop tx (if k < line_count tx then line_pos tx k else len tx) st =
    Some (foldl (\<lambda>st j. h_step (line_pos tx j) (text_line tx j) st) st [k..<visited tx])"
  using assms
proof (induction "visited tx - k" arbitrary: k st)
  case 0
  then have k: "k = visited tx" by simp
  have "Suc (line_count tx - 1) = line_count tx" using line_count_pos [of tx] by linarith
  then have "(if k < line_count tx then line_pos tx k else len tx) = len tx"
    using line_pos_bound(3) [of k tx] by (auto simp: k visited_def)
  then show ?case using k by (subst h_loop.simps) simp
next
  case (Suc n)
  then have v: "k < visited tx" by simp
  then have k: "k < line_count tx" by (auto simp: visited_def split: if_splits)
  have lt: "line_pos tx k < len tx"
  proof (cases "Suc k < line_count tx")
    case True
    then show ?thesis using line_pos_bound(2) [OF k] by linarith
  next
    case False
    then have "Suc k = line_count tx" using k by simp
    then have "k = line_count tx - 1" "line_pos tx k + len (raw_line tx k) = len tx"
      using line_pos_bound(3) [OF k] by simp_all
    moreover have "raw_line tx k \<noteq> []"
      using v calculation(1) by (auto simp: visited_def split: if_splits)
    ultimately show ?thesis by (cases "raw_line tx k") auto
  qed
  have "lineAt tx (line_pos tx k) (len tx) =
      Some (text_line tx k, if Suc k < line_count tx then line_pos tx (Suc k) else len tx)"
    using lineAt_inner [of k tx] lineAt_last [of k tx] k by auto
  then show ?case
    using Suc.hyps(1) [of "Suc k"] Suc.hyps(2) v k lt
    by (subst h_loop.simps) (simp add: upt_conv_Cons)
qed

text \<open>The headings known when the lines before \<open>k\<close> have been read.\<close>

definition found :: "string \<Rightarrow> nat \<Rightarrow> nat \<Rightarrow> bool" where
  "found tx k j \<longleftrightarrow> atx_heading tx j \<or> (paragraph_line tx j \<and> Suc j < k \<and> underline tx (Suc j))"

definition completes_setext :: "string \<Rightarrow> nat \<Rightarrow> bool" where
  "completes_setext tx k \<longleftrightarrow> k \<noteq> 0 \<and> paragraph_line tx (k - 1) \<and> underline tx k"

lemma paragraph_not_atx: "paragraph_line tx k \<Longrightarrow> \<not> atx_heading tx k"
  by (cases k) auto

lemma found_Suc:
  "filter (found tx (Suc k)) [0..<Suc k] = filter (found tx k) [0..<k]
     @ (if completes_setext tx k then [k - 1] else if atx_heading tx k then [k] else [])"
proof (cases k)
  case (Suc j)
  have "filter (found tx (Suc k)) [0..<j] = filter (found tx k) [0..<j]"
    by (intro filter_cong) (auto simp: found_def Suc)
  moreover have "underline tx k \<Longrightarrow> \<not> atx_heading tx k"
    by (simp add: underline_def atx_heading_def)
  ultimately show ?thesis
    using paragraph_not_atx [of tx j] by (auto simp: Suc found_def completes_setext_def)
qed (simp add: found_def completes_setext_def)

definition h_abs :: "string \<Rightarrow> nat \<Rightarrow> HState \<Rightarrow> bool" where
  "h_abs tx k st \<longleftrightarrow>
     fence_before tx k = (if inFence st then Some (fenceChar st, fenceLen st) else None)
     \<and> (prevIsParagraph st \<longleftrightarrow> k \<noteq> 0 \<and> paragraph_line tx (k - 1))
     \<and> (k \<noteq> 0 \<longrightarrow> prevLineStart st = line_pos tx (k - 1))
     \<and> starts st = map (line_pos tx) (filter (found tx k) [0..<k])"

lemma appendStart_above:
  assumes "\<forall>j \<in> set js. j < k" and "k < line_count tx"
  shows "appendStart (map (line_pos tx) js) (line_pos tx k) = map (line_pos tx) (js @ [k])"
proof -
  have "js \<noteq> [] \<Longrightarrow> line_pos tx (last js) \<noteq> line_pos tx k"
    using line_pos_less [of "last js" k tx] assms by force
  then show ?thesis by (auto simp: appendStart_def last_map)
qed

lemma fence_before_Suc: "fence_before tx (Suc k) = fence_step (fence_before tx k) (text_line tx k)"
  by (simp add: fence_before_def)

lemma paragraph_line_unfold:
  "paragraph_line tx k \<longleftrightarrow> prose_line tx k \<and> \<not> atx_heading tx k \<and> TrimSpace (text_line tx k) \<noteq> []
     \<and> \<not> completes_setext tx k"
  by (cases k) (auto simp: completes_setext_def)

lemma h_abs_step:
  assumes "h_abs tx k st" and "k < line_count tx"
  shows "h_abs tx (Suc k) (h_step (line_pos tx k) (text_line tx k) st)"
proof (cases "inFence st")
  case True
  then have "\<not> prose_line tx k" using assms(1) by (simp add: h_abs_def prose_line_def)
  then have "\<not> paragraph_line tx k" "\<not> atx_heading tx k" "\<not> completes_setext tx k"
    using paragraph_line_unfold [of tx k]
    by (simp_all add: atx_heading_def completes_setext_def underline_def)
  then show ?thesis
    using assms(1) True
    by (simp add: h_abs_def h_step_def fence_before_Suc found_Suc del: upt_Suc)
next
  case F: False
  let ?line = "text_line tx k"
  have fence: "fence_before tx k = None" using assms(1) F by (simp add: h_abs_def)
  show ?thesis
  proof (cases "fenceMarker ?line")
    case (Some m)
    then have "\<not> prose_line tx k" by (simp add: prose_line_def)
    then have "\<not> paragraph_line tx k" "\<not> atx_heading tx k" "\<not> completes_setext tx k"
      using paragraph_line_unfold [of tx k]
    by (simp_all add: atx_heading_def completes_setext_def underline_def)
    then show ?thesis
      using assms(1) F Some fence
      by (cases m) (simp add: h_abs_def h_step_def fence_before_Suc found_Suc del: upt_Suc)
  next
    case None
    then have prose: "prose_line tx k" using fence by (simp add: prose_line_def)
    have cs: "completes_setext tx k \<longleftrightarrow>
        prevIsParagraph st \<and> \<not> 0 < atxLevel ?line \<and> setextUnderline ?line"
      using assms(1) prose by (auto simp: h_abs_def completes_setext_def underline_def)
    have par: "paragraph_line tx k \<longleftrightarrow>
        \<not> 0 < atxLevel ?line \<and> TrimSpace ?line \<noteq> [] \<and> \<not> completes_setext tx k"
      using prose paragraph_line_unfold [of tx k] by (simp add: atx_heading_def)
    have atx: "atx_heading tx k \<longleftrightarrow> 0 < atxLevel ?line" using prose by (simp add: atx_heading_def)
    have up: "appendStart (starts st) (line_pos tx k) =
        map (line_pos tx) (filter (found tx k) [0..<k] @ [k])"
      using assms appendStart_above [of "filter (found tx k) [0..<k]" k tx] by (simp add: h_abs_def)
    have upp: "appendStart (starts st) (prevLineStart st) =
        map (line_pos tx) (filter (found tx k) [0..<k] @ [k - 1])" if c: "completes_setext tx k"
    proof -
      let ?j = "k - 1" and ?js = "filter (found tx k) [0..<k]"
      have j: "Suc ?j = k" "paragraph_line tx ?j" using c by (simp_all add: completes_setext_def)
      have "\<not> found tx k ?j" using paragraph_not_atx [OF j(2)] j(1) by (simp add: found_def)
      then have "\<forall>i \<in> set ?js. i < ?j"
        using j(1) by (metis (mono_tags, lifting) atLeastLessThan_iff less_Suc_eq mem_Collect_eq set_filter set_upt)
      moreover have "?j < line_count tx" using j(1) assms(2) by linarith
      ultimately have "appendStart (map (line_pos tx) ?js) (line_pos tx ?j) = map (line_pos tx) (?js @ [?j])"
        by (rule appendStart_above)
      moreover have "starts st = map (line_pos tx) ?js" "prevLineStart st = line_pos tx ?j"
        using assms(1) c by (simp_all add: h_abs_def completes_setext_def)
      ultimately show ?thesis by simp
    qed
    consider (a) "0 < atxLevel ?line" | (s) "\<not> 0 < atxLevel ?line" "completes_setext tx k"
      | (b) "\<not> 0 < atxLevel ?line" "\<not> completes_setext tx k"
      by blast
    then show ?thesis
    proof cases
      case a
      then show ?thesis
        using assms(1) F None fence up atx cs par
        by (simp add: h_abs_def h_step_def fence_before_Suc found_Suc del: upt_Suc)
    next
      case s
      then show ?thesis
        using assms(1) F None fence upp [OF s(2)] atx cs par
        by (simp add: h_abs_def h_step_def fence_before_Suc found_Suc del: upt_Suc)
    next
      case b
      then show ?thesis
        using assms(1) F None fence atx cs par
        by (auto simp: h_abs_def h_step_def fence_before_Suc found_Suc simp del: upt_Suc)
    qed
  qed
qed

lemma heading_lines_found: "heading_lines tx = filter (found tx (visited tx)) [0..<visited tx]"
proof (cases "visited tx = line_count tx")
  case True
  then show ?thesis by (simp add: heading_lines_def found_def [abs_def] setext_heading_def)
next
  case False
  let ?v = "visited tx"
  have n: "line_count tx = Suc ?v" and e: "raw_line tx ?v = []"
    using False line_count_pos [of tx] by (auto simp: visited_def split: if_splits)
  have l: "text_line tx ?v = []" using e by (simp add: text_line_def)
  have "\<not> 0 < atxLevel []" "\<not> setextUnderline []" by (simp_all add: go_eval)
  then have none: "\<not> atx_heading tx ?v" "\<not> underline tx ?v"
    by (simp_all add: l atx_heading_def underline_def)
  have "filter (\<lambda>k. atx_heading tx k \<or> setext_heading tx k) [0..<?v] = filter (found tx ?v) [0..<?v]"
    using none(2) by (intro filter_cong) (auto simp: found_def setext_heading_def n less_Suc_eq)
  moreover have "\<not> setext_heading tx ?v" by (simp add: setext_heading_def n)
  ultimately show ?thesis using none(1) by (simp add: heading_lines_def n)
qed

lemma Headings_starts:
  assumes "tx \<noteq> []"
  shows "\<exists>st. h_loop tx 0 h_init = Some st \<and> starts st = map (line_pos tx) (heading_lines tx)"
proof -
  let ?step = "\<lambda>st j. h_step (line_pos tx j) (text_line tx j) st"
  have v: "k < visited tx \<Longrightarrow> k < line_count tx" for k by (auto simp: visited_def split: if_splits)
  have "h_abs tx k (foldl ?step h_init [0..<k])" if "k \<le> visited tx" for k
    using that
  proof (induction k)
    case 0
    then show ?case by (simp add: h_abs_def h_init_def fence_before_def)
  next
    case (Suc k)
    then have "h_abs tx k (foldl ?step h_init [0..<k])" by simp
    from h_abs_step [OF this] show ?case using Suc.prems v [of k] by simp
  qed
  from this [OF order_refl] show ?thesis
    using h_loop_lines [of 0 tx h_init] line_count_pos [of tx]
    by (auto simp: h_abs_def heading_lines_found)
qed

text \<open>Where the sections of a text begin: at its headings, and at its start.\<close>

definition section_cuts :: "string \<Rightarrow> int list" where
  "section_cuts tx = (if 0 \<in> set (heading_lines tx) then [] else [0])
     @ map (line_pos tx) (heading_lines tx)"

lemma units_between_Cons: "units_between (a # b # cuts) tot = \<lparr>Start = a, End = b\<rparr> # units_between (b # cuts) tot"
  by (simp add: units_between_def)

lemma Headings_units:
  assumes "tx \<noteq> []"
  shows "Headings tx =
    Some (if heading_lines tx = [] then Paragraphs tx else units_between (section_cuts tx) (len tx))"
proof -
  obtain st where st: "h_loop tx 0 h_init = Some st"
    "starts st = map (line_pos tx) (heading_lines tx)"
    using Headings_starts [OF assms] by blast
  show ?thesis
  proof (cases "heading_lines tx")
    case Nil
    then show ?thesis using st assms by (simp add: Headings_def)
  next
    case (Cons k ks)
    have srt: "sorted_wrt (<) (k # ks)" "\<forall>j \<in> set (k # ks). j < line_count tx"
      unfolding Cons [symmetric] by (simp_all add: heading_lines_def sorted_wrt_filter)
    have "0 \<in> set (k # ks) \<longleftrightarrow> k = 0" using srt(1) by auto
    moreover have "0 < line_pos tx k \<longleftrightarrow> k \<noteq> 0"
      using line_pos_less [of 0 k tx] srt(2) by (cases "k = 0") auto
    ultimately show ?thesis
      using st assms Cons
      by (auto simp: Headings_def unitsFromStarts_def section_cuts_def section_units_between
          units_between_Cons)
  qed
qed

subsection \<open>Paragraphs\<close>

definition blank_line :: "string \<Rightarrow> nat \<Rightarrow> bool" where
  "blank_line tx k \<longleftrightarrow> Suc k < line_count tx \<and> text_line tx k = []"

text \<open>The line after a run of blank lines; one empty line at the start of the text is no run.\<close>

definition paragraph_start :: "string \<Rightarrow> nat \<Rightarrow> bool" where
  "paragraph_start tx k \<longleftrightarrow> 2 \<le> k \<and> blank_line tx (k - 1) \<and> \<not> blank_line tx k"

lemma blank_line_bytes:
  assumes "k < line_count tx"
  shows "newline_at tx (line_pos tx k) < len tx \<and> byte_at tx (newline_at tx (line_pos tx k)) = Some LF
      \<longleftrightarrow> blank_line tx k"
    and "blank_line tx k \<Longrightarrow> newline_at tx (line_pos tx k) + 1 = line_pos tx (Suc k)"
proof -
  let ?p = "line_pos tx k" and ?n = "newline_at tx (line_pos tx k)" and ?l = "raw_line tx k"
  have inner: "byte_at tx (?p + len ?l) = Some LF" if "Suc k < line_count tx"
    using line_LF [OF that] .
  have outer: "byte_at tx (?p + len ?l) = None" if "\<not> Suc k < line_count tx"
  proof -
    have "Suc k = line_count tx" using that assms by linarith
    then show ?thesis using line_pos_bound(3) [OF assms] by (simp add: byte_at_def)
  qed
  have b0: "byte_at tx ?p = Some c" "c \<noteq> LF" if "?l = c # r" for c r
    using line_byte [OF assms, of 0] raw_line_no_LF [OF assms] that by auto
  have b1: "byte_at tx (?p + 1) = Some d" "d \<noteq> LF" if "?l = c # d # r" for c d r
    using line_byte [OF assms, of 1] raw_line_no_LF [OF assms] that by auto
  consider (nil) "?l = []" | (cr) "?l = [CR]" | (cr2) d r where "?l = CR # d # r"
    | (other) c r where "?l = c # r" "c \<noteq> CR"
    by (cases ?l rule: list.exhaust; cases "tl ?l"; cases "hd ?l = CR") auto
  then have "(byte_at tx ?n = Some LF \<longleftrightarrow> blank_line tx k)
      \<and> (blank_line tx k \<longrightarrow> ?n + 1 = line_pos tx (Suc k))"
  proof cases
    case nil
    then show ?thesis
      using inner outer assms line_pos_Suc [of k tx]
      by (cases "Suc k < line_count tx") (auto simp: newline_at_def blank_line_def text_line_def Let_def)
  next
    case cr
    then show ?thesis
      using inner outer assms line_pos_Suc [of k tx] b0 [OF cr]
      by (cases "Suc k < line_count tx") (auto simp: newline_at_def blank_line_def text_line_def Let_def)
  next
    case cr2
    then show ?thesis
      using b0 [OF cr2] b1 [OF cr2] by (auto simp: newline_at_def blank_line_def text_line_def Let_def)
  next
    case other
    then show ?thesis
      using b0 [OF other(1)] by (auto simp: newline_at_def blank_line_def text_line_def Let_def)
  qed
  then show "?n < len tx \<and> byte_at tx ?n = Some LF \<longleftrightarrow> blank_line tx k"
    and "blank_line tx k \<Longrightarrow> ?n + 1 = line_pos tx (Suc k)"
    by (auto simp: byte_at_Some_iff)
qed

lemma blank_run_lines:
  assumes "k < line_count tx"
  shows "\<exists>j \<ge> k. j < line_count tx \<and> (\<forall>i. k \<le> i \<longrightarrow> i < j \<longrightarrow> blank_line tx i) \<and> \<not> blank_line tx j
    \<and> blank_run tx (line_pos tx k) c = (line_pos tx j, c + (int j - int k))"
  using assms
proof (induction "line_count tx - k" arbitrary: k c)
  case (Suc n)
  note b = blank_line_bytes [OF Suc.prems]
  show ?case
  proof (cases "blank_line tx k")
    case True
    then have k: "Suc k < line_count tx" by (simp add: blank_line_def)
    have "line_pos tx k < len tx" using line_pos_bound(2) [of k tx] k by linarith
    then have step: "blank_run tx (line_pos tx k) c = blank_run tx (line_pos tx (Suc k)) (c + 1)"
      using b True blank_run_step [of "line_pos tx k" tx c] by simp
    have n: "n = line_count tx - Suc k" using Suc.hyps(2) by linarith
    obtain j where j: "Suc k \<le> j" "j < line_count tx" "\<forall>i. Suc k \<le> i \<longrightarrow> i < j \<longrightarrow> blank_line tx i"
      "\<not> blank_line tx j" "blank_run tx (line_pos tx (Suc k)) (c + 1) = (line_pos tx j, c + 1 + (int j - int (Suc k)))"
      using Suc.hyps(1) [OF n k, of "c + 1"] by auto
    moreover have "blank_line tx i" if "k \<le> i" "i < j" for i
      using j(3) True that by (cases "i = k") auto
    ultimately show ?thesis using step by (intro exI [of _ j]) auto
  next
    case False
    then have "blank_run tx (line_pos tx k) c = (line_pos tx k, c)"
      using b(1) by (intro blank_run_stop) auto
    then show ?thesis using False Suc.prems by (intro exI [of _ k]) auto
  qed
qed simp

text \<open>Scanning from inside line \<open>k\<close> finds the first paragraph start from line \<open>k + 2\<close> on.\<close>

definition next_start :: "string \<Rightarrow> nat \<Rightarrow> int \<times> int \<Rightarrow> bool" where
  "next_start tx k r \<longleftrightarrow>
     (if \<exists>j \<ge> k + 2. paragraph_start tx j
      then 0 \<le> fst r \<and> snd r = line_pos tx (LEAST j. k + 2 \<le> j \<and> paragraph_start tx j)
      else r = (-1, -1))"

lemma paragraph_start_line: "paragraph_start tx j \<Longrightarrow> j < line_count tx"
  by (cases j) (auto simp: paragraph_start_def blank_line_def)

lemma next_start_skip:
  assumes "next_start tx (Suc k) r" and "\<not> blank_line tx (Suc k)"
  shows "next_start tx k r"
proof -
  have "\<not> paragraph_start tx (k + 2)" using assms(2) by (simp add: paragraph_start_def)
  then have "k + 2 \<le> j \<and> paragraph_start tx j \<longleftrightarrow> Suc k + 2 \<le> j \<and> paragraph_start tx j" for j
    using le_eq_less_or_eq [of "k + 2" j] by auto
  then show ?thesis using assms(1) by (simp add: next_start_def)
qed

lemma blank_from_lines:
  assumes "k < line_count tx" and "0 \<le> p" and "line_pos tx k \<le> i"
    and "i \<le> line_pos tx k + len (raw_line tx k)" and "p \<le> i"
  shows "next_start tx k (blank_from tx p i)"
  using assms
proof (induction "nat (len tx - i)" arbitrary: k i rule: less_induct)
  case less
  let ?e = "line_pos tx k + len (raw_line tx k)"
  consider (mid) "i < ?e" | (last) "i = ?e" "Suc k = line_count tx" | (lf) "i = ?e" "Suc k < line_count tx"
    using less.prems by linarith
  then show ?case
  proof cases
    case mid
    then have "i < len tx" using line_pos_bound(1) [OF less.prems(1)] by simp
    moreover have "byte_at tx i \<noteq> Some LF"
    proof -
      let ?n = "nat (i - line_pos tx k)"
      have n: "?n < length (raw_line tx k)" "line_pos tx k + int ?n = i" using mid less.prems(3) by auto
      have "raw_line tx k ! ?n \<noteq> LF"
        using raw_line_no_LF [OF less.prems(1)] nth_mem [OF n(1)] by auto
      then show ?thesis using line_byte [OF less.prems(1) n(1)] n(2) by simp
    qed
    moreover have "next_start tx k (blank_from tx p (i + 1))"
      using less.hyps [of "i + 1" k] less.prems mid \<open>i < len tx\<close> by simp
    ultimately show ?thesis by (subst blank_from.simps) simp
  next
    case last
    then have "\<not> i < len tx" using line_pos_bound(3) [OF less.prems(1)] by simp
    moreover have "\<not> (\<exists>j \<ge> k + 2. paragraph_start tx j)"
      using last(2) paragraph_start_line [of tx] by fastforce
    ultimately show ?thesis by (subst blank_from.simps) (auto simp: next_start_def)
  next
    case lf
    have lt: "i < len tx" and LF: "byte_at tx i = Some LF" and nx: "line_pos tx (Suc k) = i + 1"
      using lf line_pos_bound(2) [OF less.prems(1)] line_LF [OF lf(2)] line_pos_Suc [OF less.prems(1)] by auto
    have "newline_at tx i = i" using LF by (simp add: newline_at_def)
    then have run: "blank_run tx i 0 = blank_run tx (line_pos tx (Suc k)) 1"
      using blank_run_step [of i tx 0] lt LF nx by simp
    obtain j where j: "Suc k \<le> j" "j < line_count tx" "\<forall>i. Suc k \<le> i \<longrightarrow> i < j \<longrightarrow> blank_line tx i"
      "\<not> blank_line tx j" "blank_run tx i 0 = (line_pos tx j, 1 + (int j - int (Suc k)))"
      using blank_run_lines [OF lf(2), of 1] unfolding run by blast
    show ?thesis
    proof (cases "j = Suc k")
      case True
      have "next_start tx (Suc k) (blank_from tx p (line_pos tx (Suc k)))"
        using less.hyps [of "line_pos tx (Suc k)" "Suc k"] nx lt lf less.prems by simp
      then have "next_start tx k (blank_from tx p (line_pos tx (Suc k)))"
        by (rule next_start_skip) (use j(4) True in simp)
      moreover have "blank_from tx p i = blank_from tx p (line_pos tx (Suc k))"
        using lt LF j(5) True by (subst blank_from.simps) simp
      ultimately show ?thesis by simp
    next
      case False
      then have ge: "k + 2 \<le> j" using j(1) by simp
      have "blank_line tx (j - 1)" using j(3) ge by simp
      then have js: "paragraph_start tx j"
        using j(4) ge by (simp add: paragraph_start_def)
      have "(LEAST j. k + 2 \<le> j \<and> paragraph_start tx j) = j"
      proof (rule Least_equality)
        fix i assume i: "k + 2 \<le> i \<and> paragraph_start tx i"
        show "j \<le> i"
        proof (rule ccontr)
          assume "\<not> j \<le> i"
          then have "blank_line tx i" using j(3) i by simp
          then show False using i by (simp add: paragraph_start_def)
        qed
      qed (use ge js in simp)
      moreover have "blank_from tx p i = (if p < i \<and> byte_at tx (i - 1) = Some CR then i - 1 else i, line_pos tx j)"
        using lt LF j(5) ge by (subst blank_from.simps) simp
      ultimately show ?thesis
        using ge js less.prems(2,5) by (auto simp: next_start_def)
    qed
  qed
qed

text \<open>The paragraphs from line \<open>k\<close> on.\<close>

definition starts_after :: "string \<Rightarrow> nat \<Rightarrow> nat list" where
  "starts_after tx k = filter (\<lambda>j. paragraph_start tx j \<and> line_pos tx j < len tx) [k..<line_count tx]"

lemma paragraphs_from_lines:
  assumes "k < line_count tx" and "line_pos tx k < len tx" and "\<not> paragraph_start tx (Suc k)"
  shows "paragraphs_from tx (line_pos tx k) =
    units_between (line_pos tx k # map (line_pos tx) (starts_after tx (Suc k))) (len tx)"
  using assms
proof (induction "line_count tx - k" arbitrary: k rule: less_induct)
  case less
  let ?p = "line_pos tx k"
  have nl: "next_start tx k (nextBlankLine tx ?p)"
    unfolding nextBlankLine_def
    using less.prems line_pos_ge [of k tx] by (intro blank_from_lines) auto
  have p0: "0 \<le> ?p" using line_pos_ge less.prems(1) by blast
  show ?case
  proof (cases "\<exists>j \<ge> k + 2. paragraph_start tx j")
    case False
    have "starts_after tx (Suc k) = []"
    proof -
      have "\<not> paragraph_start tx j" if "Suc k \<le> j" for j
        using False less.prems(3) that by (cases "j = Suc k") auto
      then show ?thesis by (simp add: starts_after_def filter_empty_conv)
    qed
    then show ?thesis
      using nl False less.prems p0 by (subst paragraphs_from.simps) (simp add: next_start_def units_between_def)
  next
    case True
    define j where "j = (LEAST j. k + 2 \<le> j \<and> paragraph_start tx j)"
    have "k + 2 \<le> j \<and> paragraph_start tx j"
      unfolding j_def by (rule LeastI_ex) (use True in auto)
    then have j: "k + 2 \<le> j" "paragraph_start tx j" by auto
    have before: "\<not> paragraph_start tx i" if "Suc k \<le> i" "i < j" for i
      using not_less_Least [of i "\<lambda>j. k + 2 \<le> j \<and> paragraph_start tx j"] that less.prems(3)
      unfolding j_def by (cases "i = Suc k") auto
    have jn: "j < line_count tx" using paragraph_start_line [OF j(2)] .
    have "[Suc k..<line_count tx] = [Suc k..<j] @ j # [Suc j..<line_count tx]"
      using j(1) jn upt_add_eq_append [of "Suc k" j "line_count tx - j"] by (simp add: upt_conv_Cons)
    then have sa: "starts_after tx (Suc k) =
        (if line_pos tx j < len tx then j # starts_after tx (Suc j) else starts_after tx (Suc j))"
      using before j(2) by (simp add: starts_after_def filter_empty_conv)
    have step: "paragraphs_from tx ?p = \<lparr>Start = ?p, End = line_pos tx j\<rparr> # paragraphs_from tx (line_pos tx j)"
      using nl True less.prems p0 by (subst paragraphs_from.simps) (auto simp: next_start_def j_def)
    show ?thesis
    proof (cases "line_pos tx j < len tx")
      case lt: True
      have "\<not> paragraph_start tx (Suc j)" using j(2) by (simp add: paragraph_start_def)
      then have "paragraphs_from tx (line_pos tx j) =
          units_between (line_pos tx j # map (line_pos tx) (starts_after tx (Suc j))) (len tx)"
        using less.hyps [of j] lt jn j(1) by simp
      then show ?thesis using step sa lt by (simp add: units_between_Cons)
    next
      case False
      then have e: "line_pos tx j = len tx" using line_pos_bound(1) [OF jn] by linarith
      have "starts_after tx (Suc j) = []"
      proof -
        have "\<not> line_pos tx i < len tx" if "j < i" "i < line_count tx" for i
          using line_pos_less [OF that] e by linarith
        then show ?thesis by (simp add: starts_after_def filter_empty_conv)
      qed
      moreover have "paragraphs_from tx (line_pos tx j) = []"
        unfolding e by (subst paragraphs_from.simps) simp
      ultimately show ?thesis using step sa False e by (simp add: units_between_def)
    qed
  qed
qed

text \<open>Where the paragraphs of a text begin.\<close>

definition paragraph_cuts :: "string \<Rightarrow> int list" where
  "paragraph_cuts tx = 0 # map (line_pos tx)
     (filter (\<lambda>k. paragraph_start tx k \<and> line_pos tx k < len tx) [0..<line_count tx])"

lemma Paragraphs_units:
  assumes "tx \<noteq> []"
  shows "Paragraphs tx = units_between (paragraph_cuts tx) (len tx)"
proof -
  have "\<not> paragraph_start tx (Suc 0)" "\<not> paragraph_start tx 0" by (simp_all add: paragraph_start_def)
  moreover from this have "starts_after tx (Suc 0) =
      filter (\<lambda>k. paragraph_start tx k \<and> line_pos tx k < len tx) [0..<line_count tx]"
    using line_count_pos [of tx] by (simp add: starts_after_def upt_conv_Cons)
  ultimately show ?thesis
    using paragraphs_from_lines [of 0 tx] assms line_count_pos [of tx]
    by (simp add: Paragraphs_def paragraph_cuts_def)
qed

subsection \<open>The segmenters and their references\<close>

text \<open>
  C8: \<open>Headings\<close> cuts a text exactly before its headings: the lines outside every code fence
  that are ATX headings, or lines of a paragraph with a setext underline below. What comes before
  the first heading is a unit of its own, and a text without headings is cut into paragraphs.
\<close>

theorem Headings_cuts:
  "Headings tx = Some (if tx = [] then []
     else units_between (if heading_lines tx = [] then paragraph_cuts tx else section_cuts tx) (len tx))"
proof (cases "tx = []")
  case True
  then show ?thesis by (simp add: Headings_def)
next
  case False
  then show ?thesis using Headings_units [OF False] Paragraphs_units [OF False] by simp
qed

text \<open>
  C9: \<open>Paragraphs\<close> cuts a text exactly after each run of blank lines (a single empty line at the
  very start is no run), with \<open>\n\<close> and \<open>\r\n\<close> line ends alike.
\<close>

theorem Paragraphs_cuts:
  "Paragraphs tx = (if tx = [] then [] else units_between (paragraph_cuts tx) (len tx))"
proof (cases "tx = []")
  case True
  then show ?thesis by (simp add: Paragraphs_def)
next
  case False
  then show ?thesis by (simp only: Paragraphs_units [OF False] False if_False)
qed

text \<open>A document with an ATX heading, a hash inside a fence, and a setext heading.\<close>

definition demo_headings :: string where
  "demo_headings = ''# A'' @ [LF] @ ''~~~'' @ [LF] @ ''# b'' @ [LF] @ ''~~~'' @ [LF] @ ''T'' @ [LF] @
     ''=='' @ [LF] @ ''x''"

lemma demo_headings_lines:
  "split_byte LF demo_headings = [''# A'', ''~~~'', ''# b'', ''~~~'', ''T'', ''=='', ''x'']"
  by (simp add: demo_headings_def)

lemma demo_headings_text:
  "text_line demo_headings 0 = ''# A''" "text_line demo_headings (Suc 0) = ''~~~''"
  "text_line demo_headings 2 = ''# b''" "text_line demo_headings 3 = ''~~~''"
  "text_line demo_headings 4 = ''T''" "text_line demo_headings 5 = ''==''"
  "text_line demo_headings 6 = ''x''"
  by (simp_all add: text_line_def raw_line_def demo_headings_lines)

lemma demo_markers:
  "fenceMarker ''# A'' = None" "fenceMarker ''~~~'' = Some (TILDE, 3, False)"
  "fenceMarker ''# b'' = None" "fenceMarker ''T'' = None" "fenceMarker ''=='' = None"
  "fenceMarker ''x'' = None"
  by (simp_all add: go_eval cong: eval_congs)

lemma demo_levels:
  "atxLevel ''# A'' = 1" "atxLevel ''T'' = 0" "atxLevel ''=='' = 0" "atxLevel ''x'' = 0"
  "setextUnderline ''==''" "\<not> setextUnderline ''T''" "\<not> setextUnderline ''x''"
  "TrimSpace ''T'' \<noteq> []"
  by (simp_all add: go_eval cong: eval_congs)

lemma demo_headings_fences:
  "fence_before demo_headings 0 = None" "fence_before demo_headings (Suc 0) = None"
  "fence_before demo_headings 2 = Some (TILDE, 3)" "fence_before demo_headings 3 = Some (TILDE, 3)"
  "fence_before demo_headings 4 = None" "fence_before demo_headings 5 = None"
  "fence_before demo_headings 6 = None"
proof -
  note step = fence_before_Suc [of demo_headings] and marks = demo_markers demo_headings_text closesFence_def
  show 0: "fence_before demo_headings 0 = None" by (simp add: fence_before_def)
  show 1: "fence_before demo_headings (Suc 0) = None" using step [of 0] 0 marks by simp
  show 2: "fence_before demo_headings 2 = Some (TILDE, 3)"
    using step [of "Suc 0"] 1 marks by (simp add: numeral_2_eq_2)
  show 3: "fence_before demo_headings 3 = Some (TILDE, 3)" using step [of 2] 2 marks by simp
  show 4: "fence_before demo_headings 4 = None" using step [of 3] 3 marks by simp
  show 5: "fence_before demo_headings 5 = None" using step [of 4] 4 marks by simp
  show "fence_before demo_headings 6 = None" using step [of 5] 5 marks by simp
qed

lemma demo_headings_cuts:
  "heading_lines demo_headings = [0, 4]" "section_cuts demo_headings = [0, 16]"
proof -
  let ?d = demo_headings
  have indices: "[0..<7] = [0, Suc 0, 2, 3, 4, 5, 6]" by (simp add: upt_rec)
  have lines: "line_count ?d = 7" by (simp add: demo_headings_lines)
  note facts = demo_headings_fences demo_headings_text demo_markers demo_levels
  have prose: "prose_line ?d 0" "\<not> prose_line ?d (Suc 0)" "\<not> prose_line ?d 2" "\<not> prose_line ?d 3"
    "prose_line ?d 4" "prose_line ?d 5" "prose_line ?d 6"
    by (simp_all add: prose_line_def facts)
  have atx: "atx_heading ?d 0" "\<not> atx_heading ?d (Suc 0)" "\<not> atx_heading ?d 2" "\<not> atx_heading ?d 3"
    "\<not> atx_heading ?d 4" "\<not> atx_heading ?d 5" "\<not> atx_heading ?d 6"
    by (simp_all add: atx_heading_def prose facts)
  have und: "\<not> underline ?d (Suc 0)" "\<not> underline ?d 2" "\<not> underline ?d 3" "\<not> underline ?d 4"
    "underline ?d 5" "\<not> underline ?d 6"
    by (simp_all add: underline_def prose facts)
  have "paragraph_line ?d 4"
    by (subst paragraph_line_unfold) (simp add: completes_setext_def prose atx und facts)
  then have "setext_heading ?d 4" by (simp add: setext_heading_def demo_headings_lines und)
  moreover have "\<not> setext_heading ?d 0" "\<not> setext_heading ?d (Suc 0)" "\<not> setext_heading ?d 2"
    "\<not> setext_heading ?d 3" "\<not> setext_heading ?d 5" "\<not> setext_heading ?d 6"
    using und und(2) [unfolded numeral_2_eq_2] by (simp_all add: setext_heading_def demo_headings_lines del: paragraph_line.simps)
  ultimately show h: "heading_lines ?d = [0, 4]"
    using atx by (simp add: heading_lines_def lines indices del: upt_Suc)
  show "section_cuts ?d = [0, 16]"
    by (simp add: section_cuts_def h line_pos_def demo_headings_lines)
qed

end
