(* ===== verification/Chunk_Markdown.thy ===== *)
theory Chunk_Markdown
  imports Chunk_Boundaries
begin

text \<open>
  The forms of a Markdown line that \<^verbatim>\<open>chunk/headings.go\<close> recognizes, written out: the
  scanning loops of \<open>atxLevel\<close>, \<open>setextUnderline\<close> and \<open>fenceMarker\<close> accept exactly these lines.
\<close>

definition run_length :: "char \<Rightarrow> string \<Rightarrow> nat" where
  "run_length c s = length (takeWhile (\<lambda>x. x = c) s)"

lemma run_length_replicate:
  "t = [] \<or> hd t \<noteq> c \<Longrightarrow> run_length c (replicate n c @ t) = n"
  by (cases t) (auto simp: run_length_def takeWhile_append)

lemma run_length_split:
  obtains t where "s = replicate (run_length c s) c @ t" and "t = [] \<or> hd t \<noteq> c"
proof -
  have "takeWhile (\<lambda>x. x = c) s = replicate (run_length c s) c"
    unfolding run_length_def by (intro replicate_eqI) (auto dest: set_takeWhileD)
  then have "s = replicate (run_length c s) c @ dropWhile (\<lambda>x. x = c) s"
    by (metis takeWhile_dropWhile_id)
  moreover have "dropWhile (\<lambda>x. x = c) s = [] \<or> hd (dropWhile (\<lambda>x. x = c) s) \<noteq> c"
    using hd_dropWhile [of "\<lambda>x. x = c" s] by blast
  ultimately show ?thesis using that by blast
qed

lemma skip_byte_prefix:
  "skip_byte c (s @ t) (len s) = len s + int (run_length c t)"
proof (induction t arbitrary: s)
  case (Cons b t)
  show ?case
  proof (cases "b = c")
    case True
    then show ?thesis
      using Cons [of "s @ [b]"] by (subst skip_byte.simps) (simp add: byte_at_def run_length_def ac_simps)
  next
    case False
    then show ?thesis by (subst skip_byte.simps) (simp add: byte_at_def run_length_def ac_simps)
  qed
qed (subst skip_byte.simps, simp add: run_length_def)

lemma skip_byte_0: "skip_byte c t 0 = int (run_length c t)"
  using skip_byte_prefix [of c "[]" t] by simp

text \<open>A line as its leading spaces, a run of another character and the rest.\<close>

lemma skip_indent:
  assumes "line = replicate k SP @ replicate n c @ rest" and "c \<noteq> SP" and "1 \<le> n"
    and "rest = [] \<or> hd rest \<noteq> c"
  shows "skip_byte SP line 0 = int k" and "byte_at line (int k) = Some c"
    and "skip_byte c line (int k) = int (k + n)" and "drop (k + n) line = rest"
    and "len line = int (k + n + length rest)"
proof -
  have "run_length SP line = k"
    using assms(1-3) run_length_replicate [of "replicate n c @ rest" SP k] by (cases n) auto
  then show "skip_byte SP line 0 = int k" by (simp add: skip_byte_0)
  show "byte_at line (int k) = Some c"
    using assms(1,3) by (cases n) (simp_all add: byte_at_def nth_append)
  have "run_length c (replicate n c @ rest) = n" using assms(4) by (rule run_length_replicate)
  then show "skip_byte c line (int k) = int (k + n)"
    using skip_byte_prefix [of c "replicate k SP" "replicate n c @ rest"] assms(1) by simp
qed (use assms(1) in simp_all)

lemma indent_split:
  obtains k n rest where "line = replicate k SP @ replicate n c @ rest" and "k = run_length SP line"
    and "c \<noteq> SP \<Longrightarrow> n = 0 \<Longrightarrow> rest = [] \<or> hd rest \<noteq> SP" and "rest = [] \<or> hd rest \<noteq> c"
proof -
  obtain t where t: "line = replicate (run_length SP line) SP @ t" "t = [] \<or> hd t \<noteq> SP"
    by (rule run_length_split)
  obtain rest where r: "t = replicate (run_length c t) c @ rest" "rest = [] \<or> hd rest \<noteq> c"
    by (rule run_length_split)
  show ?thesis
    by (rule that [of "run_length SP line" "run_length c t" rest]) (use t r in \<open>auto simp flip: r(1)\<close>)
qed

subsection \<open>ATX headings\<close>

abbreviation HASH :: char where "HASH \<equiv> CHR 0x23"

inductive atx_form :: "string \<Rightarrow> int \<Rightarrow> bool" where
  "k \<le> 3 \<Longrightarrow> 1 \<le> n \<Longrightarrow> n \<le> 6 \<Longrightarrow> rest = [] \<or> hd rest = SP \<or> hd rest = TAB \<Longrightarrow>
     atx_form (replicate k SP @ replicate n HASH @ rest) (int n)"

lemma atxLevel_form:
  assumes "atx_form line n"
  shows "atxLevel line = n"
  using assms
proof cases
  case (1 k m rest)
  have "rest = [] \<or> hd rest \<noteq> HASH" using 1 by auto
  note s = skip_indent [OF 1(1) _ 1(4) this]
  have "byte_at line (int (k + m)) = (case rest of [] \<Rightarrow> None | b # _ \<Rightarrow> Some b)"
    using 1(1) by (cases rest) (auto simp: byte_at_def nth_append)
  then show ?thesis using 1(2-6) s by (cases rest) (auto simp: atxLevel_def Let_def)
qed

lemma atxLevel_pos:
  assumes "0 < atxLevel line"
  shows "atx_form line (atxLevel line)"
proof -
  obtain k n rest where l: "line = replicate k SP @ replicate n HASH @ rest" "k = run_length SP line"
    "rest = [] \<or> hd rest \<noteq> HASH"
    using indent_split [of line HASH] by metis
  have k: "skip_byte SP line 0 = int k" using l(2) by (simp add: skip_byte_0)
  have h: "skip_byte HASH line (int k) = int (k + n)"
    using skip_byte_prefix [of HASH "replicate k SP" "replicate n HASH @ rest"] l(1)
      run_length_replicate [OF l(3), of n] by simp
  have b: "byte_at line (int (k + n)) = (case rest of [] \<Rightarrow> None | b # _ \<Rightarrow> Some b)"
    using l(1) by (cases rest) (auto simp: byte_at_def nth_append)
  have len: "len line = int (k + n + length rest)" using l(1) by simp
  have lev: "atxLevel line = int n" "k \<le> 3" "1 \<le> n" "n \<le> 6"
    "rest = [] \<or> hd rest = SP \<or> hd rest = TAB"
    using assms b len by (auto simp: atxLevel_def k h Let_def split: if_splits list.splits)
  show ?thesis
    unfolding lev(1) by (subst l(1)) (rule atx_form.intros [OF lev(2-5)])
qed

subsection \<open>Setext underlines\<close>

inductive setext_form :: "string \<Rightarrow> bool" where
  "k \<le> 3 \<Longrightarrow> c = CHR 0x3D \<or> c = CHR 0x2D \<Longrightarrow> 1 \<le> n \<Longrightarrow> set rest \<subseteq> {SP, TAB} \<Longrightarrow>
     setext_form (replicate k SP @ replicate n c @ rest)"

lemma Trim_Nil_iff: "Trim s cs = [] \<longleftrightarrow> set s \<subseteq> set cs"
proof (cases "dropWhile (\<lambda>c. c \<in> set cs) s")
  case Nil
  have "\<forall>x \<in> set s. x \<in> set cs" using Nil by (simp add: dropWhile_eq_Nil_conv)
  moreover have "Trim s cs = []" by (simp only: Trim_def TrimRight_def Nil) simp
  ultimately show ?thesis by blast
next
  case (Cons a as)
  then have "a \<notin> set cs" using hd_dropWhile [of "\<lambda>c. c \<in> set cs" s] by simp
  moreover have "a \<in> set s" using Cons set_dropWhileD [of a "\<lambda>c. c \<in> set cs" s] by simp
  moreover have "Trim s cs \<noteq> []"
    using Cons calculation(1) by (auto simp: Trim_def TrimRight_def dropWhile_eq_Nil_conv)
  ultimately show ?thesis by blast
qed

text \<open>The line the scanning loops see: spaces, then a character, repeated.\<close>

lemma scanned_line:
  assumes "byte_at line (skip_byte SP line 0) = Some c"
  obtains k n rest where "line = replicate k SP @ replicate n c @ rest" and "1 \<le> n"
    and "rest = [] \<or> hd rest \<noteq> c" and "skip_byte SP line 0 = int k"
    and "skip_byte c line (int k) = int (k + n)" and "drop (k + n) line = rest"
    and "len line = int (k + n + length rest)" and "c \<noteq> SP"
proof -
  let ?k = "run_length SP line"
  obtain t where t: "line = replicate ?k SP @ t" "t = [] \<or> hd t \<noteq> SP" by (rule run_length_split)
  have i: "skip_byte SP line 0 = int ?k" by (simp add: skip_byte_0)
  have "drop ?k line = t" by (subst t(1)) simp
  moreover have "?k < length line" "line ! ?k = c" using assms i by (auto simp: byte_at_Some_iff)
  ultimately have c: "t \<noteq> []" "hd t = c" by (auto simp: hd_drop_conv_nth)
  obtain rest where r: "t = replicate (run_length c t) c @ rest" "rest = [] \<or> hd rest \<noteq> c"
    by (rule run_length_split)
  have n: "1 \<le> run_length c t" using c by (cases t) (auto simp: run_length_def)
  have l: "line = replicate ?k SP @ replicate (run_length c t) c @ rest"
    using t(1) r(1) by simp
  have "c \<noteq> SP" using c t(2) by auto
  from that [OF l n r(2) i skip_indent(3-5) [OF l this n r(2)] this] show ?thesis .
qed

lemma setext_iff: "setextUnderline line \<longleftrightarrow> setext_form line"
proof
  assume s: "setextUnderline line"
  then obtain c where c: "byte_at line (skip_byte SP line 0) = Some c" "c = CHR 0x3D \<or> c = CHR 0x2D"
    by (auto simp: setextUnderline_def Let_def split: if_splits option.splits)
  from scanned_line [OF c(1)] obtain k n rest where l:
    "line = replicate k SP @ replicate n c @ rest" "1 \<le> n" "skip_byte SP line 0 = int k"
    "skip_byte c line (int k) = int (k + n)" "drop (k + n) line = rest"
    "len line = int (k + n + length rest)"
    by metis
  have "byte_at line (int k) = Some c" using c(1) l(3) by simp
  then have "setextUnderline line \<longleftrightarrow> k \<le> 3 \<and> (rest \<noteq> [] \<longrightarrow> Trim rest [SP, TAB] = [])"
    using c(2) l(2) by (cases "3 < k"; cases rest)
      (auto simp: setextUnderline_def Let_def l(3-6) nat_int_add)
  then have "k \<le> 3" "set rest \<subseteq> {SP, TAB}" using s Trim_Nil_iff [of rest "[SP, TAB]"] by auto
  then show "setext_form line" by (subst l(1)) (intro setext_form.intros c(2) l(2))
next
  assume "setext_form line"
  then show "setextUnderline line"
  proof cases
    case (1 k c n rest)
    have c: "c \<noteq> SP" "rest = [] \<or> hd rest \<noteq> c" using 1(3,5) by (cases rest; auto)+
    note s = skip_indent [OF 1(1) c(1) 1(4) c(2)]
    show ?thesis
      using 1(2-5) s Trim_Nil_iff [of rest "[SP, TAB]"]
      by (auto simp: setextUnderline_def Let_def nat_add_distrib)
  qed
qed

subsection \<open>Code fences\<close>

inductive fence_form :: "string \<Rightarrow> char \<Rightarrow> int \<Rightarrow> string \<Rightarrow> bool" where
  "k \<le> 3 \<Longrightarrow> c = BACKTICK \<or> c = TILDE \<Longrightarrow> 3 \<le> n \<Longrightarrow> rest = [] \<or> hd rest \<noteq> c \<Longrightarrow>
     c \<noteq> BACKTICK \<or> BACKTICK \<notin> set rest \<Longrightarrow>
     fence_form (replicate k SP @ replicate n c @ rest) c (int n) rest"

lemma fence_iff:
  "fenceMarker line = Some (c, n, info) \<longleftrightarrow>
     (\<exists>rest. fence_form line c n rest \<and> info = (TrimSpace rest \<noteq> []))"
proof
  assume f: "fenceMarker line = Some (c, n, info)"
  then have c: "byte_at line (skip_byte SP line 0) = Some c" "c = BACKTICK \<or> c = TILDE"
    by (auto simp: fenceMarker_def Let_def split: if_splits option.splits)
  from scanned_line [OF c(1)] obtain k m rest where l:
    "line = replicate k SP @ replicate m c @ rest" "rest = [] \<or> hd rest \<noteq> c"
    "skip_byte SP line 0 = int k" "skip_byte c line (int k) = int (k + m)" "drop (k + m) line = rest"
    by metis
  have n: "n = int m" "k \<le> 3" "3 \<le> m" "c \<noteq> BACKTICK \<or> BACKTICK \<notin> set rest"
    "info = (TrimSpace rest \<noteq> [])"
    using f c(1) l(3-5) by (auto simp: fenceMarker_def Let_def nat_add_distrib split: if_splits)
  then show "\<exists>rest. fence_form line c n rest \<and> info = (TrimSpace rest \<noteq> [])"
    using fence_form.intros [OF n(2) c(2) n(3) l(2) n(4)] l(1) by blast
next
  assume "\<exists>rest. fence_form line c n rest \<and> info = (TrimSpace rest \<noteq> [])"
  then obtain rest where "fence_form line c n rest" and info: "info = (TrimSpace rest \<noteq> [])" by blast
  then show "fenceMarker line = Some (c, n, info)"
  proof cases
    case (1 k m)
    have m: "1 \<le> m" "c \<noteq> SP" using 1(4,5) by auto
    note s = skip_indent [OF 1(1) m(2,1) 1(6)]
    show ?thesis
      using 1(2-7) s info by (auto simp: fenceMarker_def Let_def nat_add_distrib)
  qed
qed

text \<open>
  C40: The lines that \<open>Headings\<close> looks for are those of CommonMark that its comments describe: an ATX
  heading of level \<open>n\<close> is up to three spaces, \<open>n\<close> hashes (one to six), then a space, a tab or the
  end of the line; a setext underline is up to three spaces, a run of \<open>=\<close> or of \<open>-\<close>, then only
  spaces and tabs; a code fence is up to three spaces, three or more backticks or tildes, and an
  info string, which after backticks has no backtick.
\<close>

theorem Markdown_lines:
  "(0 < atxLevel line \<and> atxLevel line = n \<longleftrightarrow> atx_form line n)
   \<and> (setextUnderline line \<longleftrightarrow> setext_form line)
   \<and> (fenceMarker line = Some (c, m, info) \<longleftrightarrow>
        (\<exists>rest. fence_form line c m rest \<and> info = (TrimSpace rest \<noteq> [])))"
proof -
  have "0 < n" if "atx_form line n" using that by cases simp
  then have "0 < atxLevel line \<and> atxLevel line = n \<longleftrightarrow> atx_form line n"
    using atxLevel_form atxLevel_pos by blast
  then show ?thesis using setext_iff fence_iff by blast
qed

end
