(* ===== verification/Embed.thy ===== *)
theory Embed
  imports Chunk_Core
begin

text \<open>
  \<^verbatim>\<open>embed/embed.go\<close>: the embedding runner. What the runner uses from outside the
  repository (the context, the \<open>llms\<close> client and its error classification, the \<open>llms\<close>
  defaults) is the record \<open>Env\<close>, an argument of every definition that needs it. The client
  and the context act on a state \<open>'w\<close> that is threaded through every call, so a client may
  behave differently from call to call and the context may be canceled between any two of them.
  A result \<open>None\<close> is a run-time panic.
\<close>

subsection \<open>Data\<close>

definition DefaultMaxBatchInputs :: int where "DefaultMaxBatchInputs = 96"
definition DefaultMaxBatchTokens :: int where "DefaultMaxBatchTokens = 20000"

record Input =
  in_SourceID :: string
  in_ArtifactID :: string
  in_Chunk :: Chunk
  in_Title :: string
  in_Metadata :: "string \<rightharpoonup> string"

record ('f, 'm) Record =
  rec_SourceID :: string
  rec_ArtifactID :: string
  ChunkIndex :: int
  rec_Text :: string
  Vector :: "'f list"
  Model :: 'm
  rec_TokenCount :: int
  rec_Metadata :: "string \<rightharpoonup> string"

text \<open>The errors a failure can carry; the last three are \<open>ErrResponseMismatch\<close>.\<close>

datatype 'e EmbedError =
    ErrMissingArtifactID
  | ErrMissingSourceID
  | ErrEmptyText
  | ErrNegativeIndex
  | BatchFailed nat 'e
  | DuplicateVector string
  | VectorCount nat nat
  | NoVector nat

definition ErrResponseMismatch :: "'e EmbedError \<Rightarrow> bool" where
  "ErrResponseMismatch e \<longleftrightarrow>
     (case e of DuplicateVector _ \<Rightarrow> True | VectorCount _ _ \<Rightarrow> True | NoVector _ \<Rightarrow> True | _ \<Rightarrow> False)"

record 'e BatchFailure =
  bf_Inputs :: "Input list"
  bf_Err :: "'e EmbedError"
  Retryable :: bool

record ('f, 'm, 'e) RunResult =
  Records :: "('f, 'm) Record list"
  Failures :: "'e BatchFailure list"

record EmbedConfig =
  MaxBatchInputs :: int
  MaxBatchTokens :: int
  ec_Estimate :: "Estimate option"
  Task :: string
  Purpose :: string
  Dimensions :: int
  DisableBisect :: bool

record EmbeddingInput =
  ei_ID :: string
  ei_Text :: string
  ei_Title :: string

record EmbeddingRequest =
  rq_Inputs :: "EmbeddingInput list"
  rq_Purpose :: string
  rq_Dimensions :: int
  rq_Task :: string

record 'f EmbeddingVector =
  ev_ID :: string
  ev_Values :: "'f list"

text \<open>
  What the runner is given: the context, the client, the classification of its errors, the
  \<open>llms\<close> defaults, and the largest capacity the run-time can allocate for a batch.
\<close>

record ('w, 'e, 'f, 'm) Env =
  ctx_Err :: "'w \<Rightarrow> 'e option \<times> 'w"
  client_Embed :: "EmbeddingRequest \<Rightarrow> 'w \<Rightarrow> ('e + 'f EmbeddingVector list) \<times> 'w"
  client_Model :: 'm
  is_Canceled :: "'e \<Rightarrow> bool"
  llms_Retryable :: "'e \<Rightarrow> bool"
  llms_EstimateTextTokens :: Estimate
  llms_PurposeEmbedding :: string
  max_cap :: int

record indexedInput =
  pos :: nat
  inp :: Input
  tokens :: int

record 'e posFailure =
  pf_pos :: nat
  bf :: "'e BatchFailure"

text \<open>What \<open>embedBatch\<close> writes through its pointers, and the state outside.\<close>

record ('w, 'e, 'f, 'm) RunState =
  recordsByPos :: "nat \<rightharpoonup> ('f, 'm) Record"
  failures :: "'e posFailure list"
  world :: 'w

subsection \<open>Preparation of the inputs\<close>

definition withDefaults :: "('w, 'e, 'f, 'm) Env \<Rightarrow> EmbedConfig \<Rightarrow> EmbedConfig" where
  "withDefaults E c = c\<lparr>
     MaxBatchInputs := (if MaxBatchInputs c \<le> 0 then DefaultMaxBatchInputs else MaxBatchInputs c),
     MaxBatchTokens := (if MaxBatchTokens c \<le> 0 then DefaultMaxBatchTokens else MaxBatchTokens c),
     ec_Estimate := (case ec_Estimate c of None \<Rightarrow> Some (llms_EstimateTextTokens E) | f \<Rightarrow> f),
     Purpose := (if Purpose c = [] then llms_PurposeEmbedding E else Purpose c)\<rparr>"

definition validate :: "Input \<Rightarrow> 'e EmbedError option" where
  "validate i =
     (if in_ArtifactID i = [] then Some ErrMissingArtifactID
      else if in_SourceID i = [] then Some ErrMissingSourceID
      else if TrimSpace (Text (in_Chunk i)) = [] then Some ErrEmptyText
      else if Index (in_Chunk i) < 0 then Some ErrNegativeIndex
      else None)"

text \<open>Calling a nil estimator would panic; after \<open>withDefaults\<close> it never is nil.\<close>

definition tokensFor :: "Input \<Rightarrow> Estimate option \<Rightarrow> int option" where
  "tokensFor i est =
     (if 0 < TokenCount (in_Chunk i) then Some (TokenCount (in_Chunk i))
      else (case est of None \<Rightarrow> None | Some f \<Rightarrow> Some (f (Text (in_Chunk i)))))"

definition cloneInput :: "Input \<Rightarrow> Input" where
  "cloneInput i = i\<lparr>in_Metadata := (\<lambda>k. in_Metadata i k)\<rparr>"

fun validate_from ::
  "nat \<Rightarrow> Input list \<Rightarrow> Estimate option \<Rightarrow> ('e posFailure list \<times> indexedInput list) option" where
  "validate_from i [] est = Some ([], [])"
| "validate_from i (x # xs) est =
     (case validate x of
        Some err \<Rightarrow>
          do { r \<leftarrow> validate_from (i + 1) xs est;
               Some (\<lparr>pf_pos = i, bf = \<lparr>bf_Inputs = [cloneInput x], bf_Err = err,
                       Retryable = False\<rparr>\<rparr> # fst r, snd r) }
      | None \<Rightarrow>
          do { t \<leftarrow> tokensFor x est;
               r \<leftarrow> validate_from (i + 1) xs est;
               Some (fst r, \<lparr>pos = i, inp = x, tokens = t\<rparr> # snd r) })"

subsection \<open>Batches\<close>

text \<open>\<open>make([]indexedInput, 0, n)\<close> panics for a capacity the run-time cannot allocate.\<close>

definition make_batch :: "int \<Rightarrow> int \<Rightarrow> indexedInput list option" where
  "make_batch cap n = (if 0 \<le> n \<and> n \<le> cap then Some [] else None)"

fun pack_from ::
  "int \<Rightarrow> indexedInput list \<Rightarrow> int \<Rightarrow> int \<Rightarrow> indexedInput list \<Rightarrow> int \<Rightarrow> indexedInput list list option"
  where
  "pack_from cap [] maxInputs maxToks cur curTok =
     Some (if 0 < length cur then [cur] else [])"
| "pack_from cap (it # items) maxInputs maxToks cur curTok =
     (if 0 < length cur \<and> (maxInputs \<le> len cur \<or> maxToks < add64 curTok (tokens it))
      then do { cur' \<leftarrow> make_batch cap maxInputs;
                bs \<leftarrow> pack_from cap items maxInputs maxToks (cur' @ [it]) (add64 0 (tokens it));
                Some (cur # bs) }
      else pack_from cap items maxInputs maxToks (cur @ [it]) (add64 curTok (tokens it)))"

definition packBatches ::
  "int \<Rightarrow> indexedInput list \<Rightarrow> int \<Rightarrow> int \<Rightarrow> indexedInput list list option" where
  "packBatches cap items maxInputs maxToks =
     do { cur \<leftarrow> make_batch cap maxInputs; pack_from cap items maxInputs maxToks cur 0 }"

subsection \<open>One batch\<close>

definition requestID :: "nat \<Rightarrow> string" where
  "requestID p = ''in-'' @ Itoa_nat p"

definition batchRequest :: "EmbedConfig \<Rightarrow> indexedInput list \<Rightarrow> EmbeddingRequest" where
  "batchRequest cfg batch = \<lparr>
     rq_Inputs = map (\<lambda>it. \<lparr>ei_ID = requestID (pos it), ei_Text = Text (in_Chunk (inp it)),
                            ei_Title = in_Title (inp it)\<rparr>) batch,
     rq_Purpose = Purpose cfg, rq_Dimensions = Dimensions cfg, rq_Task = Task cfg\<rparr>"

text \<open>The smallest position of the batch; \<open>batch[0]\<close> of an empty batch is a panic.\<close>

definition addBatchFailure ::
  "'e posFailure list \<Rightarrow> indexedInput list \<Rightarrow> 'e EmbedError \<Rightarrow> bool \<Rightarrow> 'e posFailure list option"
  where
  "addBatchFailure fs batch err retry =
     (case batch of [] \<Rightarrow> None
      | it # _ \<Rightarrow>
          Some (fs @ [\<lparr>pf_pos = foldl (\<lambda>m x. if pos x < m then pos x else m) (pos it) batch,
                       bf = \<lparr>bf_Inputs = map (\<lambda>x. cloneInput (inp x)) batch, bf_Err = err,
                             Retryable = retry\<rparr>\<rparr>]))"

text \<open>\<open>byID\<close> as an association list without duplicate keys, so its length is the map's.\<close>

fun byID :: "'f EmbeddingVector list \<Rightarrow> (string \<times> 'f list) list \<Rightarrow> string + (string \<times> 'f list) list" where
  "byID [] m = Inr m"
| "byID (v # vs) m =
     (if map_of m (ev_ID v) \<noteq> None then Inl (ev_ID v) else byID vs (m @ [(ev_ID v, ev_Values v)]))"

definition makeRecord :: "'m \<Rightarrow> indexedInput \<Rightarrow> 'f list \<Rightarrow> ('f, 'm) Record" where
  "makeRecord model it vals = \<lparr>
     rec_SourceID = in_SourceID (inp it), rec_ArtifactID = in_ArtifactID (inp it),
     ChunkIndex = Index (in_Chunk (inp it)), rec_Text = Text (in_Chunk (inp it)), Vector = vals,
     Model = model, rec_TokenCount = tokens it, rec_Metadata = (\<lambda>k. in_Metadata (inp it) k)\<rparr>"

text \<open>
  The loop that records the batch: the position without a vector where it stops (if any), and
  the records written until then.
\<close>

fun record_loop ::
  "'m \<Rightarrow> (string \<times> 'f list) list \<Rightarrow> indexedInput list \<Rightarrow> (nat \<rightharpoonup> ('f, 'm) Record) \<Rightarrow>
   nat option \<times> (nat \<rightharpoonup> ('f, 'm) Record)" where
  "record_loop model m [] recs = (None, recs)"
| "record_loop model m (it # batch) recs =
     (case map_of m (requestID (pos it)) of
        None \<Rightarrow> (Some (pos it), recs)
      | Some vals \<Rightarrow> record_loop model m batch (recs(pos it \<mapsto> makeRecord model it vals)))"

text \<open>What a response without a client error does.\<close>

definition settle ::
  "'m \<Rightarrow> indexedInput list \<Rightarrow> 'f EmbeddingVector list \<Rightarrow> ('w, 'e, 'f, 'm) RunState \<Rightarrow>
   ('w, 'e, 'f, 'm) RunState option" where
  "settle model batch vectors st =
     (case byID vectors [] of
        Inl d \<Rightarrow> do { fs \<leftarrow> addBatchFailure (failures st) batch (DuplicateVector d) False;
                      Some (st\<lparr>failures := fs\<rparr>) }
      | Inr m \<Rightarrow>
          if length m \<noteq> length batch
          then do { fs \<leftarrow> addBatchFailure (failures st) batch
                            (VectorCount (length m) (length batch)) False;
                    Some (st\<lparr>failures := fs\<rparr>) }
          else (case record_loop model m batch (recordsByPos st) of
                  (None, recs) \<Rightarrow> Some (st\<lparr>recordsByPos := recs\<rparr>)
                | (Some p, recs) \<Rightarrow>
                    do { fs \<leftarrow> addBatchFailure (failures st) batch (NoVector p) False;
                         Some (st\<lparr>recordsByPos := recs, failures := fs\<rparr>) }))"

text \<open>
  \<open>embedBatch\<close>: the error is \<open>Some\<close> when the run is canceled, with the error the code wraps.
\<close>

function embedBatch ::
  "('w, 'e, 'f, 'm) Env \<Rightarrow> EmbedConfig \<Rightarrow> indexedInput list \<Rightarrow> ('w, 'e, 'f, 'm) RunState \<Rightarrow>
   ('e option \<times> ('w, 'e, 'f, 'm) RunState) option" where
  "embedBatch E cfg batch st =
     (case client_Embed E (batchRequest cfg batch) (world st) of
        (Inr vectors, w) \<Rightarrow>
          do { st' \<leftarrow> settle (client_Model E) batch vectors (st\<lparr>world := w\<rparr>); Some (None, st') }
      | (Inl err, w) \<Rightarrow>
          (case ctx_Err E w of
             (Some ce, w') \<Rightarrow> Some (Some ce, st\<lparr>world := w'\<rparr>)
           | (None, w') \<Rightarrow>
               if is_Canceled E err then Some (Some err, st\<lparr>world := w'\<rparr>)
               else if \<not> DisableBisect cfg \<and> 1 < length batch
               then do { r \<leftarrow> embedBatch E cfg (take (length batch div 2) batch) (st\<lparr>world := w'\<rparr>);
                         (case fst r of
                            Some e \<Rightarrow> Some r
                          | None \<Rightarrow> embedBatch E cfg (drop (length batch div 2) batch) (snd r)) }
               else do { fs \<leftarrow> addBatchFailure (failures st) batch
                                 (BatchFailed (length batch) err) (llms_Retryable E err);
                         Some (None, st\<lparr>failures := fs, world := w'\<rparr>) }))"
  by pat_completeness auto
termination
  by (relation "measure (\<lambda>(E, cfg, batch, st). length batch)") auto

declare embedBatch.simps [simp del]

subsection \<open>The run\<close>

fun run_batches ::
  "('w, 'e, 'f, 'm) Env \<Rightarrow> EmbedConfig \<Rightarrow> indexedInput list list \<Rightarrow> ('w, 'e, 'f, 'm) RunState \<Rightarrow>
   ('e option \<times> ('w, 'e, 'f, 'm) RunState) option" where
  "run_batches E cfg [] st = Some (None, st)"
| "run_batches E cfg (batch # batches) st =
     (case ctx_Err E (world st) of
        (Some ce, w) \<Rightarrow> Some (Some ce, st\<lparr>world := w\<rparr>)
      | (None, w) \<Rightarrow>
          do { r \<leftarrow> embedBatch E cfg batch (st\<lparr>world := w\<rparr>);
               (case fst r of Some e \<Rightarrow> Some r | None \<Rightarrow> run_batches E cfg batches (snd r)) })"

definition assemble ::
  "nat \<Rightarrow> (nat \<rightharpoonup> ('f, 'm) Record) \<Rightarrow> 'e posFailure list \<Rightarrow> ('f, 'm, 'e) RunResult" where
  "assemble n recs fs = \<lparr>
     Records = List.map_filter recs [0..<n],
     Failures = map bf (sort_key pf_pos fs)\<rparr>"

definition Run ::
  "('w, 'e, 'f, 'm) Env \<Rightarrow> Input list \<Rightarrow> EmbedConfig \<Rightarrow> 'w \<Rightarrow>
   (('f, 'm, 'e) RunResult \<times> 'e option \<times> 'w) option" where
  "Run E inputs cfg0 w =
     (let cfg = withDefaults E cfg0 in
      do { v \<leftarrow> validate_from 0 inputs (ec_Estimate cfg);
           batches \<leftarrow> packBatches (max_cap E) (snd v) (MaxBatchInputs cfg) (MaxBatchTokens cfg);
           r \<leftarrow> run_batches E cfg batches
                  \<lparr>recordsByPos = Map.empty, failures = fst v, world = w\<rparr>;
           Some (assemble (length inputs) (recordsByPos (snd r)) (failures (snd r)),
                 fst r, world (snd r)) })"

declare DefaultMaxBatchInputs_def [go_eval] DefaultMaxBatchTokens_def [go_eval]
  withDefaults_def [go_eval] validate_def [go_eval] tokensFor_def [go_eval] cloneInput_def [go_eval]
  validate_from.simps [go_eval] make_batch_def [go_eval] pack_from.simps [go_eval]
  packBatches_def [go_eval] requestID_def [go_eval]
  batchRequest_def [go_eval] addBatchFailure_def [go_eval] byID.simps [go_eval]
  makeRecord_def [go_eval] record_loop.simps [go_eval] settle_def [go_eval]
  embedBatch.simps [go_eval] run_batches.simps [go_eval] assemble_def [go_eval] Run_def [go_eval]

end
