(* ===== verification/Embed_Correct.thy ===== *)
theory Embed_Correct
  imports Embed
begin

text \<open>
  The correctness of the embedding runner. \<open>outcome\<close> says what a batch adds to the state;
  it is shown for \<open>embedBatch\<close> by induction on the size of the batch, carried through the
  batches of a run, and read off the assembled result.
\<close>

subsection \<open>Request identifiers\<close>

definition read_digits :: "string \<Rightarrow> nat" where
  "read_digits s = foldl (\<lambda>a c. 10 * a + (of_char c - 48)) 0 s"

lemma read_Itoa: "read_digits (Itoa_nat n) = n"
proof (induction n rule: Itoa_nat.induct)
  case (1 n)
  have d: "of_char (char_of (48 + k) :: char) - 48 = k" if "k < 10" for k :: nat
    using that by simp
  show ?case
  proof (cases "n < 10")
    case True
    then show ?thesis using d by (simp add: Itoa_nat.simps read_digits_def)
  next
    case False
    then show ?thesis
      using "1.IH" d [of "n mod 10"] by (subst Itoa_nat.simps) (simp add: read_digits_def)
  qed
qed

lemma requestID_inj [simp]: "requestID p = requestID q \<longleftrightarrow> p = q"
  by (metis read_Itoa requestID_def same_append_eq)

subsection \<open>What a batch adds\<close>

abbreviation "positions batch \<equiv> map pos batch"

definition covers_item :: "'e posFailure list \<Rightarrow> indexedInput \<Rightarrow> bool" where
  "covers_item F it \<longleftrightarrow> (\<exists>f \<in> set F. inp it \<in> set (bf_Inputs (bf f)))"

definition fails_of :: "indexedInput list \<Rightarrow> 'e posFailure \<Rightarrow> bool" where
  "fails_of batch f \<longleftrightarrow>
     (\<exists>sub. sub \<noteq> [] \<and> set sub \<subseteq> set batch \<and> bf_Inputs (bf f) = map inp sub
        \<and> pf_pos f = Min (pos ` set sub))"

definition outcome ::
  "'m \<Rightarrow> (indexedInput \<Rightarrow> 'f list \<Rightarrow> bool) \<Rightarrow> indexedInput list \<Rightarrow> bool \<Rightarrow>
   (nat \<rightharpoonup> ('f, 'm) Record) \<Rightarrow> 'e posFailure list \<Rightarrow> bool" where
  "outcome model good batch complete R F \<longleftrightarrow>
     (\<forall>p r. R p = Some r \<longrightarrow>
        (\<exists>it \<in> set batch. \<exists>vals. pos it = p \<and> good it vals \<and> r = makeRecord model it vals))
     \<and> list_all (fails_of batch) F
     \<and> (complete \<longrightarrow> (\<forall>it \<in> set batch. pos it \<in> dom R \<or> covers_item F it))"

lemma outcome_nothing: "outcome model good batch False Map.empty []"
  by (simp add: outcome_def)

lemma outcome_append:
  assumes "outcome model good b1 c1 R1 F1" and "outcome model good b2 c2 R2 F2"
    and "set b1 \<subseteq> set b" and "set b2 \<subseteq> set b" and "c \<Longrightarrow> c1 \<and> c2 \<and> set b = set b1 \<union> set b2"
  shows "outcome model good b c (R1 ++ R2) (F1 @ F2)"
proof -
  have f: "list_all (fails_of b) (F1 @ F2)"
    using assms(1-4) by (auto simp: outcome_def fails_of_def list_all_iff) (meson subset_trans)+
  show ?thesis
    using assms f by (auto simp: outcome_def map_add_Some_iff covers_item_def; blast)
qed

lemma cloneInput_id [simp]: "cloneInput i = i"
  by (simp add: cloneInput_def)

lemma foldl_min: "foldl (\<lambda>m x. if pos x < m then pos x else m) m xs = Min (insert m (pos ` set xs))"
proof (induction xs arbitrary: m)
  case (Cons x xs)
  have "Min (insert m (insert (pos x) (pos ` set xs)))
      = Min (insert (min (pos x) m) (pos ` set xs))"
    by (cases "xs = []") (simp_all add: Min_insert ac_simps)
  then show ?case using Cons by (simp add: min_def insert_commute)
qed simp

text \<open>A whole batch reported as failed covers it.\<close>

lemma addBatchFailure_spec:
  assumes "batch \<noteq> []"
  obtains f where "addBatchFailure fs batch err retry = Some (fs @ [f])"
    and "bf_Inputs (bf f) = map inp batch" and "pf_pos f = Min (pos ` set batch)"
    and "bf_Err (bf f) = err" and "Retryable (bf f) = retry" and "fails_of batch f"
proof -
  obtain it its where b: "batch = it # its" using assms by (cases batch) auto
  let ?f = "\<lparr>pf_pos = Min (pos ` set batch), bf = \<lparr>bf_Inputs = map inp batch, bf_Err = err,
      Retryable = retry\<rparr>\<rparr>"
  have "addBatchFailure fs batch err retry = Some (fs @ [?f])"
    by (simp add: addBatchFailure_def b foldl_min)
  then show ?thesis
    by (rule that) (use assms in \<open>auto simp: fails_of_def intro!: exI [of _ batch]\<close>)
qed

lemma byID_spec:
  "byID vs m = Inr m' \<Longrightarrow> distinct (map fst m) \<Longrightarrow>
     m' = m @ map (\<lambda>v. (ev_ID v, ev_Values v)) vs \<and> distinct (map fst m')"
proof (induction vs m rule: byID.induct)
  case (2 v vs m)
  have n: "ev_ID v \<notin> fst ` set m"
    using "2.prems"(1) by (auto simp: map_of_eq_None_iff split: if_splits)
  then have "byID vs (m @ [(ev_ID v, ev_Values v)]) = Inr m'"
    using "2.prems"(1) by (simp add: map_of_eq_None_iff)
  then have "m' = (m @ [(ev_ID v, ev_Values v)]) @ map (\<lambda>v. (ev_ID v, ev_Values v)) vs
      \<and> distinct (map fst m')"
    by (rule "2.IH" [rotated]) (use n "2.prems"(2) in \<open>simp_all add: map_of_eq_None_iff\<close>)
  note this [THEN conjunct1, simplified] this [THEN conjunct2]
  then show ?case by (intro conjI) simp_all
qed simp

lemma record_loop_spec:
  assumes "record_loop model m batch recs = (stop, recs')"
  shows "\<exists>R. recs' = recs ++ R
    \<and> (\<forall>p r. R p = Some r \<longrightarrow> (\<exists>it \<in> set batch. \<exists>vals. pos it = p
         \<and> map_of m (requestID p) = Some vals \<and> r = makeRecord model it vals))
    \<and> (stop = None \<longrightarrow> pos ` set batch \<subseteq> dom R)"
  using assms
proof (induction model m batch recs rule: record_loop.induct)
  case (1 model m recs)
  then show ?case by (intro exI [of _ Map.empty]) simp
next
  case (2 model m it batch recs)
  show ?case
  proof (cases "map_of m (requestID (pos it))")
    case None
    then show ?thesis using "2.prems" by (intro exI [of _ Map.empty]) auto
  next
    case (Some vals)
    have run: "record_loop model m batch (recs(pos it \<mapsto> makeRecord model it vals)) = (stop, recs')"
      using "2.prems" Some by simp
    from "2.IH" [OF Some run] obtain R where R: "recs' = recs(pos it \<mapsto> makeRecord model it vals) ++ R"
      "\<forall>p r. R p = Some r \<longrightarrow> (\<exists>it \<in> set batch. \<exists>vals. pos it = p
         \<and> map_of m (requestID p) = Some vals \<and> r = makeRecord model it vals)"
      "stop = None \<longrightarrow> pos ` set batch \<subseteq> dom R"
      by blast
    then show ?thesis
      using Some by (intro exI [of _ "[pos it \<mapsto> makeRecord model it vals] ++ R"])
        (auto simp: map_add_Some_iff split: if_splits)
  qed
qed

subsection \<open>A response that was accepted or refused\<close>

text \<open>The vectors of a response are good for the inputs that carry their identifiers.\<close>

definition good_for :: "(string \<Rightarrow> 'f list \<Rightarrow> bool) \<Rightarrow> EmbeddingRequest \<Rightarrow> 'f EmbeddingVector list \<Rightarrow> bool"
  where
  "good_for good req vs \<longleftrightarrow>
     (\<forall>v \<in> set vs. \<forall>i \<in> set (rq_Inputs req). ei_ID i = ev_ID v \<longrightarrow> good (ei_Text i) (ev_Values v))"

abbreviation good_item :: "(string \<Rightarrow> 'f list \<Rightarrow> bool) \<Rightarrow> indexedInput \<Rightarrow> 'f list \<Rightarrow> bool" where
  "good_item good it vals \<equiv> good (Text (in_Chunk (inp it))) vals"

lemma settle_spec:
  assumes ne: "batch \<noteq> []" and g: "good_for good (batchRequest cfg batch) vs"
  obtains R F where "settle model batch vs st =
      Some (st\<lparr>recordsByPos := recordsByPos st ++ R, failures := failures st @ F\<rparr>)"
    and "outcome model (good_item good) batch True R F"
proof (cases "byID vs []")
  case (Inl d)
  obtain f where f: "addBatchFailure (failures st) batch (DuplicateVector d) False = Some (failures st @ [f])"
    "bf_Inputs (bf f) = map inp batch" "fails_of batch f"
    using addBatchFailure_spec [OF ne] by metis
  show ?thesis
    by (rule that [where R = Map.empty and F = "[f]"])
      (use f Inl in \<open>auto simp: settle_def outcome_def covers_item_def\<close>)
next
  case (Inr m)
  have m: "m = map (\<lambda>v. (ev_ID v, ev_Values v)) vs" using byID_spec [OF Inr] by simp
  show ?thesis
  proof (cases "length m = length batch")
    case False
    obtain f where f: "addBatchFailure (failures st) batch (VectorCount (length m) (length batch)) False
        = Some (failures st @ [f])" "bf_Inputs (bf f) = map inp batch" "fails_of batch f"
      using addBatchFailure_spec [OF ne] by metis
    show ?thesis
      by (rule that [where R = Map.empty and F = "[f]"])
        (use f Inr False in \<open>auto simp: settle_def outcome_def covers_item_def\<close>)
  next
    case True
    obtain stop recs' where rl: "record_loop model m batch (recordsByPos st) = (stop, recs')"
      by fastforce
    obtain R where R: "recs' = recordsByPos st ++ R"
      "\<And>p r. R p = Some r \<Longrightarrow> \<exists>it \<in> set batch. \<exists>vals. pos it = p
         \<and> map_of m (requestID p) = Some vals \<and> r = makeRecord model it vals"
      "stop = None \<Longrightarrow> pos ` set batch \<subseteq> dom R"
      using record_loop_spec [OF rl] by blast
    have gv: "good_item good it vals" if ib: "it \<in> set batch"
      and mv: "map_of m (requestID (pos it)) = Some vals" for it vals
    proof -
      obtain v where "v \<in> set vs" "ev_ID v = requestID (pos it)" "ev_Values v = vals"
        using map_of_SomeD [OF mv] by (auto simp: m)
      then show ?thesis using g ib by (auto simp: good_for_def batchRequest_def)
    qed
    have rs: "\<exists>it \<in> set batch. \<exists>vals. pos it = p \<and> good_item good it vals \<and> r = makeRecord model it vals"
      if "R p = Some r" for p r
      using R(2) [OF that] gv by blast
    show ?thesis
    proof (cases stop)
      case None
      show ?thesis
        by (rule that [where R = R and F = "[]"])
          (use None R(1,3) rl rs Inr True in \<open>auto simp: settle_def outcome_def\<close>)
    next
      case (Some p)
      obtain f where f: "addBatchFailure (failures st) batch (NoVector p) False = Some (failures st @ [f])"
        "bf_Inputs (bf f) = map inp batch" "fails_of batch f"
        using addBatchFailure_spec [OF ne] by metis
      show ?thesis
        by (rule that [where R = R and F = "[f]"])
          (use Some f R(1) rl rs Inr True in \<open>auto simp: settle_def outcome_def covers_item_def\<close>)
    qed
  qed
qed

subsection \<open>One batch, with bisection\<close>

definition faithful :: "('w, 'e, 'f, 'm) Env \<Rightarrow> (string \<Rightarrow> 'f list \<Rightarrow> bool) \<Rightarrow> bool" where
  "faithful E good \<longleftrightarrow>
     (\<forall>req w vs w'. distinct (map ei_ID (rq_Inputs req)) \<longrightarrow>
        client_Embed E req w = (Inr vs, w') \<longrightarrow> good_for good req vs)"

lemma faithful_trivial: "faithful E (\<lambda>_ _. True)"
  by (simp add: faithful_def good_for_def)

text \<open>The step a batch takes, by what the client and the context say.\<close>

lemma embedBatch_answer:
  "client_Embed E (batchRequest cfg batch) (world st) = (Inr vs, w) \<Longrightarrow>
   embedBatch E cfg batch st =
     do { st' \<leftarrow> settle (client_Model E) batch vs (st\<lparr>world := w\<rparr>); Some (None, st') }"
  by (subst embedBatch.simps) simp

lemma embedBatch_canceled:
  assumes "client_Embed E (batchRequest cfg batch) (world st) = (Inl err, w)"
    and "ctx_Err E w = (c, w')" and "c \<noteq> None \<or> is_Canceled E err"
  shows "\<exists>e. embedBatch E cfg batch st = Some (Some e, st\<lparr>world := w'\<rparr>)"
  using assms by (subst embedBatch.simps) (auto split: option.splits)

lemma embedBatch_bisect:
  assumes "client_Embed E (batchRequest cfg batch) (world st) = (Inl err, w)"
    and "ctx_Err E w = (None, w')" and "\<not> is_Canceled E err"
    and "\<not> DisableBisect cfg" and "1 < length batch"
  shows "embedBatch E cfg batch st =
    do { r \<leftarrow> embedBatch E cfg (take (length batch div 2) batch) (st\<lparr>world := w'\<rparr>);
         (case fst r of
            Some e \<Rightarrow> Some r
          | None \<Rightarrow> embedBatch E cfg (drop (length batch div 2) batch) (snd r)) }"
  using assms by (subst embedBatch.simps) simp

lemma embedBatch_fail:
  assumes "client_Embed E (batchRequest cfg batch) (world st) = (Inl err, w)"
    and "ctx_Err E w = (None, w')" and "\<not> is_Canceled E err"
    and "DisableBisect cfg \<or> \<not> 1 < length batch"
  shows "embedBatch E cfg batch st =
    do { fs \<leftarrow> addBatchFailure (failures st) batch (BatchFailed (length batch) err)
                 (llms_Retryable E err);
         Some (None, st\<lparr>failures := fs, world := w'\<rparr>) }"
  using assms by (subst embedBatch.simps) auto

lemma halves:
  assumes "1 < length (batch :: 'a list)"
  shows "take (length batch div 2) batch \<noteq> []" "drop (length batch div 2) batch \<noteq> []"
    "length (take (length batch div 2) batch) < length batch"
    "length (drop (length batch div 2) batch) < length batch"
    "set batch = set (take (length batch div 2) batch) \<union> set (drop (length batch div 2) batch)"
proof -
  show "set batch = set (take (length batch div 2) batch) \<union> set (drop (length batch div 2) batch)"
    by (metis append_take_drop_id set_append)
qed (use assms in auto)

lemma halves_distinct:
  assumes "distinct (positions batch)"
  shows "distinct (positions (take n batch))" "distinct (positions (drop n batch))"
  using assms by (auto simp flip: take_map drop_map intro: distinct_take distinct_drop)

lemma request_distinct:
  "distinct (positions batch) \<Longrightarrow> distinct (map ei_ID (rq_Inputs (batchRequest cfg batch)))"
  by (auto simp: batchRequest_def comp_def distinct_map inj_on_def)

lemma embedBatch_outcome:
  assumes "batch \<noteq> []" and "faithful E good" and "distinct (positions batch)"
  shows "\<exists>err R F w. embedBatch E cfg batch st = Some (err,
      \<lparr>recordsByPos = recordsByPos st ++ R, failures = failures st @ F, world = w\<rparr>)
    \<and> outcome (client_Model E) (good_item good) batch (err = None) R F"
  using assms(1,3)
proof (induction "length batch" arbitrary: batch st rule: less_induct)
  case less
  note d = halves_distinct [OF less.prems(2)]
  obtain r w where cl: "client_Embed E (batchRequest cfg batch) (world st) = (r, w)" by fastforce
  show ?case
  proof (cases r)
    case (Inr vs)
    then have gf: "good_for good (batchRequest cfg batch) vs"
      using assms(2) cl request_distinct [OF less.prems(2)] by (auto simp: faithful_def)
    let ?st1 = "st\<lparr>world := w\<rparr>"
    from settle_spec [OF less.prems(1) gf, of "client_Model E" ?st1]
    obtain R F where "settle (client_Model E) batch vs ?st1 =
        Some (?st1\<lparr>recordsByPos := recordsByPos ?st1 ++ R, failures := failures ?st1 @ F\<rparr>)"
      and o: "outcome (client_Model E) (good_item good) batch True R F" .
    then have "embedBatch E cfg batch st = Some (None,
        \<lparr>recordsByPos = recordsByPos st ++ R, failures = failures st @ F, world = w\<rparr>)"
      using embedBatch_answer [OF cl [unfolded Inr]] by simp
    with o show ?thesis
      by (intro exI [of _ None] exI [of _ R] exI [of _ F] exI [of _ w]) simp
  next
    case (Inl err)
    obtain c w' where cx: "ctx_Err E w = (c, w')" by fastforce
    show ?thesis
    proof (cases "c \<noteq> None \<or> is_Canceled E err")
      case True
      then obtain e where "embedBatch E cfg batch st = Some (Some e, st\<lparr>world := w'\<rparr>)"
        using embedBatch_canceled cl Inl cx by metis
      then show ?thesis
        by (intro exI [of _ "Some e"] exI [of _ Map.empty] exI [of _ "[]"] exI [of _ w'])
          (simp add: outcome_nothing)
    next
      case nc: False
      then have cx': "ctx_Err E w = (None, w')" and ncan: "\<not> is_Canceled E err" using cx by auto
      show ?thesis
      proof (cases "\<not> DisableBisect cfg \<and> 1 < length batch")
        case True
        let ?b1 = "take (length batch div 2) batch" and ?b2 = "drop (length batch div 2) batch"
        have len: "1 < length batch" using True by simp
        note h = halves [OF len]
        note step = embedBatch_bisect [OF cl [unfolded Inl] cx' ncan _ len]
        obtain err1 R1 F1 w1 where 1: "embedBatch E cfg ?b1 (st\<lparr>world := w'\<rparr>) = Some (err1,
            \<lparr>recordsByPos = recordsByPos st ++ R1, failures = failures st @ F1, world = w1\<rparr>)"
          and o1: "outcome (client_Model E) (good_item good) ?b1 (err1 = None) R1 F1"
          using less.hyps [OF h(3,1) d(1), of "st\<lparr>world := w'\<rparr>"] by auto
        show ?thesis
        proof (cases err1)
          case (Some e)
          have "outcome (client_Model E) (good_item good) batch False R1 F1"
            using outcome_append [OF o1 outcome_nothing [of _ _ ?b1], of batch False] h(5) by simp
          then show ?thesis using step 1 Some True by fastforce
        next
          case None
          obtain err2 R2 F2 w2 where 2: "embedBatch E cfg ?b2
              \<lparr>recordsByPos = recordsByPos st ++ R1, failures = failures st @ F1, world = w1\<rparr> =
              Some (err2, \<lparr>recordsByPos = (recordsByPos st ++ R1) ++ R2,
                failures = (failures st @ F1) @ F2, world = w2\<rparr>)"
            and o2: "outcome (client_Model E) (good_item good) ?b2 (err2 = None) R2 F2"
            using less.hyps [OF h(4,2) d(2), of "\<lparr>recordsByPos = recordsByPos st ++ R1,
                failures = failures st @ F1, world = w1\<rparr>"] by auto
          have "outcome (client_Model E) (good_item good) batch (err2 = None) (R1 ++ R2) (F1 @ F2)"
            using outcome_append [OF o1 o2, of batch] None h(5) by blast
          moreover have "embedBatch E cfg batch st = Some (err2, \<lparr>recordsByPos =
              recordsByPos st ++ (R1 ++ R2), failures = failures st @ (F1 @ F2), world = w2\<rparr>)"
            using step 1 2 None True by simp
          ultimately show ?thesis by blast
        qed
      next
        case False
        obtain f where f: "addBatchFailure (failures st) batch (BatchFailed (length batch) err)
            (llms_Retryable E err) = Some (failures st @ [f])" "bf_Inputs (bf f) = map inp batch"
          "fails_of batch f"
          using addBatchFailure_spec [OF less.prems(1)] by metis
        have "embedBatch E cfg batch st = Some (None, \<lparr>recordsByPos = recordsByPos st ++ Map.empty,
            failures = failures st @ [f], world = w'\<rparr>)"
          using embedBatch_fail [OF cl [unfolded Inl] cx' ncan] False f(1) by auto
        moreover have "outcome (client_Model E) (good_item good) batch True Map.empty [f]"
          using f(2,3) by (auto simp: outcome_def covers_item_def)
        ultimately show ?thesis
          by (intro exI [of _ None] exI [of _ Map.empty] exI [of _ "[f]"] exI [of _ w']) simp
      qed
    qed
  qed
qed

subsection \<open>Packing and validation\<close>

definition batch_tokens :: "indexedInput list \<Rightarrow> int" where
  "batch_tokens b = foldl add64 0 (map tokens b)"

definition batch_ok :: "int \<Rightarrow> int \<Rightarrow> indexedInput list \<Rightarrow> bool" where
  "batch_ok maxInputs maxToks b \<longleftrightarrow>
     b \<noteq> [] \<and> len b \<le> maxInputs \<and> (batch_tokens b \<le> maxToks \<or> length b = 1)"

text \<open>The batch was closed because the next input did not fit.\<close>

definition closed_by :: "int \<Rightarrow> int \<Rightarrow> indexedInput list \<Rightarrow> indexedInput list \<Rightarrow> bool" where
  "closed_by maxInputs maxToks b b' \<longleftrightarrow>
     maxInputs \<le> len b \<or> maxToks < add64 (batch_tokens b) (tokens (hd b'))"

lemma pack_from_spec:
  assumes "1 \<le> maxInputs" and "maxInputs \<le> cap"
  shows "curTok = batch_tokens cur \<Longrightarrow> cur = [] \<or> batch_ok maxInputs maxToks cur \<Longrightarrow>
    \<exists>bs. pack_from cap items maxInputs maxToks cur curTok = Some bs
      \<and> concat bs = cur @ items \<and> list_all (batch_ok maxInputs maxToks) bs
      \<and> successively (closed_by maxInputs maxToks) bs
      \<and> (cur \<noteq> [] \<longrightarrow> bs \<noteq> [] \<and> take (length cur) (hd bs) = cur)"
proof (induction items arbitrary: cur curTok)
  case (Cons it items)
  let ?full = "0 < length cur \<and> (maxInputs \<le> len cur \<or> maxToks < add64 curTok (tokens it))"
  have one: "batch_ok maxInputs maxToks [it]" using assms by (simp add: batch_ok_def)
  show ?case
  proof (cases ?full)
    case True
    from Cons.IH [of "add64 0 (tokens it)" "[it]"] one
    obtain bs where bs: "pack_from cap items maxInputs maxToks [it] (add64 0 (tokens it)) = Some bs"
      "concat bs = it # items" "list_all (batch_ok maxInputs maxToks) bs"
      "successively (closed_by maxInputs maxToks) bs" "bs \<noteq> []" "take 1 (hd bs) = [it]"
      by (auto simp: batch_tokens_def)
    have "hd (hd bs) = it" using bs(6) by (cases "hd bs") auto
    then have "closed_by maxInputs maxToks cur (hd bs)"
      using True Cons.prems(1) by (simp add: closed_by_def)
    then have "successively (closed_by maxInputs maxToks) (cur # bs)"
      using bs(4,5) by (cases bs) auto
    then show ?thesis
      using True bs assms Cons.prems(2)
      by (intro exI [of _ "cur # bs"]) (auto simp: make_batch_def)
  next
    case False
    have "cur = [] \<or> (len cur < maxInputs \<and> add64 curTok (tokens it) \<le> maxToks)" using False by auto
    then have "batch_ok maxInputs maxToks (cur @ [it])"
      using one Cons.prems(1) by (auto simp: batch_ok_def batch_tokens_def)
    moreover have "add64 curTok (tokens it) = batch_tokens (cur @ [it])"
      using Cons.prems(1) by (simp add: batch_tokens_def)
    ultimately obtain bs where bs: "pack_from cap items maxInputs maxToks (cur @ [it])
        (add64 curTok (tokens it)) = Some bs" "concat bs = (cur @ [it]) @ items"
      "list_all (batch_ok maxInputs maxToks) bs" "successively (closed_by maxInputs maxToks) bs"
      "bs \<noteq> []" "take (length (cur @ [it])) (hd bs) = cur @ [it]"
      using Cons.IH [of "add64 curTok (tokens it)" "cur @ [it]"] by blast
    have "take (length cur) (hd bs) = cur"
      using arg_cong [OF bs(6), of "take (length cur)"] by (simp add: min_def)
    then show ?thesis using bs False by (intro exI [of _ bs]) auto
  qed
qed (auto simp: batch_ok_def)

lemma packBatches_spec:
  assumes "1 \<le> maxInputs" and "maxInputs \<le> cap"
  shows "\<exists>bs. packBatches cap items maxInputs maxToks = Some bs \<and> concat bs = items
    \<and> list_all (batch_ok maxInputs maxToks) bs \<and> successively (closed_by maxInputs maxToks) bs"
  using pack_from_spec [OF assms, of 0 "[]" maxToks items] assms
  by (auto simp: packBatches_def make_batch_def batch_tokens_def)

text \<open>The two lists validation produces, over the inputs with their positions.\<close>

definition item_at :: "Estimate \<Rightarrow> nat \<times> Input \<Rightarrow> indexedInput" where
  "item_at f x = \<lparr>pos = fst x, inp = snd x,
     tokens = (if 0 < TokenCount (in_Chunk (snd x)) then TokenCount (in_Chunk (snd x))
               else f (Text (in_Chunk (snd x))))\<rparr>"

definition invalid_at :: "nat \<times> Input \<Rightarrow> 'e posFailure" where
  "invalid_at x = \<lparr>pf_pos = fst x, bf = \<lparr>bf_Inputs = [snd x], bf_Err = the (validate (snd x)),
     Retryable = False\<rparr>\<rparr>"

definition is_valid :: "Input \<Rightarrow> bool" where
  "is_valid i \<longleftrightarrow> in_ArtifactID i \<noteq> [] \<and> in_SourceID i \<noteq> []
     \<and> TrimSpace (Text (in_Chunk i)) \<noteq> [] \<and> 0 \<le> Index (in_Chunk i)"

lemma validate_valid: "validate i = None \<longleftrightarrow> is_valid i"
  by (simp add: validate_def is_valid_def not_less)

lemma validate_from_spec:
  fixes f :: Estimate
  shows "validate_from i xs (Some f) = Some
     (map (invalid_at :: _ \<Rightarrow> 'e posFailure) (filter (\<lambda>x. \<not> is_valid (snd x)) (List.enumerate i xs)),
      map (item_at f) (filter (\<lambda>x. is_valid (snd x)) (List.enumerate i xs)))"
  (is "_ = Some (?F i xs, ?V i xs)")
proof (induction xs arbitrary: i)
  case (Cons x xs)
  have t: "tokensFor x (Some f) = Some (tokens (item_at f (i, x)))"
    by (simp add: tokensFor_def item_at_def)
  have it: "item_at f (i, x) = \<lparr>pos = i, inp = x, tokens = tokens (item_at f (i, x))\<rparr>"
    by (simp add: item_at_def)
  show ?case
  proof (cases "validate x :: 'e EmbedError option")
    case None
    then have v: "is_valid x" using validate_valid by blast
    have "?F i (x # xs) = ?F (i + 1) xs" "?V i (x # xs) = item_at f (i, x) # ?V (i + 1) xs"
      using v by simp_all
    moreover have "validate_from i (x # xs) (Some f) =
        Some (?F (i + 1) xs, item_at f (i, x) # ?V (i + 1) xs)"
      using Cons.IH [of "i + 1"] None t it by simp
    ultimately show ?thesis by simp
  next
    case (Some e)
    have v: "\<not> is_valid x"
    proof
      assume "is_valid x"
      then have "(validate x :: 'e EmbedError option) = None" by (simp add: validate_valid)
      with Some show False by simp
    qed
    have "invalid_at (i, x) = \<lparr>pf_pos = i, bf = \<lparr>bf_Inputs = [x], bf_Err = e, Retryable = False\<rparr>\<rparr>"
      using Some by (simp add: invalid_at_def)
    moreover have "?F i (x # xs) = invalid_at (i, x) # ?F (i + 1) xs" "?V i (x # xs) = ?V (i + 1) xs"
      using v by simp_all
    ultimately show ?thesis using Cons.IH [of "i + 1"] Some by simp
  qed
qed simp

subsection \<open>All batches of a run\<close>

lemma run_batches_outcome:
  assumes "faithful E good" and "list_all (\<lambda>b. b \<noteq> []) bs" and "distinct (positions (concat bs))"
  shows "\<exists>err R F w. run_batches E cfg bs st = Some (err,
      \<lparr>recordsByPos = recordsByPos st ++ R, failures = failures st @ F, world = w\<rparr>)
    \<and> outcome (client_Model E) (good_item good) (concat bs) (err = None) R F"
  using assms(2,3)
proof (induction bs arbitrary: st)
  case Nil
  then show ?case
    by (intro exI [of _ None] exI [of _ Map.empty] exI [of _ "[]"] exI [of _ "world st"])
      (simp add: outcome_def)
next
  case (Cons b bs)
  obtain c w where cx: "ctx_Err E (world st) = (c, w)" by fastforce
  show ?case
  proof (cases c)
    case (Some ce)
    then show ?thesis
      using cx by (intro exI [of _ "Some ce"] exI [of _ Map.empty] exI [of _ "[]"] exI [of _ w])
        (simp add: outcome_nothing)
  next
    case None
    obtain err R F w1 where 1: "embedBatch E cfg b (st\<lparr>world := w\<rparr>) = Some (err,
        \<lparr>recordsByPos = recordsByPos st ++ R, failures = failures st @ F, world = w1\<rparr>)"
      and o1: "outcome (client_Model E) (good_item good) b (err = None) R F"
      using embedBatch_outcome [OF _ assms(1), of b cfg "st\<lparr>world := w\<rparr>"] Cons.prems by auto
    show ?thesis
    proof (cases err)
      case (Some e)
      have "outcome (client_Model E) (good_item good) (concat (b # bs)) False R F"
        using outcome_append [OF o1 outcome_nothing [of _ _ b], of "concat (b # bs)" False] by simp
      then show ?thesis
        using 1 cx None Some
        by (intro exI [of _ err] exI [of _ R] exI [of _ F] exI [of _ w1]) simp
    next
      case err: None
      obtain err2 R2 F2 w2 where 2: "run_batches E cfg bs
          \<lparr>recordsByPos = recordsByPos st ++ R, failures = failures st @ F, world = w1\<rparr> =
          Some (err2, \<lparr>recordsByPos = (recordsByPos st ++ R) ++ R2,
            failures = (failures st @ F) @ F2, world = w2\<rparr>)"
        and o2: "outcome (client_Model E) (good_item good) (concat bs) (err2 = None) R2 F2"
        using Cons.IH [of "\<lparr>recordsByPos = recordsByPos st ++ R, failures = failures st @ F,
            world = w1\<rparr>"] Cons.prems by auto
      have "outcome (client_Model E) (good_item good) (concat (b # bs)) (err2 = None) (R ++ R2) (F @ F2)"
        by (rule outcome_append [OF o1 o2]) (use err in auto)
      moreover have "run_batches E cfg (b # bs) st = Some (err2,
          \<lparr>recordsByPos = recordsByPos st ++ (R ++ R2), failures = failures st @ (F @ F2), world = w2\<rparr>)"
        using 1 2 cx None err by simp
      ultimately show ?thesis by blast
    qed
  qed
qed

subsection \<open>The run\<close>

definition run_estimate :: "('w, 'e, 'f, 'm) Env \<Rightarrow> EmbedConfig \<Rightarrow> Estimate" where
  "run_estimate E cfg =
     (case ec_Estimate cfg of None \<Rightarrow> llms_EstimateTextTokens E | Some f \<Rightarrow> f)"

definition valid_items :: "Estimate \<Rightarrow> Input list \<Rightarrow> indexedInput list" where
  "valid_items f inputs = map (item_at f) (filter (\<lambda>x. is_valid (snd x)) (List.enumerate 0 inputs))"

definition invalid_fails :: "Input list \<Rightarrow> 'e posFailure list" where
  "invalid_fails inputs = map invalid_at (filter (\<lambda>x. \<not> is_valid (snd x)) (List.enumerate 0 inputs))"

lemma withDefaults_estimate [simp]:
  "ec_Estimate (withDefaults E cfg) = Some (run_estimate E cfg)"
  by (simp add: withDefaults_def run_estimate_def split: option.split)

lemma withDefaults_limit: "1 \<le> MaxBatchInputs (withDefaults E cfg)"
  by (simp add: withDefaults_def DefaultMaxBatchInputs_def)

lemma set_valid_items:
  "it \<in> set (valid_items f inputs) \<longleftrightarrow>
     pos it < length inputs \<and> is_valid (inputs ! pos it) \<and> it = item_at f (pos it, inputs ! pos it)"
  by (auto simp: valid_items_def in_set_enumerate_eq image_iff item_at_def)

lemma inp_valid: "it \<in> set (valid_items f inputs) \<Longrightarrow> inp it = inputs ! pos it"
  unfolding set_valid_items by (metis indexedInput.select_convs(2) item_at_def snd_conv)

lemma set_invalid_fails:
  "f \<in> set (invalid_fails inputs) \<longleftrightarrow>
     (\<exists>p < length inputs. \<not> is_valid (inputs ! p) \<and> f = invalid_at (p, inputs ! p))"
  by (auto simp: invalid_fails_def in_set_enumerate_eq image_iff)

lemma enumerate_nth: "List.enumerate 0 xs = map (\<lambda>p. (p, xs ! p)) [0..<length xs]"
  by (rule nth_equalityI) (auto simp: nth_enumerate_eq)

lemma positions_valid_items:
  "positions (valid_items f inputs) = filter (\<lambda>p. is_valid (inputs ! p)) [0..<length inputs]"
  by (simp add: valid_items_def enumerate_nth filter_map comp_def item_at_def)

lemma positions_invalid_fails:
  "map pf_pos (invalid_fails inputs) = filter (\<lambda>p. \<not> is_valid (inputs ! p)) [0..<length inputs]"
  by (simp add: invalid_fails_def enumerate_nth filter_map comp_def invalid_at_def)

lemma Run_batches:
  assumes "MaxBatchInputs (withDefaults E cfg) \<le> max_cap E"
  obtains bs where "list_all (batch_ok (MaxBatchInputs (withDefaults E cfg))
      (MaxBatchTokens (withDefaults E cfg))) bs"
    and "concat bs = valid_items (run_estimate E cfg) inputs"
    and "Run E inputs cfg w =
      do { r \<leftarrow> run_batches E (withDefaults E cfg) bs
             \<lparr>recordsByPos = Map.empty, failures = invalid_fails inputs, world = w\<rparr>;
           Some (assemble (length inputs) (recordsByPos (snd r)) (failures (snd r)),
                 fst r, world (snd r)) }"
proof -
  obtain bs where bs: "packBatches (max_cap E) (valid_items (run_estimate E cfg) inputs)
      (MaxBatchInputs (withDefaults E cfg)) (MaxBatchTokens (withDefaults E cfg)) = Some bs"
    "concat bs = valid_items (run_estimate E cfg) inputs"
    "list_all (batch_ok (MaxBatchInputs (withDefaults E cfg)) (MaxBatchTokens (withDefaults E cfg))) bs"
    using packBatches_spec [OF withDefaults_limit assms] by blast
  show ?thesis
    by (rule that [OF bs(3,2)])
      (simp add: Run_def Let_def validate_from_spec valid_items_def [symmetric]
        invalid_fails_def [symmetric] bs(1))
qed

lemma Run_outcome:
  assumes "MaxBatchInputs (withDefaults E cfg) \<le> max_cap E" and "faithful E good"
  obtains err R F w' where "Run E inputs cfg w =
      Some (assemble (length inputs) R (invalid_fails inputs @ F), err, w')"
    and "outcome (client_Model E) (good_item good) (valid_items (run_estimate E cfg) inputs)
      (err = None) R F"
proof -
  obtain bs where bs: "list_all (batch_ok (MaxBatchInputs (withDefaults E cfg))
      (MaxBatchTokens (withDefaults E cfg))) bs"
    "concat bs = valid_items (run_estimate E cfg) inputs"
    "Run E inputs cfg w =
      do { r \<leftarrow> run_batches E (withDefaults E cfg) bs
             \<lparr>recordsByPos = Map.empty, failures = invalid_fails inputs, world = w\<rparr>;
           Some (assemble (length inputs) (recordsByPos (snd r)) (failures (snd r)),
                 fst r, world (snd r)) }"
    using Run_batches [OF assms(1), of inputs w] by blast
  have ne: "list_all (\<lambda>b. b \<noteq> []) bs" using bs(1) by (auto simp: list_all_iff batch_ok_def)
  have d: "distinct (positions (concat bs))" unfolding bs(2) positions_valid_items by simp
  obtain err R F w' where r: "run_batches E (withDefaults E cfg) bs
      \<lparr>recordsByPos = Map.empty, failures = invalid_fails inputs, world = w\<rparr> =
      Some (err, \<lparr>recordsByPos = Map.empty ++ R, failures = invalid_fails inputs @ F, world = w'\<rparr>)"
    "outcome (client_Model E) (good_item good) (concat bs) (err = None) R F"
    using run_batches_outcome [OF assms(2) ne d, of "withDefaults E cfg"
        "\<lparr>recordsByPos = Map.empty, failures = invalid_fails inputs, world = w\<rparr>"] by auto
  show ?thesis
    by (rule that [of R F err w']) (use r bs(2,3) in simp_all)
qed

lemma Run_needs_capacity:
  assumes "Run E inputs cfg w = Some r"
  shows "MaxBatchInputs (withDefaults E cfg) \<le> max_cap E"
  using assms by (auto simp: Run_def Let_def bind_eq_Some packBatches_def make_batch_def split: if_splits)

lemma Run_outcome':
  assumes "Run E inputs cfg w = Some (res, err, w')" and "faithful E good"
  obtains R F where "res = assemble (length inputs) R (invalid_fails inputs @ F)"
    and "outcome (client_Model E) (good_item good) (valid_items (run_estimate E cfg) inputs)
      (err = None) R F"
  using Run_outcome [OF Run_needs_capacity [OF assms(1)] assms(2), of inputs w] assms(1)
  by (metis Pair_inject option.inject)

definition record_for :: "'m \<Rightarrow> Input \<Rightarrow> ('f, 'm) Record \<Rightarrow> bool" where
  "record_for model i r \<longleftrightarrow>
     rec_SourceID r = in_SourceID i \<and> rec_ArtifactID r = in_ArtifactID i
     \<and> ChunkIndex r = Index (in_Chunk i) \<and> rec_Text r = Text (in_Chunk i)
     \<and> rec_Metadata r = in_Metadata i \<and> Model r = model"

text \<open>The records of an assembled result, one per recorded position, in order.\<close>

lemma Records_assemble:
  "Records (assemble n R fs) = map (\<lambda>p. the (R p)) (filter (\<lambda>p. p \<in> dom R) [0..<n])"
  by (simp add: assemble_def List.map_filter_def comp_def dom_def)

lemma Failures_assemble: "Failures (assemble n R fs) = map bf (sort_key pf_pos fs)"
  by (simp add: assemble_def)

lemma invalid_reported:
  assumes "p < length inputs" and "\<not> is_valid (inputs ! p)"
  shows "bf (invalid_at (p, inputs ! p)) \<in> set (Failures (assemble n R (invalid_fails inputs @ F)))"
proof -
  have "(invalid_at (p, inputs ! p) :: 'a posFailure) \<in> set (invalid_fails inputs)"
    using assms by (auto simp: set_invalid_fails)
  then have "bf (invalid_at (p, inputs ! p) :: 'a posFailure)
      \<in> bf ` set (sort_key pf_pos (invalid_fails inputs @ F'))" for F'
    by (intro imageI) simp
  then show ?thesis by (simp add: Failures_assemble)
qed

text \<open>A failure starts at the first input it covers and covers nothing before it.\<close>

definition anchored :: "Input list \<Rightarrow> 'e posFailure \<Rightarrow> bool" where
  "anchored inputs f \<longleftrightarrow> pf_pos f < length inputs \<and> inputs ! pf_pos f \<in> set (bf_Inputs (bf f))
     \<and> set (bf_Inputs (bf f)) \<subseteq> set (drop (pf_pos f) inputs)"

lemma nth_in_drop: "k \<le> p \<Longrightarrow> p < length xs \<Longrightarrow> xs ! p \<in> set (drop k xs)"
  using nth_mem [of "p - k" "drop k xs"] by simp

lemma invalid_anchored: "list_all (anchored inputs) (invalid_fails inputs)"
  by (auto simp: list_all_iff set_invalid_fails invalid_at_def anchored_def nth_in_drop)

lemma fails_anchored:
  assumes "list_all (fails_of (valid_items f inputs)) F"
  shows "list_all (anchored inputs) F"
  unfolding list_all_iff
proof
  fix x assume "x \<in> set F"
  then obtain sub where sub: "sub \<noteq> []" "set sub \<subseteq> set (valid_items f inputs)"
    "bf_Inputs (bf x) = map inp sub" "pf_pos x = Min (pos ` set sub)"
    using assms by (auto simp: fails_of_def list_all_iff)
  have it: "pos it < length inputs" "inp it = inputs ! pos it" "pf_pos x \<le> pos it"
    if "it \<in> set sub" for it
    using that sub set_valid_items [of it f inputs] inp_valid [of it f inputs] by auto
  have "pf_pos x \<in> pos ` set sub" using sub(1,4) by simp
  then obtain it0 where it0: "it0 \<in> set sub" "pos it0 = pf_pos x" by auto
  have "inputs ! pf_pos x \<in> inp ` set sub" using it(2) [OF it0(1)] it0 by force
  moreover have "inp ` set sub \<subseteq> set (drop (pf_pos x) inputs)"
  proof
    fix y assume "y \<in> inp ` set sub"
    then obtain it1 where "it1 \<in> set sub" "y = inp it1" by auto
    then show "y \<in> set (drop (pf_pos x) inputs)"
      using it [of it1] nth_in_drop [of "pf_pos x" "pos it1" inputs] by simp
  qed
  ultimately show "anchored inputs x"
    using it(1) [OF it0(1)] it0(2) sub(3) by (simp add: anchored_def)
qed

lemma all_anchored:
  assumes "outcome model g (valid_items f inputs) c R F"
  shows "list_all (anchored inputs) (sort_key pf_pos (invalid_fails inputs @ F))"
proof -
  have "list_all (fails_of (valid_items f inputs)) F" using assms by (simp add: outcome_def)
  then have "list_all (anchored inputs) (invalid_fails inputs @ F)"
    by (simp add: invalid_anchored fails_anchored)
  then show ?thesis by (simp add: list_all_iff)
qed

lemma outcome_record:
  assumes "outcome model (good_item good) (valid_items f inputs) c R F" and "R p = Some r"
  shows "p < length inputs" "is_valid (inputs ! p)" "record_for model (inputs ! p) r"
    "good (rec_Text r) (Vector r)"
proof -
  obtain it vals where it: "it \<in> set (valid_items f inputs)" "pos it = p" "good_item good it vals"
    "r = makeRecord model it vals"
    using assms unfolding outcome_def by blast
  then show "p < length inputs" "is_valid (inputs ! p)" "record_for model (inputs ! p) r"
    "good (rec_Text r) (Vector r)"
    using inp_valid [OF it(1)] by (auto simp: set_valid_items record_for_def makeRecord_def)
qed

subsection \<open>The properties\<close>

text \<open>
  C13: a run accounts for every input. When it is not canceled, the records belong to a
  subset of the input positions, in input order, each with the provenance, text and metadata of
  its own input; and every other input appears in some failure.
\<close>

theorem Run_accounts:
  assumes "Run E inputs cfg w = Some (res, None, w')"
  shows "\<exists>ps. sorted_wrt (<) ps \<and> set ps \<subseteq> {..<length inputs}
    \<and> list_all2 (\<lambda>p r. is_valid (inputs ! p) \<and> record_for (client_Model E) (inputs ! p) r)
        ps (Records res)
    \<and> (\<forall>p < length inputs. p \<in> set ps
        \<or> (\<exists>f \<in> set (Failures res). inputs ! p \<in> set (bf_Inputs f)))"
proof -
  obtain R F where res: "res = assemble (length inputs) R (invalid_fails inputs @ F)"
    and o: "outcome (client_Model E) (good_item (\<lambda>_ _. True))
      (valid_items (run_estimate E cfg) inputs) True R F"
    using Run_outcome' [OF assms faithful_trivial] by auto
  let ?ps = "filter (\<lambda>p. p \<in> dom R) [0..<length inputs]"
  have "list_all2 (\<lambda>p r. is_valid (inputs ! p) \<and> record_for (client_Model E) (inputs ! p) r)
      ?ps (Records res)"
    using outcome_record [OF o] by (auto simp: res Records_assemble list_all2_map2 intro!: list.rel_refl_strong)
  moreover have "p \<in> set ?ps \<or> (\<exists>f \<in> set (Failures res). inputs ! p \<in> set (bf_Inputs f))"
    if p: "p < length inputs" for p
  proof (cases "is_valid (inputs ! p)")
    case True
    let ?it = "item_at (run_estimate E cfg) (p, inputs ! p)"
    have "?it \<in> set (valid_items (run_estimate E cfg) inputs)"
      using p True unfolding set_valid_items by (simp add: item_at_def)
    moreover have "pos ?it = p" "inp ?it = inputs ! p" by (simp_all add: item_at_def)
    ultimately have "p \<in> dom R \<or> (\<exists>f \<in> set F. inputs ! p \<in> set (bf_Inputs (bf f)))"
      using o by (auto simp: outcome_def covers_item_def)
    then show ?thesis using p by (auto simp: res Failures_assemble)
  next
    case False
    then have "bf (invalid_at (p, inputs ! p)) \<in> set (Failures res)"
      unfolding res using p by (intro invalid_reported)
    moreover have "inputs ! p \<in> set (bf_Inputs (bf (invalid_at (p, inputs ! p))))"
      by (simp add: invalid_at_def)
    ultimately show ?thesis by blast
  qed
  ultimately show ?thesis
    by (intro exI [of _ ?ps]) (auto simp: sorted_wrt_filter)
qed

lemma run_vectors:
  assumes "\<And>req w vs w' v i. distinct (map ei_ID (rq_Inputs req)) \<Longrightarrow>
      client_Embed E req w = (Inr vs, w') \<Longrightarrow> v \<in> set vs \<Longrightarrow>
      i \<in> set (rq_Inputs req) \<Longrightarrow> ei_ID i = ev_ID v \<Longrightarrow> good (ei_Text i) (ev_Values v)"
    and "Run E inputs cfg w = Some (res, err, w')" and "r \<in> set (Records res)"
  shows "good (rec_Text r) (Vector r)"
proof -
  have "faithful E good" using assms(1) unfolding faithful_def good_for_def by blast
  then obtain R F where "res = assemble (length inputs) R (invalid_fails inputs @ F)"
    and o: "outcome (client_Model E) (good_item good) (valid_items (run_estimate E cfg) inputs)
      (err = None) R F"
    using Run_outcome' [OF assms(2)] by metis
  then obtain p where "R p = Some r" using assms(3) by (auto simp: Records_assemble)
  then show ?thesis using outcome_record(4) [OF o] by blast
qed

text \<open>
  C14: vectors are matched to inputs by identifier. If the client's answers are right for the
  identifiers they carry, in whatever order it lists them, then every record's vector is right
  for the record's own text.
\<close>

theorem Run_vectors:
  assumes "\<And>req w vs w' v i. distinct (map ei_ID (rq_Inputs req)) \<Longrightarrow>
      client_Embed E req w = (Inr vs, w') \<Longrightarrow> v \<in> set vs \<Longrightarrow>
      i \<in> set (rq_Inputs req) \<Longrightarrow> ei_ID i = ev_ID v \<Longrightarrow> good (ei_Text i) (ev_Values v)"
    and "Run E inputs cfg w = Some (res, err, w')" and "r \<in> set (Records res)"
  shows "good (rec_Text r) (Vector r)"
  by (rule run_vectors [where good = good, OF _ assms(2,3)]) (rule assms(1))

text \<open>
  The failures come in the order of the first input they cover, each covers at least one
  input, and only inputs of the run.
\<close>

theorem Run_failures_ordered:
  assumes "Run E inputs cfg w = Some (res, err, w')"
  shows "\<exists>ks. sorted ks \<and> list_all2 (\<lambda>k f. k < length inputs \<and> inputs ! k \<in> set (bf_Inputs f)
      \<and> set (bf_Inputs f) \<subseteq> set (drop k inputs)) ks (Failures res)"
proof -
  obtain R F where res: "res = assemble (length inputs) R (invalid_fails inputs @ F)"
    and o: "outcome (client_Model E) (good_item (\<lambda>_ _. True))
      (valid_items (run_estimate E cfg) inputs) (err = None) R F"
    using Run_outcome' [OF assms faithful_trivial] by auto
  note all_anchored [OF o]
  then show ?thesis
    by (intro exI [of _ "map pf_pos (sort_key pf_pos (invalid_fails inputs @ F))"])
      (auto simp: res Failures_assemble list_all2_conv_all_nth list_all_length anchored_def)
qed

end
