(* ===== verification/Embed_Isolation.thy ===== *)
theory Embed_Isolation
  imports Embed_Correct
begin

text \<open>
  Runs against a client that fails exactly on the requests that contain a poison input: with
  bisection, the runner isolates every poison input and keeps everything else. Runs against
  two clients that agree on well-formed requests: the runner cannot tell them apart, so it
  sends no other request.
\<close>

subsection \<open>Poison inputs\<close>

definition calm :: "('w, 'e, 'f, 'm) Env \<Rightarrow> bool" where
  "calm E \<longleftrightarrow> (\<forall>w. fst (ctx_Err E w) = None)"

text \<open>A response with one vector per requested identifier, in any order.\<close>

definition answers :: "EmbeddingRequest \<Rightarrow> 'f EmbeddingVector list \<Rightarrow> bool" where
  "answers req vs \<longleftrightarrow>
     distinct (map ev_ID vs) \<and> set (map ev_ID vs) = set (map ei_ID (rq_Inputs req))"

definition poisoned_by :: "('w, 'e, 'f, 'm) Env \<Rightarrow> (string \<Rightarrow> bool) \<Rightarrow> bool" where
  "poisoned_by E bad \<longleftrightarrow> (\<forall>req w. distinct (map ei_ID (rq_Inputs req)) \<longrightarrow>
    (if \<exists>i \<in> set (rq_Inputs req). bad (ei_Text i)
     then \<exists>err w'. client_Embed E req w = (Inl err, w') \<and> \<not> is_Canceled E err
     else \<exists>vs w'. client_Embed E req w = (Inr vs, w') \<and> answers req vs))"

abbreviation bad_item :: "(string \<Rightarrow> bool) \<Rightarrow> indexedInput \<Rightarrow> bool" where
  "bad_item bad it \<equiv> bad (Text (in_Chunk (inp it)))"

definition singled_out :: "indexedInput \<Rightarrow> 'e posFailure \<Rightarrow> bool" where
  "singled_out it f \<longleftrightarrow> pf_pos f = pos it \<and> bf_Inputs (bf f) = [inp it]"

text \<open>What a batch then does: records for the good inputs, one failure for each bad one.\<close>

definition isolated ::
  "(string \<Rightarrow> bool) \<Rightarrow> indexedInput list \<Rightarrow> (nat \<rightharpoonup> ('f, 'm) Record) \<Rightarrow> 'e posFailure list \<Rightarrow> bool"
  where
  "isolated bad batch R F \<longleftrightarrow>
     dom R = pos ` {it \<in> set batch. \<not> bad_item bad it}
     \<and> list_all2 singled_out (filter (bad_item bad) batch) F"

lemma isolated_append:
  "isolated bad b1 R1 F1 \<Longrightarrow> isolated bad b2 R2 F2 \<Longrightarrow> isolated bad (b1 @ b2) (R1 ++ R2) (F1 @ F2)"
  by (auto simp: isolated_def intro!: list_all2_appendI)

lemma byID_distinct:
  "distinct (map fst m @ map ev_ID vs) \<Longrightarrow>
     byID vs m = Inr (m @ map (\<lambda>v. (ev_ID v, ev_Values v)) vs)"
  by (induction vs arbitrary: m) (auto simp: map_of_eq_None_iff)

lemma record_loop_all:
  "\<forall>it \<in> set batch. map_of m (requestID (pos it)) \<noteq> None \<Longrightarrow>
     \<exists>R. record_loop model m batch recs = (None, recs ++ R) \<and> dom R = pos ` set batch"
proof (induction batch arbitrary: recs)
  case (Cons it batch)
  then obtain vals where v: "map_of m (requestID (pos it)) = Some vals" by auto
  let ?r = "[pos it \<mapsto> makeRecord model it vals]"
  obtain R where "record_loop model m batch (recs ++ ?r) = (None, (recs ++ ?r) ++ R)"
    "dom R = pos ` set batch"
    using Cons.IH [where recs = "recs ++ ?r"] Cons.prems by (meson list.set_intros(2))
  then show ?case using v by (intro exI [of _ "?r ++ R"]) auto
qed (auto intro: exI [of _ Map.empty])

lemma settle_answers:
  assumes "answers (batchRequest cfg batch) vs" and "distinct (positions batch)"
  shows "\<exists>R. settle model batch vs st = Some (st\<lparr>recordsByPos := recordsByPos st ++ R\<rparr>)
    \<and> dom R = pos ` set batch"
proof -
  let ?m = "map (\<lambda>v. (ev_ID v, ev_Values v)) vs"
  have ids: "set (map ev_ID vs) = requestID ` pos ` set batch" and d: "distinct (map ev_ID vs)"
    using assms(1) by (auto simp: answers_def batchRequest_def image_image)
  have m: "byID vs [] = Inr ?m" using byID_distinct [of "[]" vs] d by simp
  have "length vs = card (set (map ev_ID vs))" using distinct_card [OF d] by simp
  also have "\<dots> = card (pos ` set batch)"
    unfolding ids by (rule card_image) (simp add: inj_on_def)
  also have "\<dots> = length batch" using distinct_card [OF assms(2)] by simp
  finally have len: "length ?m = length batch" by simp
  have "map_of ?m (requestID (pos it)) \<noteq> None" if "it \<in> set batch" for it
  proof -
    have "requestID (pos it) \<in> fst ` set ?m" using that ids by (auto simp: image_image)
    then show ?thesis by (simp add: map_of_eq_None_iff)
  qed
  then obtain R where R: "record_loop model ?m batch (recordsByPos st) = (None, recordsByPos st ++ R)"
    "dom R = pos ` set batch"
    using record_loop_all [of batch ?m model "recordsByPos st"] by blast
  then have "settle model batch vs st = Some (st\<lparr>recordsByPos := recordsByPos st ++ R\<rparr>)"
    using m len by (simp add: settle_def)
  with R(2) show ?thesis by blast
qed

lemma embedBatch_isolates:
  assumes "calm E" and "poisoned_by E bad" and "\<not> DisableBisect cfg"
    and "batch \<noteq> []" and "distinct (positions batch)"
  shows "\<exists>R F w. embedBatch E cfg batch st = Some (None,
      \<lparr>recordsByPos = recordsByPos st ++ R, failures = failures st @ F, world = w\<rparr>)
    \<and> isolated bad batch R F"
  using assms(4,5)
proof (induction "length batch" arbitrary: batch st rule: less_induct)
  case less
  let ?req = "batchRequest cfg batch"
  have req: "(\<exists>i \<in> set (rq_Inputs ?req). bad (ei_Text i)) \<longleftrightarrow> (\<exists>it \<in> set batch. bad_item bad it)"
    by (auto simp: batchRequest_def)
  have client: "if \<exists>i \<in> set (rq_Inputs ?req). bad (ei_Text i)
      then \<exists>err w'. client_Embed E ?req (world st) = (Inl err, w') \<and> \<not> is_Canceled E err
      else \<exists>vs w'. client_Embed E ?req (world st) = (Inr vs, w') \<and> answers ?req vs"
    using assms(2) request_distinct [OF less.prems(2)] unfolding poisoned_by_def by blast
  show ?case
  proof (cases "\<exists>it \<in> set batch. bad_item bad it")
    case False
    then obtain vs w where cl: "client_Embed E ?req (world st) = (Inr vs, w)" and ans: "answers ?req vs"
      using client req by auto
    let ?st1 = "st\<lparr>world := w\<rparr>"
    obtain R where "settle (client_Model E) batch vs ?st1 =
        Some (?st1\<lparr>recordsByPos := recordsByPos ?st1 ++ R\<rparr>)" and R: "dom R = pos ` set batch"
      using settle_answers [OF ans less.prems(2), where model = "client_Model E" and st = ?st1] by blast
    then have "embedBatch E cfg batch st = Some (None, \<lparr>recordsByPos = recordsByPos st ++ R,
        failures = failures st @ [], world = w\<rparr>)"
      using embedBatch_answer [OF cl] by simp
    moreover have "isolated bad batch R []"
      using R False by (auto simp: isolated_def filter_empty_conv [THEN iffD2])
    ultimately show ?thesis by blast
  next
    case True
    then obtain err w where cl: "client_Embed E ?req (world st) = (Inl err, w)"
      and nc: "\<not> is_Canceled E err"
      using client req by auto
    obtain w' where cx: "ctx_Err E w = (None, w')"
      using assms(1) by (metis calm_def prod.collapse)
    show ?thesis
    proof (cases "1 < length batch")
      case len: True
      let ?b1 = "take (length batch div 2) batch" and ?b2 = "drop (length batch div 2) batch"
      note h = halves [OF len]
      note d = halves_distinct [OF less.prems(2)]
      obtain R1 F1 w1 where 1: "embedBatch E cfg ?b1 (st\<lparr>world := w'\<rparr>) = Some (None,
          \<lparr>recordsByPos = recordsByPos st ++ R1, failures = failures st @ F1, world = w1\<rparr>)"
        and i1: "isolated bad ?b1 R1 F1"
        using less.hyps [OF h(3,1) d(1), of "st\<lparr>world := w'\<rparr>"] by auto
      obtain R2 F2 w2 where 2: "embedBatch E cfg ?b2
          \<lparr>recordsByPos = recordsByPos st ++ R1, failures = failures st @ F1, world = w1\<rparr> =
          Some (None, \<lparr>recordsByPos = (recordsByPos st ++ R1) ++ R2,
            failures = (failures st @ F1) @ F2, world = w2\<rparr>)"
        and i2: "isolated bad ?b2 R2 F2"
        using less.hyps [OF h(4,2) d(2), of "\<lparr>recordsByPos = recordsByPos st ++ R1,
            failures = failures st @ F1, world = w1\<rparr>"] by auto
      have "embedBatch E cfg batch st = Some (None, \<lparr>recordsByPos = recordsByPos st ++ (R1 ++ R2),
          failures = failures st @ (F1 @ F2), world = w2\<rparr>)"
        using embedBatch_bisect [OF cl cx nc assms(3) len] 1 2 by simp
      moreover have "isolated bad batch (R1 ++ R2) (F1 @ F2)"
        using isolated_append [OF i1 i2] by simp
      ultimately show ?thesis by blast
    next
      case False
      then obtain it where it: "batch = [it]" using less.prems(1) by (cases batch) auto
      obtain f where f: "addBatchFailure (failures st) batch (BatchFailed (length batch) err)
          (llms_Retryable E err) = Some (failures st @ [f])" "bf_Inputs (bf f) = map inp batch"
        "pf_pos f = Min (pos ` set batch)"
        using addBatchFailure_spec [OF less.prems(1)] by metis
      have "embedBatch E cfg batch st = Some (None, \<lparr>recordsByPos = recordsByPos st ++ Map.empty,
          failures = failures st @ [f], world = w'\<rparr>)"
        using embedBatch_fail [OF cl cx nc] False f(1) by auto
      moreover have "isolated bad batch Map.empty [f]"
        using f(2,3) True it by (auto simp: isolated_def singled_out_def)
      ultimately show ?thesis by blast
    qed
  qed
qed

lemma run_batches_isolates:
  assumes "calm E" and "poisoned_by E bad" and "\<not> DisableBisect cfg"
    and "list_all (\<lambda>b. b \<noteq> []) bs" and "distinct (positions (concat bs))"
  shows "\<exists>R F w. run_batches E cfg bs st = Some (None,
      \<lparr>recordsByPos = recordsByPos st ++ R, failures = failures st @ F, world = w\<rparr>)
    \<and> isolated bad (concat bs) R F"
  using assms(4,5)
proof (induction bs arbitrary: st)
  case Nil
  then show ?case
    by (intro exI [of _ Map.empty] exI [of _ "[]"] exI [of _ "world st"]) (simp add: isolated_def)
next
  case (Cons b bs)
  obtain w where cx: "ctx_Err E (world st) = (None, w)"
    using assms(1) by (metis calm_def prod.collapse)
  obtain R F w1 where 1: "embedBatch E cfg b (st\<lparr>world := w\<rparr>) = Some (None,
      \<lparr>recordsByPos = recordsByPos st ++ R, failures = failures st @ F, world = w1\<rparr>)"
    and i1: "isolated bad b R F"
    using embedBatch_isolates [OF assms(1-3), of b "st\<lparr>world := w\<rparr>"] Cons.prems by auto
  obtain R2 F2 w2 where 2: "run_batches E cfg bs
      \<lparr>recordsByPos = recordsByPos st ++ R, failures = failures st @ F, world = w1\<rparr> =
      Some (None, \<lparr>recordsByPos = (recordsByPos st ++ R) ++ R2,
        failures = (failures st @ F) @ F2, world = w2\<rparr>)"
    and i2: "isolated bad (concat bs) R2 F2"
    using Cons.IH [of "\<lparr>recordsByPos = recordsByPos st ++ R, failures = failures st @ F,
        world = w1\<rparr>"] Cons.prems by auto
  have "run_batches E cfg (b # bs) st = Some (None, \<lparr>recordsByPos = recordsByPos st ++ (R ++ R2),
      failures = failures st @ (F @ F2), world = w2\<rparr>)"
    using 1 2 cx by simp
  moreover have "isolated bad (concat (b # bs)) (R ++ R2) (F @ F2)"
    using isolated_append [OF i1 i2] by simp
  ultimately show ?case by blast
qed

text \<open>An input that gets a record: valid, and not poison.\<close>

definition wanted :: "(string \<Rightarrow> bool) \<Rightarrow> Input \<Rightarrow> bool" where
  "wanted bad i \<longleftrightarrow> is_valid i \<and> \<not> bad (Text (in_Chunk i))"

lemma filter_nth: "filter P xs = map ((!) xs) (filter (\<lambda>p. P (xs ! p)) [0..<length xs])"
  by (metis (mono_tags, lifting) comp_apply filter_cong filter_map map_nth)

text \<open>Sorting failures that single out inputs at distinct positions.\<close>

lemma sorted_single_failures:
  assumes "\<forall>f \<in> set fs. bf_Inputs (bf f) = [inputs ! pf_pos f]" and "distinct (map pf_pos fs)"
    and "pf_pos ` set fs = {p. p < n \<and> P p}"
  shows "map (bf_Inputs \<circ> bf) (sort_key pf_pos fs) = map (\<lambda>p. [inputs ! p]) (filter P [0..<n])"
proof -
  have "map pf_pos (sort_key pf_pos fs) = filter P [0..<n]"
  proof (rule sorted_distinct_set_unique)
    show "distinct (map pf_pos (sort_key pf_pos fs))"
      using assms(2) by (simp add: distinct_map)
    show "set (map pf_pos (sort_key pf_pos fs)) = set (filter P [0..<n])" using assms(3) by auto
  qed (simp_all add: sorted_wrt_filter)
  moreover have "map (bf_Inputs \<circ> bf) (sort_key pf_pos fs) =
      map (\<lambda>p. [inputs ! p]) (map pf_pos (sort_key pf_pos fs))"
    using assms(1) by simp
  ultimately show ?thesis by simp
qed

lemma valid_items_nth:
  "valid_items f inputs =
     map (\<lambda>p. item_at f (p, inputs ! p)) (filter (\<lambda>p. is_valid (inputs ! p)) [0..<length inputs])"
  by (simp add: valid_items_def enumerate_nth filter_map comp_def)

lemma item_at_simps [simp]: "pos (item_at f x) = fst x" "inp (item_at f x) = snd x"
  by (simp_all add: item_at_def)

lemma isolated_valid:
  assumes "isolated bad (valid_items f inputs) R F"
  shows "p \<in> dom R \<longleftrightarrow> p < length inputs \<and> wanted bad (inputs ! p)"
    and "list_all2 (\<lambda>p x. pf_pos x = p \<and> bf_Inputs (bf x) = [inputs ! p])
      (filter (\<lambda>p. is_valid (inputs ! p) \<and> bad (Text (in_Chunk (inputs ! p)))) [0..<length inputs]) F"
proof -
  have "dom R = pos ` {it \<in> set (valid_items f inputs). \<not> bad_item bad it}"
    using assms by (simp add: isolated_def)
  also have "\<dots> = {p. p < length inputs \<and> wanted bad (inputs ! p)}"
    by (force simp: valid_items_nth wanted_def)
  finally show "p \<in> dom R \<longleftrightarrow> p < length inputs \<and> wanted bad (inputs ! p)" by simp
  have "list_all2 singled_out (filter (bad_item bad) (valid_items f inputs)) F"
    using assms by (simp add: isolated_def)
  then show "list_all2 (\<lambda>p x. pf_pos x = p \<and> bf_Inputs (bf x) = [inputs ! p])
      (filter (\<lambda>p. is_valid (inputs ! p) \<and> bad (Text (in_Chunk (inputs ! p)))) [0..<length inputs]) F"
    by (simp add: valid_items_nth filter_map comp_def list_all2_map1 singled_out_def conj_commute)
qed

text \<open>The failures of such a run, before they are sorted.\<close>

lemma isolated_failures:
  assumes "isolated bad (valid_items f inputs) R F"
  shows "map (bf_Inputs \<circ> bf) (sort_key pf_pos (invalid_fails inputs @ F)) =
    map (\<lambda>p. [inputs ! p]) (filter (\<lambda>p. \<not> wanted bad (inputs ! p)) [0..<length inputs])"
proof (rule sorted_single_failures)
  let ?Q = "\<lambda>p. is_valid (inputs ! p) \<and> bad (Text (in_Chunk (inputs ! p)))"
  note l = isolated_valid(2) [OF assms]
  have F: "map pf_pos F = filter ?Q [0..<length inputs]"
    using l by (auto simp: list_all2_conv_all_nth intro: nth_equalityI)
  have "bf_Inputs (bf x) = [inputs ! pf_pos x]" if "x \<in> set F" for x
    using l that by (auto simp: list_all2_conv_all_nth in_set_conv_nth)
  then show "\<forall>x \<in> set (invalid_fails inputs @ F). bf_Inputs (bf x) = [inputs ! pf_pos x]"
    by (auto simp: set_invalid_fails invalid_at_def)
  have split: "map pf_pos (invalid_fails inputs @ F) =
      filter (\<lambda>p. \<not> is_valid (inputs ! p)) [0..<length inputs] @ filter ?Q [0..<length inputs]"
    by (simp add: positions_invalid_fails F)
  show "distinct (map pf_pos (invalid_fails inputs @ F))" unfolding split by auto
  have "pf_pos ` set (invalid_fails inputs @ F) = set (map pf_pos (invalid_fails inputs @ F))"
    by (simp add: image_Un)
  also have "\<dots> = {p. p < length inputs \<and> \<not> wanted bad (inputs ! p)}"
    unfolding split by (auto simp: wanted_def)
  finally show "pf_pos ` set (invalid_fails inputs @ F) =
      {p. p < length inputs \<and> \<not> wanted bad (inputs ! p)}" .
qed

lemma run_isolates:
  assumes calm: "calm E" and client: "poisoned_by E bad" and bisect: "\<not> DisableBisect cfg"
    and cap: "MaxBatchInputs (withDefaults E cfg) \<le> max_cap E"
  shows "\<exists>res w'. Run E inputs cfg w = Some (res, None, w')
    \<and> list_all2 (record_for (client_Model E)) (filter (wanted bad) inputs) (Records res)
    \<and> map bf_Inputs (Failures res) = map (\<lambda>i. [i]) (filter (\<lambda>i. \<not> wanted bad i) inputs)"
proof -
  let ?cfg = "withDefaults E cfg" and ?V = "valid_items (run_estimate E cfg) inputs"
  let ?n = "length inputs"
  let ?st = "\<lparr>recordsByPos = Map.empty, failures = invalid_fails inputs, world = w\<rparr>"
  obtain bs where bs: "list_all (batch_ok (MaxBatchInputs ?cfg) (MaxBatchTokens ?cfg)) bs"
    "concat bs = ?V"
    "Run E inputs cfg w =
      do { r \<leftarrow> run_batches E ?cfg bs ?st;
           Some (assemble ?n (recordsByPos (snd r)) (failures (snd r)), fst r, world (snd r)) }"
    using Run_batches [OF cap, of inputs w] by blast
  have ne: "list_all (\<lambda>b. b \<noteq> []) bs" using bs(1) by (auto simp: list_all_iff batch_ok_def)
  have dis: "\<not> DisableBisect ?cfg" using bisect by (simp add: withDefaults_def)
  have d: "distinct (positions (concat bs))" unfolding bs(2) positions_valid_items by simp
  obtain R F w' where r: "run_batches E ?cfg bs ?st = Some (None,
      \<lparr>recordsByPos = R, failures = invalid_fails inputs @ F, world = w'\<rparr>)"
    and iso: "isolated bad ?V R F"
    using run_batches_isolates [OF calm client dis ne d, of ?st] bs(2) by auto
  have o: "outcome (client_Model E) (good_item (\<lambda>_ _. True)) ?V True R F"
    using run_batches_outcome [OF faithful_trivial ne d, of E ?cfg ?st] r bs(2) by auto
  let ?fs = "invalid_fails inputs @ F"
  have run: "Run E inputs cfg w = Some (assemble ?n R ?fs, None, w')" using bs(3) r by simp
  note dom = isolated_valid(1) [OF iso]
  have "list_all2 (record_for (client_Model E)) (map ((!) inputs) (filter (\<lambda>p. p \<in> dom R) [0..<?n]))
      (Records (assemble ?n R ?fs))"
    using outcome_record(3) [OF o]
    by (auto simp: Records_assemble list_all2_map1 list_all2_map2 intro!: list.rel_refl_strong)
  moreover have "map ((!) inputs) (filter (\<lambda>p. p \<in> dom R) [0..<?n]) = filter (wanted bad) inputs"
    unfolding filter_nth [of "wanted bad" inputs] 
    by (intro arg_cong [of _ _ "map ((!) inputs)"] filter_cong refl) (simp only: dom set_upt, simp)
  moreover have "map bf_Inputs (Failures (assemble ?n R ?fs)) =
      map (\<lambda>p. [inputs ! p]) (filter (\<lambda>p. \<not> wanted bad (inputs ! p)) [0..<?n])"
    unfolding Failures_assemble list.map_comp by (rule isolated_failures [OF iso])
  moreover have "map (\<lambda>i. [i]) (filter (\<lambda>i. \<not> wanted bad i) inputs) =
      map (\<lambda>p. [inputs ! p]) (filter (\<lambda>p. \<not> wanted bad (inputs ! p)) [0..<?n])"
    by (subst filter_nth) simp
  ultimately show ?thesis using run by auto
qed

text \<open>
  C15: bisection isolates poison. Against a client that fails (with an error that is not a
  cancellation) exactly on the requests containing a poison text, and otherwise answers every
  identifier once in some order, the run returns a record for every valid input that is not
  poison, in input order, and exactly one failure, of that input alone, for every other input,
  in input order.
\<close>

theorem Run_isolates_poison:
  assumes calm: "calm E" and client: "poisoned_by E bad" and bisect: "\<not> DisableBisect cfg"
    and cap: "MaxBatchInputs (withDefaults E cfg) \<le> max_cap E"
  shows "\<exists>res w'. Run E inputs cfg w = Some (res, None, w')
    \<and> list_all2 (record_for (client_Model E)) (filter (wanted bad) inputs) (Records res)
    \<and> map bf_Inputs (Failures res) = map (\<lambda>i. [i]) (filter (\<lambda>i. \<not> wanted bad i) inputs)"
  by (rule run_isolates [OF assms])

subsection \<open>The requests that are sent\<close>

definition well_formed_request :: "int \<Rightarrow> EmbeddingRequest \<Rightarrow> bool" where
  "well_formed_request m req \<longleftrightarrow>
     rq_Inputs req \<noteq> [] \<and> len (rq_Inputs req) \<le> m \<and> distinct (map ei_ID (rq_Inputs req))
     \<and> list_all (\<lambda>i. TrimSpace (ei_Text i) \<noteq> []) (rq_Inputs req)"

definition sendable :: "int \<Rightarrow> indexedInput list \<Rightarrow> bool" where
  "sendable m batch \<longleftrightarrow> batch \<noteq> [] \<and> len batch \<le> m \<and> distinct (positions batch)
     \<and> list_all (\<lambda>it. TrimSpace (Text (in_Chunk (inp it))) \<noteq> []) batch"

lemma sendable_request: "sendable m batch \<Longrightarrow> well_formed_request m (batchRequest cfg batch)"
  by (auto simp: sendable_def well_formed_request_def batchRequest_def comp_def list_all_iff
      distinct_map inj_on_def)

lemma sendable_halves:
  assumes "sendable m batch" and "1 < length batch"
  shows "sendable m (take (length batch div 2) batch)" "sendable m (drop (length batch div 2) batch)"
proof -
  note h = halves [OF assms(2)]
  have d: "distinct (positions batch)" using assms(1) by (simp add: sendable_def)
  show "sendable m (take (length batch div 2) batch)" "sendable m (drop (length batch div 2) batch)"
    using assms(1) h halves_distinct [OF d] by (auto simp: sendable_def list_all_iff)
qed

text \<open>Two environments that differ only in the client, and agree on well-formed requests.\<close>

definition forwards :: "EmbedConfig \<Rightarrow> EmbeddingRequest \<Rightarrow> bool" where
  "forwards cfg req \<longleftrightarrow> rq_Purpose req = Purpose cfg \<and> rq_Dimensions req = Dimensions cfg
     \<and> rq_Task req = Task cfg"

lemma forwards_request [simp]: "forwards cfg (batchRequest cfg batch)"
  by (simp add: forwards_def batchRequest_def)

definition agree_on :: "int \<Rightarrow> EmbedConfig \<Rightarrow> ('w, 'e, 'f, 'm) Env \<Rightarrow>
    (EmbeddingRequest \<Rightarrow> 'w \<Rightarrow> ('e + 'f EmbeddingVector list) \<times> 'w) \<Rightarrow> bool" where
  "agree_on m cfg E c \<longleftrightarrow>
     (\<forall>req w. well_formed_request m req \<longrightarrow> forwards cfg req \<longrightarrow> client_Embed E req w = c req w)"

lemma embedBatch_agree:
  assumes "agree_on m cfg E c" and "sendable m batch"
  shows "embedBatch (E\<lparr>client_Embed := c\<rparr>) cfg batch st = embedBatch E cfg batch st"
  using assms(2)
proof (induction "length batch" arbitrary: batch st rule: less_induct)
  case less
  let ?E = "E\<lparr>client_Embed := c\<rparr>"
  have same: "client_Embed ?E (batchRequest cfg batch) w = client_Embed E (batchRequest cfg batch) w" for w
    using assms(1) sendable_request [OF less.prems] by (simp add: agree_on_def)
  have ih: "1 < length batch \<Longrightarrow>
      embedBatch ?E cfg (take (length batch div 2) batch) st' =
        embedBatch E cfg (take (length batch div 2) batch) st'"
    "1 < length batch \<Longrightarrow>
      embedBatch ?E cfg (drop (length batch div 2) batch) st' =
        embedBatch E cfg (drop (length batch div 2) batch) st'" for st'
    using less.hyps halves sendable_halves [OF less.prems] by blast+
  obtain r w where cl: "client_Embed E (batchRequest cfg batch) (world st) = (r, w)" by fastforce
  show ?case
  proof (cases r)
    case (Inr vs)
    then show ?thesis
      using embedBatch_answer [of E cfg batch st vs w] embedBatch_answer [of ?E cfg batch st vs w]
        cl same by simp
  next
    case (Inl err)
    have cl': "client_Embed ?E (batchRequest cfg batch) (world st) = (Inl err, w)"
      using cl same Inl by simp
    show ?thesis
      using cl Inl cl' ih
      by (subst (1 2) embedBatch.simps) (simp split: prod.split cong: option.case_cong)
  qed
qed

lemma run_batches_agree:
  assumes "agree_on m cfg E c" and "list_all (sendable m) bs"
  shows "run_batches (E\<lparr>client_Embed := c\<rparr>) cfg bs st = run_batches E cfg bs st"
  using assms(2)
proof (induction bs arbitrary: st)
  case (Cons b bs)
  then show ?case
    using embedBatch_agree [OF assms(1), of b]
    by (simp split: prod.split cong: option.case_cong)
qed simp

lemma run_agrees:
  assumes "\<And>req w. well_formed_request (MaxBatchInputs (withDefaults E cfg)) req \<Longrightarrow>
    forwards (withDefaults E cfg) req \<Longrightarrow> client_Embed E req w = c req w"
  shows "Run (E\<lparr>client_Embed := c\<rparr>) inputs cfg w = Run E inputs cfg w"
proof -
  let ?m = "MaxBatchInputs (withDefaults E cfg)" and ?E = "E\<lparr>client_Embed := c\<rparr>"
  have defaults: "withDefaults ?E cfg = withDefaults E cfg"
    by (cases "ec_Estimate cfg") (simp_all add: withDefaults_def)
  have agree: "agree_on ?m (withDefaults E cfg) E c" using assms by (simp add: agree_on_def)
  have "run_batches ?E (withDefaults E cfg) bs st = run_batches E (withDefaults E cfg) bs st"
    if bs: "packBatches (max_cap E) (valid_items (run_estimate E cfg) inputs) ?m
      (MaxBatchTokens (withDefaults E cfg)) = Some bs" for bs st
  proof (rule run_batches_agree [OF agree])
    have cap: "?m \<le> max_cap E"
      using bs by (auto simp: packBatches_def make_batch_def split: if_splits)
    have ok: "concat bs = valid_items (run_estimate E cfg) inputs"
      "list_all (batch_ok ?m (MaxBatchTokens (withDefaults E cfg))) bs"
      using packBatches_spec [OF withDefaults_limit cap, of "valid_items (run_estimate E cfg) inputs"
          "MaxBatchTokens (withDefaults E cfg)"] bs by auto
    have d: "distinct (positions (concat bs))" unfolding ok(1) positions_valid_items by simp
    have "TrimSpace (Text (in_Chunk (inp it))) \<noteq> []" if "it \<in> set (concat bs)" for it
    proof -
      have v: "it \<in> set (valid_items (run_estimate E cfg) inputs)" using that ok(1) by simp
      have "is_valid (inputs ! pos it)" using v unfolding set_valid_items by (elim conjE)
      then show ?thesis using inp_valid [OF v] by (simp add: is_valid_def)
    qed
    moreover have "distinct (positions b)" if "b \<in> set bs" for b
      using d that by (auto simp: map_concat dest: distinct_concat_iff [THEN iffD1])
    ultimately show "list_all (sendable ?m) bs"
      using ok(2) by (auto simp: list_all_iff sendable_def batch_ok_def)
  qed
  then show ?thesis
    by (cases "packBatches (max_cap E) (valid_items (run_estimate E cfg) inputs) ?m
        (MaxBatchTokens (withDefaults E cfg))")
      (simp_all add: Run_def Let_def defaults validate_from_spec valid_items_def [symmetric])
qed

text \<open>
  C18: only well-formed requests reach the client: non-empty, within the batch limit, with
  pairwise different identifiers and without a blank text, and with the purpose, dimensions and
  task of the configuration. Replacing the client by one that behaves differently on every
  other request changes nothing.
\<close>

theorem Run_sends_only_valid:
  assumes "\<And>req w. well_formed_request (MaxBatchInputs (withDefaults E cfg)) req \<Longrightarrow>
    forwards (withDefaults E cfg) req \<Longrightarrow> client_Embed E req w = c req w"
  shows "Run (E\<lparr>client_Embed := c\<rparr>) inputs cfg w = Run E inputs cfg w"
  by (rule run_agrees [OF assms])

text \<open>
  C19: a run panics exactly when the batch limit exceeds what the run-time can allocate as a
  batch's capacity, whatever the inputs (even none): limits are allocated, not only compared.
\<close>

theorem Run_panics_iff:
  "Run E inputs cfg w = None \<longleftrightarrow> max_cap E < MaxBatchInputs (withDefaults E cfg)"
proof
  assume "Run E inputs cfg w = None"
  then show "max_cap E < MaxBatchInputs (withDefaults E cfg)"
    using Run_outcome [OF _ faithful_trivial, of E cfg inputs w] by (metis not_less option.distinct(1))
next
  assume "max_cap E < MaxBatchInputs (withDefaults E cfg)"
  then show "Run E inputs cfg w = None"
    using Run_needs_capacity [of E inputs cfg w] by (cases "Run E inputs cfg w") auto
qed

text \<open>
  Batching keeps every input, in order, in non-empty batches within the input limit and
  within the token limit (a lone oversize input excepted), and closes a batch only when the next
  input does not fit.
\<close>

theorem packBatches_correct:
  assumes "1 \<le> maxInputs" and "maxInputs \<le> cap"
  shows "\<exists>bs. packBatches cap items maxInputs maxToks = Some bs \<and> concat bs = items
    \<and> list_all (batch_ok maxInputs maxToks) bs \<and> successively (closed_by maxInputs maxToks) bs"
  by (rule packBatches_spec [OF assms])

end
