(* ===== verification/Embed_Examples.thy ===== *)
theory Embed_Examples
  imports Embed_Isolation
begin

text \<open>
  The properties of the embedding runner at work on concrete runs: a client that cannot embed
  one text and lists its vectors backwards, and a client that answers with the right number of
  vectors under a wrong identifier.
\<close>

definition demo_input :: "string \<Rightarrow> int \<Rightarrow> Input" where
  "demo_input t k = \<lparr>in_SourceID = ''s'', in_ArtifactID = ''a'',
     in_Chunk = \<lparr>Text = t, Index = k, StartByte = 0, EndByte = len t, TokenCount = 1\<rparr>,
     in_Title = [], in_Metadata = Map.empty\<rparr>"

definition demo_inputs :: "Input list" where
  "demo_inputs = [demo_input ''one'' 0, demo_input ''bad'' 1, demo_input '' '' 2, demo_input ''four'' 3]"

definition demo_embed_cfg :: EmbedConfig where
  "demo_embed_cfg = \<lparr>MaxBatchInputs = 0, MaxBatchTokens = 0, ec_Estimate = None, Task = [],
     Purpose = [], Dimensions = 0, DisableBisect = False\<rparr>"

definition demo_client ::
  "EmbeddingRequest \<Rightarrow> nat \<Rightarrow> (string + nat EmbeddingVector list) \<times> nat" where
  "demo_client req w =
     (if list_ex (\<lambda>i. ei_Text i = ''bad'') (rq_Inputs req) then Inl ''boom''
      else Inr (rev (map (\<lambda>i. \<lparr>ev_ID = ei_ID i, ev_Values = [length (ei_Text i)]\<rparr>) (rq_Inputs req))),
      w + 1)"

definition demo_env :: "(nat, string, nat, string) Env" where
  "demo_env = \<lparr>ctx_Err = (\<lambda>w. (None, w)), client_Embed = demo_client, client_Model = ''m'',
     is_Canceled = (\<lambda>_. False), llms_Retryable = (\<lambda>_. True), llms_EstimateTextTokens = (\<lambda>s. len s),
     llms_PurposeEmbedding = ''embedding'', max_cap = 1000\<rparr>"

definition demo_record :: "string \<Rightarrow> int \<Rightarrow> nat list \<Rightarrow> (nat, string) Record" where
  "demo_record t k v = \<lparr>rec_SourceID = ''s'', rec_ArtifactID = ''a'', ChunkIndex = k, rec_Text = t,
     Vector = v, Model = ''m'', rec_TokenCount = 1, rec_Metadata = Map.empty\<rparr>"

definition demo_result :: "(nat, string, string) RunResult" where
  "demo_result = \<lparr>Records = [demo_record ''one'' 0 [3], demo_record ''four'' 3 [4]],
     Failures = [\<lparr>bf_Inputs = [demo_input ''bad'' 1], bf_Err = BatchFailed 1 ''boom'', Retryable = True\<rparr>,
                 \<lparr>bf_Inputs = [demo_input '' '' 2], bf_Err = ErrEmptyText, Retryable = False\<rparr>]\<rparr>"

text \<open>Five calls: the batch of three, its halves, and the halves of the half with the poison.\<close>

lemma demo_run: "Run demo_env demo_inputs demo_embed_cfg 0 = Some (demo_result, None, 5)"
  by (simp add: go_eval demo_inputs_def demo_input_def demo_embed_cfg_def demo_client_def
      demo_env_def demo_record_def demo_result_def List.map_filter_def upt_rec
      cong: eval_congs option.case_cong_weak)

theorem Run_accounts_witness:
  "\<exists>ps. sorted_wrt (<) ps \<and> set ps \<subseteq> {..<length demo_inputs}
    \<and> list_all2 (\<lambda>p r. is_valid (demo_inputs ! p)
        \<and> record_for (client_Model demo_env) (demo_inputs ! p) r) ps (Records demo_result)
    \<and> (\<forall>p < length demo_inputs. p \<in> set ps
        \<or> (\<exists>f \<in> set (Failures demo_result). demo_inputs ! p \<in> set (bf_Inputs f)))"
  by (rule Run_accounts [OF demo_run])

text \<open>The client lists its vectors backwards; each still reaches its own text.\<close>

lemma demo_faithful:
  assumes "distinct (map ei_ID (rq_Inputs req))" and "client_Embed demo_env req w = (Inr vs, w')"
    and "v \<in> set vs" and "i \<in> set (rq_Inputs req)" and "ei_ID i = ev_ID v"
  shows "ev_Values v = [length (ei_Text i)]"
proof -
  have "vs = rev (map (\<lambda>i. \<lparr>ev_ID = ei_ID i, ev_Values = [length (ei_Text i)]\<rparr>) (rq_Inputs req))"
    using assms(2) by (simp add: demo_env_def demo_client_def split: if_splits)
  then obtain i' where i': "i' \<in> set (rq_Inputs req)" "ev_ID v = ei_ID i'"
    "ev_Values v = [length (ei_Text i')]"
    using assms(3) by auto
  then have "i' = i" using assms(1,4,5) by (simp add: distinct_map inj_on_def)
  then show ?thesis using i'(3) by simp
qed

theorem Run_vectors_witness:
  "Vector (demo_record ''four'' 3 [4]) = [length (rec_Text (demo_record ''four'' 3 [4]))]"
proof (rule Run_vectors [where good = "\<lambda>t v. v = [length t]", OF _ demo_run])
  show "demo_record ''four'' 3 [4] \<in> set (Records demo_result)" by (simp add: demo_result_def)
qed (rule demo_faithful)

theorem Run_failures_ordered_witness:
  "\<exists>ks. sorted ks \<and> list_all2 (\<lambda>k f. k < length demo_inputs
      \<and> demo_inputs ! k \<in> set (bf_Inputs f)
      \<and> set (bf_Inputs f) \<subseteq> set (drop k demo_inputs)) ks (Failures demo_result)"
  by (rule Run_failures_ordered [OF demo_run])

lemma demo_calm: "calm demo_env"
  by (simp add: calm_def demo_env_def)

lemma demo_poisoned: "poisoned_by demo_env (\<lambda>t. t = ''bad'')"
proof -
  have "answers req (rev (map (\<lambda>i. \<lparr>ev_ID = ei_ID i, ev_Values = [length (ei_Text i)]\<rparr>) (rq_Inputs req)))"
    if "distinct (map ei_ID (rq_Inputs req))" for req
    using that by (simp add: answers_def rev_map [symmetric] comp_def)
  then show ?thesis
    by (auto simp: poisoned_by_def demo_env_def demo_client_def list_ex_iff)
qed

theorem Run_isolates_poison_witness:
  "\<exists>res w'. Run demo_env demo_inputs demo_embed_cfg 0 = Some (res, None, w')
    \<and> list_all2 (record_for (client_Model demo_env))
        (filter (wanted (\<lambda>t. t = ''bad'')) demo_inputs) (Records res)
    \<and> map bf_Inputs (Failures res) =
        map (\<lambda>i. [i]) (filter (\<lambda>i. \<not> wanted (\<lambda>t. t = ''bad'') i) demo_inputs)"
  by (rule Run_isolates_poison [OF demo_calm demo_poisoned])
    (simp_all add: demo_embed_cfg_def demo_env_def withDefaults_def DefaultMaxBatchInputs_def)

text \<open>A client that answers nothing at all to a blank or oversize request changes nothing.\<close>

theorem Run_sends_only_valid_witness:
  "Run (demo_env\<lparr>client_Embed := (\<lambda>req w. if well_formed_request 96 req
        \<and> forwards (withDefaults demo_env demo_embed_cfg) req then demo_client req w
      else (Inl ''rejected'', w))\<rparr>) demo_inputs demo_embed_cfg 0 =
   Run demo_env demo_inputs demo_embed_cfg 0"
  by (rule Run_sends_only_valid)
    (simp add: demo_embed_cfg_def demo_env_def withDefaults_def DefaultMaxBatchInputs_def)

theorem packBatches_correct_witness:
  "\<exists>bs. packBatches 1000 (valid_items (\<lambda>s. len s) demo_inputs) 2 20000 = Some bs
    \<and> concat bs = valid_items (\<lambda>s. len s) demo_inputs
    \<and> list_all (batch_ok 2 20000) bs \<and> successively (closed_by 2 20000) bs"
  by (rule packBatches_correct) simp_all

subsection \<open>A response with a wrong identifier\<close>

definition demo_mislabel :: "(nat, string, nat, string) Env" where
  "demo_mislabel = demo_env\<lparr>client_Embed := (\<lambda>req w.
     (Inr [\<lparr>ev_ID = ''in-0'', ev_Values = [3]\<rparr>, \<lparr>ev_ID = ''other'', ev_Values = [5]\<rparr>], w + 1))\<rparr>"

text \<open>
  When a response has as many vectors as inputs but one of them carries an unknown
  identifier, the inputs recorded before the gap is found are reported twice: they are in the
  records, and the failure covers the whole batch, so re-running the failures embeds and stores
  them again.
\<close>

theorem Run_reports_twice:
  "Run demo_mislabel [demo_input ''one'' 0, demo_input ''two'' 1] demo_embed_cfg 0 = Some (
     \<lparr>Records = [demo_record ''one'' 0 [3]],
      Failures = [\<lparr>bf_Inputs = [demo_input ''one'' 0, demo_input ''two'' 1], bf_Err = NoVector 1,
                   Retryable = False\<rparr>]\<rparr>, None, 1)"
  by (simp add: go_eval demo_mislabel_def demo_input_def demo_embed_cfg_def demo_client_def
      demo_env_def demo_record_def List.map_filter_def upt_rec cong: eval_congs option.case_cong_weak)

end
