(* ===== verification/Embed_Trace.thy ===== *)
theory Embed_Trace
  imports Embed_Examples
begin

text \<open>
  What a run of \<^verbatim>\<open>embed/embed.go\<close> does to the outside, in order: an environment that logs
  its calls. The log of a run shows how often the client is called and that nothing is called any
  more once the run is canceled.
\<close>

subsection \<open>Logging the calls\<close>

datatype 'e event =
    Checked "'e option"
  | Called EmbeddingRequest "'e option"

definition logged_ctx :: "('w, 'e, 'f, 'm) Env \<Rightarrow> 'w \<times> 'e event list \<Rightarrow> 'e option \<times> ('w \<times> 'e event list)"
  where
  "logged_ctx E wl = (case ctx_Err E (fst wl) of (c, w) \<Rightarrow> (c, w, snd wl @ [Checked c]))"

definition logged_client :: "('w, 'e, 'f, 'm) Env \<Rightarrow> EmbeddingRequest \<Rightarrow> 'w \<times> 'e event list \<Rightarrow>
    ('e + 'f EmbeddingVector list) \<times> ('w \<times> 'e event list)" where
  "logged_client E req wl = (case client_Embed E req (fst wl) of
     (r, w) \<Rightarrow> (r, w, snd wl @ [Called req (case r of Inl e \<Rightarrow> Some e | Inr _ \<Rightarrow> None)]))"

definition logged :: "('w, 'e, 'f, 'm) Env \<Rightarrow> ('w \<times> 'e event list, 'e, 'f, 'm) Env" where
  "logged E = \<lparr>ctx_Err = logged_ctx E, client_Embed = logged_client E, client_Model = client_Model E,
     is_Canceled = is_Canceled E, llms_Retryable = llms_Retryable E,
     llms_EstimateTextTokens = llms_EstimateTextTokens E,
     llms_PurposeEmbedding = llms_PurposeEmbedding E, max_cap = max_cap E\<rparr>"

lemma logged_simps [simp]:
  "ctx_Err (logged E) = logged_ctx E" "client_Embed (logged E) = logged_client E"
  "client_Model (logged E) = client_Model E" "is_Canceled (logged E) = is_Canceled E"
  "llms_Retryable (logged E) = llms_Retryable E" "max_cap (logged E) = max_cap E"
  "withDefaults (logged E) = withDefaults E"
  by (simp_all add: logged_def withDefaults_def fun_eq_iff split: option.split)

definition unlog :: "('w \<times> 'l, 'e, 'f, 'm) RunState \<Rightarrow> ('w, 'e, 'f, 'm) RunState" where
  "unlog st = \<lparr>recordsByPos = recordsByPos st, failures = failures st, world = fst (world st)\<rparr>"

abbreviation "log_of st \<equiv> snd (world st)"

lemma unlog_simps [simp]:
  "recordsByPos (unlog st) = recordsByPos st" "failures (unlog st) = failures st"
  "world (unlog st) = fst (world st)" "unlog (st\<lparr>world := w\<rparr>) = (unlog st)\<lparr>world := fst w\<rparr>"
  "unlog (st\<lparr>failures := fs\<rparr>) = (unlog st)\<lparr>failures := fs\<rparr>"
  "unlog (st\<lparr>recordsByPos := R\<rparr>) = (unlog st)\<lparr>recordsByPos := R\<rparr>"
  by (simp_all add: unlog_def)

text \<open>The calls of the client in a log.\<close>

fun is_call :: "'e event \<Rightarrow> bool" where
  "is_call (Checked c) \<longleftrightarrow> False"
| "is_call (Called req e) \<longleftrightarrow> True"

abbreviation calls :: "'e event list \<Rightarrow> nat" where
  "calls es \<equiv> length (filter is_call es)"

text \<open>
  A log without a cancellation, and how the log of a canceled run ends: with a check that found
  the context canceled, possibly right after a failed call, or with a client error that is a
  cancellation and the check after it.
\<close>

fun quiet :: "('w, 'e, 'f, 'm) Env \<Rightarrow> 'e event \<Rightarrow> bool" where
  "quiet E (Checked c) \<longleftrightarrow> c = None"
| "quiet E (Called req e) \<longleftrightarrow> (case e of None \<Rightarrow> True | Some e' \<Rightarrow> \<not> is_Canceled E e')"

inductive cancels :: "('w, 'e, 'f, 'm) Env \<Rightarrow> 'e \<Rightarrow> 'e event list \<Rightarrow> bool" for E e where
  before_call: "cancels E e [Checked (Some e)]"
| after_failure: "cancels E e [Called req (Some err), Checked (Some e)]"
| by_client: "is_Canceled E e \<Longrightarrow> cancels E e [Called req (Some e), Checked None]"

definition stops_with :: "('w, 'e, 'f, 'm) Env \<Rightarrow> 'e option \<Rightarrow> 'e event list \<Rightarrow> bool" where
  "stops_with E err es \<longleftrightarrow>
     (\<exists>front final. es = front @ final \<and> list_all (quiet E) front
        \<and> (case err of None \<Rightarrow> final = [] | Some e \<Rightarrow> cancels E e final))"

lemma stops_None [simp]: "stops_with E None es \<longleftrightarrow> list_all (quiet E) es"
  by (simp add: stops_with_def)

lemma stops_Some [intro]: "cancels E e es \<Longrightarrow> stops_with E (Some e) es"
  unfolding stops_with_def by (intro exI [of _ "[]"] exI [of _ es]) simp

lemma stops_append:
  assumes "list_all (quiet E) es" and "stops_with E err es'"
  shows "stops_with E err (es @ es')"
proof -
  obtain front final where "es' = front @ final" "list_all (quiet E) front"
    "case err of None \<Rightarrow> final = [] | Some e \<Rightarrow> cancels E e final"
    using assms(2) unfolding stops_with_def by blast
  then show ?thesis
    using assms(1) unfolding stops_with_def by (intro exI [of _ "es @ front"] exI [of _ final]) simp
qed

subsection \<open>One batch\<close>

lemma settle_unlog:
  "settle m batch vs (unlog st) = map_option unlog (settle m batch vs st)"
  "settle m batch vs st = Some st' \<Longrightarrow> world st' = world st"
  unfolding settle_def
  by (auto simp: Let_def bind_eq_Some split: sum.splits option.splits prod.splits if_splits
      Option.bind_splits)

text \<open>
  What a batch of the logging run is, against the plain one: the same result, with a log that is
  longer by at most twice the batch.
\<close>

definition logs :: "('w, 'e, 'f, 'm) Env \<Rightarrow> nat \<Rightarrow> ('w \<times> 'e event list, 'e, 'f, 'm) RunState \<Rightarrow>
    'e option \<Rightarrow> ('w \<times> 'e event list, 'e, 'f, 'm) RunState \<Rightarrow> bool" where
  "logs E n st err st' \<longleftrightarrow>
     (\<exists>es. log_of st' = log_of st @ es \<and> calls es \<le> n \<and> stops_with E err es)"

lemma logsI: "log_of st' = log_of st @ es \<Longrightarrow> calls es \<le> n \<Longrightarrow> stops_with E err es \<Longrightarrow>
    logs E n st err st'"
  unfolding logs_def by blast

lemma logs_trans:
  assumes "logs E n st None st'" and "logs E m st' err st''"
  shows "logs E (n + m) st err st''"
proof -
  from assms obtain es es' where "log_of st' = log_of st @ es" "calls es \<le> n" "stops_with E None es"
    "log_of st'' = log_of st' @ es'" "calls es' \<le> m" "stops_with E err es'"
    unfolding logs_def by blast
  then show ?thesis
    using stops_append [of E es err es'] by (intro logsI [of _ _ "es @ es'"]) simp_all
qed

lemma logs_mono: "logs E n st err st' \<Longrightarrow> n \<le> m \<Longrightarrow> logs E m st err st'"
  unfolding logs_def by (meson le_trans)

definition call_bound :: "EmbedConfig \<Rightarrow> 'a list \<Rightarrow> nat" where
  "call_bound cfg batch = (if DisableBisect cfg then 1 else 2 * length batch - 1)"

lemma logs_nothing: "logs E 0 st None st"
  by (rule logsI [of _ _ "[]"]) simp_all

lemma logged_client_eq:
  "client_Embed E req (fst wl) = (r, w) \<Longrightarrow> logged_client E req wl =
     (r, w, snd wl @ [Called req (case r of Inl e \<Rightarrow> Some e | Inr _ \<Rightarrow> None)])"
  by (simp add: logged_client_def)

lemma logged_ctx_eq:
  "ctx_Err E (fst wl) = (c, w) \<Longrightarrow> logged_ctx E wl = (c, w, snd wl @ [Checked c])"
  by (simp add: logged_ctx_def)

lemma embedBatch_logged:
  assumes "batch \<noteq> []"
  shows "rel_option (\<lambda>(err, st') (err', st''). err' = err \<and> st'' = unlog st'
      \<and> logs E (call_bound cfg batch) st err st')
    (embedBatch (logged E) cfg batch st) (embedBatch E cfg batch (unlog st))"
  using assms
proof (induction "length batch" arbitrary: batch st rule: less_induct)
  case less
  let ?req = "batchRequest cfg batch"
  obtain r w where cl: "client_Embed E ?req (fst (world st)) = (r, w)" by fastforce
  have one: "1 \<le> call_bound cfg batch"
    using less.prems by (cases batch) (auto simp: call_bound_def)
  show ?case
  proof (cases r)
    case (Inr vs)
    let ?w = "(w, log_of st @ [Called ?req None])"
    have lc: "client_Embed (logged E) ?req (world st) = (Inr vs, ?w)"
      using cl Inr by (simp add: logged_client_eq)
    have "client_Embed E ?req (world (unlog st)) = (Inr vs, w)" using cl Inr by simp
    note steps = embedBatch_answer [OF lc] embedBatch_answer [OF this]
    have s: "settle (client_Model E) batch vs ((unlog st)\<lparr>world := w\<rparr>) =
        map_option unlog (settle (client_Model E) batch vs (st\<lparr>world := ?w\<rparr>))"
      using settle_unlog(1) [of "client_Model E" batch vs "st\<lparr>world := ?w\<rparr>"] by simp
    have "logs E (call_bound cfg batch) st None st'"
      if "settle (client_Model E) batch vs (st\<lparr>world := ?w\<rparr>) = Some st'" for st'
      using settle_unlog(2) [OF that] one by (intro logsI [of _ _ "[Called ?req None]"]) simp_all
    then show ?thesis
      unfolding steps s by (cases "settle (client_Model E) batch vs (st\<lparr>world := ?w\<rparr>)") simp_all
  next
    case (Inl err)
    obtain c w' where cx: "ctx_Err E w = (c, w')" by fastforce
    let ?l = "log_of st @ [Called ?req (Some err)]"
    have lc: "client_Embed (logged E) ?req (world st) = (Inl err, w, ?l)"
      using cl Inl by (simp add: logged_client_eq)
    have lx: "ctx_Err (logged E) (w, ?l) = (c, w', ?l @ [Checked c])"
      using cx by (simp add: logged_ctx_eq)
    have pc: "client_Embed E ?req (world (unlog st)) = (Inl err, w)" using cl Inl by simp
    have two: "stops_with E None [Called ?req (Some err), Checked None]" if "\<not> is_Canceled E err"
      using that by simp
    have final: "logs E (call_bound cfg batch) st err' (st'\<lparr>world := (w', ?l @ [Checked c'])\<rparr>)"
      if "stops_with E err' [Called ?req (Some err), Checked c']" for st' err' c'
      using that one by (intro logsI [of _ _ "[Called ?req (Some err), Checked c']"]) simp_all
    consider (ctx) ce where "c = Some ce" | (client) "c = None" "is_Canceled E err"
      | (bisect) "c = None" "\<not> is_Canceled E err" "\<not> DisableBisect cfg" "1 < length batch"
      | (fail) "c = None" "\<not> is_Canceled E err" "DisableBisect cfg \<or> \<not> 1 < length batch"
      by (cases c) auto
    then show ?thesis
    proof cases
      case ctx
      then show ?thesis
        using lc lx pc cx final [where st' = st, OF stops_Some [OF after_failure]]
        by (subst (1 2) embedBatch.simps) auto
    next
      case client
      then show ?thesis
        using lc lx pc cx final [where st' = st, OF stops_Some [OF by_client]]
        by (subst (1 2) embedBatch.simps) auto
    next
      case bisect
      let ?b1 = "take (length batch div 2) batch" and ?b2 = "drop (length batch div 2) batch"
      let ?st0 = "st\<lparr>world := (w', ?l @ [Checked None])\<rparr>"
      note h = halves [OF bisect(4)]
      have l0: "logs E 1 st None ?st0"
        using two [OF bisect(2)] by (intro logsI [of _ _ "[Called ?req (Some err), Checked None]"]) simp_all
      have sum: "1 + (call_bound cfg ?b1 + call_bound cfg ?b2) = call_bound cfg batch"
        using bisect(3,4) by (auto simp: call_bound_def)
      have cx': "ctx_Err E w = (None, w')" and lx': "ctx_Err (logged E) (w, ?l) = (None, w', ?l @ [Checked None])"
        using cx lx bisect(1) by simp_all
      note steps = embedBatch_bisect [OF lc lx' _ bisect(3,4), simplified, OF bisect(2)]
        embedBatch_bisect [OF pc cx' bisect(2-4)]
      have ih1: "rel_option (\<lambda>(err, st') (err', st''). err' = err \<and> st'' = unlog st'
          \<and> logs E (call_bound cfg ?b1) ?st0 err st')
        (embedBatch (logged E) cfg ?b1 ?st0) (embedBatch E cfg ?b1 ((unlog st)\<lparr>world := w'\<rparr>))"
        using less.hyps [OF h(3,1), of ?st0] by simp
      show ?thesis
      proof (cases "embedBatch (logged E) cfg ?b1 ?st0")
        case None
        then show ?thesis using ih1 steps by simp
      next
        case (Some r1)
        obtain err1 st1 where r1: "r1 = (err1, st1)" by fastforce
        have p1: "embedBatch E cfg ?b1 ((unlog st)\<lparr>world := w'\<rparr>) = Some (err1, unlog st1)"
          and l1: "logs E (call_bound cfg ?b1) ?st0 err1 st1"
          using ih1 Some r1 by (auto simp: option_rel_Some1)
        show ?thesis
        proof (cases err1)
          case None
          have "logs E (call_bound cfg batch) st err2 st2"
            if "logs E (call_bound cfg ?b2) st1 err2 st2" for err2 st2
            using logs_trans [OF l0 logs_trans [OF l1 [unfolded None] that]] sum by simp
          moreover note less.hyps [OF h(4,2), of st1]
          ultimately show ?thesis
            using Some r1 p1 None steps by (auto elim!: option.rel_mono_strong)
        next
          case e: (Some e)
          have "logs E (call_bound cfg batch) st err1 st1"
            using logs_trans [OF l0 l1] sum by (elim logs_mono) simp
          then show ?thesis using Some r1 p1 e steps by simp
        qed
      qed
    next
      case fail
      then have cx': "ctx_Err E w = (None, w')" and lx': "ctx_Err (logged E) (w, ?l) = (None, w', ?l @ [Checked None])"
        using cx lx by simp_all
      note steps = embedBatch_fail [OF lc lx' _ fail(3), simplified, OF fail(2)]
        embedBatch_fail [OF pc cx' fail(2,3)]
      obtain f where "addBatchFailure (failures st) batch (BatchFailed (length batch) err)
          (llms_Retryable E err) = Some (failures st @ [f])"
        using addBatchFailure_spec [OF less.prems] by metis
      then show ?thesis
        using steps final [where st' = "st\<lparr>failures := failures st @ [f]\<rparr>", OF two [OF fail(2)]] fail(1)
        by simp
    qed
  qed
qed

subsection \<open>The run\<close>

lemma run_batches_logged:
  assumes "list_all (\<lambda>b. b \<noteq> []) bs"
  shows "rel_option (\<lambda>(err, st') (err', st''). err' = err \<and> st'' = unlog st'
      \<and> logs E (sum_list (map (call_bound cfg) bs)) st err st')
    (run_batches (logged E) cfg bs st) (run_batches E cfg bs (unlog st))"
  using assms
proof (induction bs arbitrary: st)
  case Nil
  then show ?case by (simp add: logs_nothing)
next
  case (Cons b bs)
  obtain c w where cx: "ctx_Err E (fst (world st)) = (c, w)" by fastforce
  let ?st0 = "st\<lparr>world := (w, log_of st @ [Checked c])\<rparr>"
  have lx: "ctx_Err (logged E) (world st) = (c, w, log_of st @ [Checked c])"
    using cx by (simp add: logged_ctx_eq)
  show ?case
  proof (cases c)
    case (Some ce)
    have "logs E (sum_list (map (call_bound cfg) (b # bs))) st (Some ce) ?st0"
      using Some stops_Some [OF before_call] by (intro logsI [of _ _ "[Checked c]"]) simp_all
    then show ?thesis using Some cx lx by simp
  next
    case None
    have l0: "logs E 0 st None ?st0"
      using None by (intro logsI [of _ _ "[Checked None]"]) simp_all
    have b: "rel_option (\<lambda>(err, st') (err', st''). err' = err \<and> st'' = unlog st'
        \<and> logs E (call_bound cfg b) ?st0 err st')
      (embedBatch (logged E) cfg b ?st0) (embedBatch E cfg b ((unlog st)\<lparr>world := w\<rparr>))"
      using embedBatch_logged [of b E cfg ?st0] Cons.prems by simp
    show ?thesis
    proof (cases "embedBatch (logged E) cfg b ?st0")
      case N: None
      then show ?thesis using b None cx lx by simp
    next
      case (Some r)
      obtain err1 st1 where r: "r = (err1, st1)" by fastforce
      have p: "embedBatch E cfg b ((unlog st)\<lparr>world := w\<rparr>) = Some (err1, unlog st1)"
        and l1: "logs E (call_bound cfg b) ?st0 err1 st1"
        using b Some r by (auto simp: option_rel_Some1)
      note l = logs_trans [OF l0 l1]
      show ?thesis
      proof (cases err1)
        case e: None
        have "logs E (sum_list (map (call_bound cfg) (b # bs))) st err2 st2"
          if "logs E (sum_list (map (call_bound cfg) bs)) st1 err2 st2" for err2 st2
          using logs_trans [OF l [unfolded e] that] by simp
        moreover note Cons.IH [of st1]
        ultimately show ?thesis
          using Some r p e None cx lx Cons.prems by (auto elim!: option.rel_mono_strong)
      next
        case e: (Some e)
        have "logs E (sum_list (map (call_bound cfg) (b # bs))) st err1 st1"
          using l by (elim logs_mono) simp
        then show ?thesis using Some r p e None cx lx by simp
      qed
    qed
  qed
qed

definition run_bound :: "EmbedConfig \<Rightarrow> nat \<Rightarrow> nat" where
  "run_bound cfg n = (if DisableBisect cfg then n else 2 * n)"

lemma sum_call_bound:
  "list_all (\<lambda>b. b \<noteq> []) bs \<Longrightarrow>
     sum_list (map (call_bound cfg) bs) \<le> run_bound cfg (length (concat bs))"
proof (induction bs)
  case (Cons b bs)
  then show ?case by (cases b) (auto simp: call_bound_def run_bound_def)
qed simp

lemma length_valid_items: "length (valid_items f inputs) = length (filter is_valid inputs)"
proof -
  have "length (valid_items f inputs) = length (filter (\<lambda>p. is_valid (inputs ! p)) [0..<length inputs])"
    unfolding positions_valid_items [of f, symmetric] by simp
  then show ?thesis by (simp add: filter_nth [of is_valid inputs])
qed

lemma Run_packed:
  assumes "packBatches (max_cap E) (valid_items (run_estimate E cfg) inputs)
      (MaxBatchInputs (withDefaults E cfg)) (MaxBatchTokens (withDefaults E cfg)) = Some bs"
  shows "Run E inputs cfg w =
      do { r \<leftarrow> run_batches E (withDefaults E cfg) bs
             \<lparr>recordsByPos = Map.empty, failures = invalid_fails inputs, world = w\<rparr>;
           Some (assemble (length inputs) (recordsByPos (snd r)) (failures (snd r)),
                 fst r, world (snd r)) }"
  using assms
  by (simp add: Run_def Let_def validate_from_spec valid_items_def [symmetric]
      invalid_fails_def [symmetric])

lemma run_logged:
  assumes "Run (logged E) inputs cfg (w, []) = Some (res, err, w', es)"
  shows "Run E inputs cfg w = Some (res, err, w')
    \<and> calls es \<le> run_bound cfg (length (filter is_valid inputs)) \<and> stops_with E err es"
proof -
  let ?cfg = "withDefaults E cfg"
  let ?st = "\<lparr>recordsByPos = Map.empty, failures = invalid_fails inputs, world = (w, [])\<rparr>"
  have cap: "MaxBatchInputs ?cfg \<le> max_cap E"
    using Run_needs_capacity [OF assms] by simp
  have est: "run_estimate (logged E) cfg = run_estimate E cfg"
    by (simp add: run_estimate_def logged_def split: option.split)
  obtain bs where pb: "packBatches (max_cap E) (valid_items (run_estimate E cfg) inputs)
      (MaxBatchInputs ?cfg) (MaxBatchTokens ?cfg) = Some bs"
    "concat bs = valid_items (run_estimate E cfg) inputs"
    "list_all (batch_ok (MaxBatchInputs ?cfg) (MaxBatchTokens ?cfg)) bs"
    using packBatches_spec [OF withDefaults_limit cap] by blast
  have ne: "list_all (\<lambda>b. b \<noteq> []) bs" using pb(3) by (auto simp: list_all_iff batch_ok_def)
  obtain st' where r: "run_batches (logged E) ?cfg bs ?st = Some (err, st')"
    and res: "res = assemble (length inputs) (recordsByPos st') (failures st')" "world st' = (w', es)"
    using assms Run_packed [of "logged E" cfg inputs bs "(w, [])"] pb(1) est
    by (auto simp: bind_eq_Some)
  have "run_batches E ?cfg bs \<lparr>recordsByPos = Map.empty, failures = invalid_fails inputs, world = w\<rparr> =
      Some (err, unlog st')"
    and "logs E (sum_list (map (call_bound ?cfg) bs)) ?st err st'"
    using run_batches_logged [OF ne, of E ?cfg ?st] r by (auto simp: option_rel_Some1 unlog_def)
  then have "Run E inputs cfg w = Some (res, err, w')"
    and "calls es \<le> sum_list (map (call_bound ?cfg) bs)" and "stops_with E err es"
    using Run_packed [OF pb(1), of w] res by (auto simp: logs_def)
  moreover have "run_bound ?cfg = run_bound cfg"
    by (simp add: run_bound_def withDefaults_def fun_eq_iff)
  ultimately show ?thesis
    using sum_call_bound [OF ne, of ?cfg] pb(2) length_valid_items [of "run_estimate E cfg" inputs]
    by simp
qed

text \<open>
  C16: Bisection is bounded, and cancellation is final. Logging the calls of a run changes neither
  its result nor its error; the client is called at most once for each valid input without
  bisection and at most twice with it, however often it fails; and the run is canceled exactly when
  its log ends with a cancellation, after which neither the client nor the context is asked again.
\<close>

theorem Run_calls:
  assumes "Run (logged E) inputs cfg (w, []) = Some (res, err, w', es)"
  shows "Run E inputs cfg w = Some (res, err, w')
    \<and> calls es \<le> run_bound cfg (length (filter is_valid inputs)) \<and> stops_with E err es"
  by (rule run_logged [OF assms])

subsection \<open>A canceled run\<close>

text \<open>A context that is canceled once the client has been called, and batches of one input.\<close>

definition demo_cancel :: "(nat, string, nat, string) Env" where
  "demo_cancel = demo_env\<lparr>ctx_Err := (\<lambda>w. (if 1 \<le> w then Some ''canceled'' else None, w))\<rparr>"

definition demo_log :: "string event list" where
  "demo_log = [Checked None,
     Called \<lparr>rq_Inputs = [\<lparr>ei_ID = ''in-0'', ei_Text = ''one'', ei_Title = []\<rparr>],
       rq_Purpose = ''embedding'', rq_Dimensions = 0, rq_Task = []\<rparr> None,
     Checked (Some ''canceled'')]"

lemma demo_canceled:
  "Run (logged demo_cancel) [demo_input ''one'' 0, demo_input ''two'' 1]
     (demo_embed_cfg\<lparr>MaxBatchInputs := 1\<rparr>) (0, []) =
   Some (\<lparr>Records = [demo_record ''one'' 0 [3]], Failures = []\<rparr>, Some ''canceled'', 1, demo_log)"
  by (simp add: go_eval logged_def logged_ctx_def logged_client_def demo_cancel_def demo_log_def
      demo_input_def demo_embed_cfg_def demo_client_def demo_env_def demo_record_def
      List.map_filter_def upt_rec cong: eval_congs option.case_cong_weak)

theorem Run_calls_witness:
  "Run demo_cancel [demo_input ''one'' 0, demo_input ''two'' 1]
     (demo_embed_cfg\<lparr>MaxBatchInputs := 1\<rparr>) 0 =
     Some (\<lparr>Records = [demo_record ''one'' 0 [3]], Failures = []\<rparr>, Some ''canceled'', 1)
   \<and> calls demo_log \<le> run_bound (demo_embed_cfg\<lparr>MaxBatchInputs := 1\<rparr>)
       (length (filter is_valid [demo_input ''one'' 0, demo_input ''two'' 1]))
   \<and> stops_with demo_cancel (Some ''canceled'') demo_log"
  by (rule Run_calls [OF demo_canceled])

end
