(* ===== verification/Fake_Embedder.thy ===== *)
theory Fake_Embedder
  imports Embed_Examples Float64 "HOL-Library.Word"
begin

text \<open>
  \<^verbatim>\<open>testcms/embedder.go\<close>: the deterministic embedding client for tests, and the runner
  of \<^verbatim>\<open>embed/embed.go\<close> on top of it. Vectors are FNV-1a hashes of the text and the
  position, mapped to \<open>[-1, 1)\<close> in 32-bit floating point.
\<close>

subsection \<open>Vectors\<close>

text \<open>A \<open>float32\<close> \<open>F32 m e\<close> is \<open>m * 2 ^ e\<close>; \<open>round24\<close> rounds \<open>p / q * 2 ^ e\<close> to 24 bits.\<close>

datatype float32 = F32 int int

definition round24 :: "nat \<Rightarrow> nat \<Rightarrow> int \<Rightarrow> nat \<times> int" where
  "round24 p q e =
     (if p = 0 then (0, 0)
      else let k0 = int (bitlen p) - int (bitlen q) - 24;
               big = scaled q k0 * 2 ^ 24 \<le> scaled p (- k0);
               k = (if big then k0 + 1 else k0)
           in (round_half_even (scaled p (- k)) (scaled q k), k + e))"

text \<open>\<open>float32(x) / 1000.0 - 1.0\<close>, for \<open>x\<close> below 2000 (exact as a \<open>float32\<close>).\<close>

definition f32_unit :: "nat \<Rightarrow> float32" where
  "f32_unit x =
     (let (m, e) = round24 x 1000 0;
          d = (if e < 0 then int m - 2 ^ nat (- e) else int m * 2 ^ nat e - 1);
          (m', e') = round24 (nat \<bar>d\<bar>) 1 (min e 0)
      in F32 (if d < 0 then - int m' else int m') e')"

definition fnv_offset :: "64 word" where "fnv_offset = 14695981039346656037"
definition fnv_prime :: "64 word" where "fnv_prime = 1099511628211"

definition fnv64a :: "string \<Rightarrow> 64 word" where
  "fnv64a s = foldl (\<lambda>h b. (Bit_Operations.xor h (of_nat (byte_val b))) * fnv_prime) fnv_offset s"

definition fakeVector :: "string \<Rightarrow> int \<Rightarrow> float32 list" where
  "fakeVector tx dims =
     map (\<lambda>i. f32_unit (unat (fnv64a (tx @ Itoa (int i))) mod 2000)) [0..<nat dims]"

subsection \<open>The client\<close>

definition DefaultFakeDimensions :: int where "DefaultFakeDimensions = 8"

record FakeResponse =
  fr_Vectors :: "float32 EmbeddingVector list"
  fr_Tokens :: int

text \<open>
  The exported fields, which no method writes, are the record \<open>FakeEmbedder\<close>; the fields behind
  the mutex are \<open>FakeCounters\<close>. The hooks are functions of the caller and may have effects of
  their own on the state \<open>'w\<close> outside.
\<close>

record ('w, 'e, 'm) FakeEmbedder =
  ModelRef :: "'m option"
  Dims :: int
  FailFunc :: "(EmbeddingRequest \<Rightarrow> 'w \<Rightarrow> 'e option \<times> 'w) option"
  Corrupt :: "(FakeResponse \<Rightarrow> 'w \<Rightarrow> FakeResponse \<times> 'w) option"

record FakeCounters =
  callCount :: nat
  requests :: "EmbeddingRequest list"

definition dims :: "('w, 'e, 'm) FakeEmbedder \<Rightarrow> int" where
  "dims f = (if 0 < Dims f then Dims f else DefaultFakeDimensions)"

definition fake_tokens :: "Estimate \<Rightarrow> EmbeddingInput list \<Rightarrow> int" where
  "fake_tokens est ins = foldl (\<lambda>n i. add64 n (est (ei_Text i))) 0 ins"

definition fake_response :: "Estimate \<Rightarrow> int \<Rightarrow> EmbeddingInput list \<Rightarrow> FakeResponse" where
  "fake_response est d ins = \<lparr>
     fr_Vectors = map (\<lambda>i. \<lparr>ev_ID = ei_ID i, ev_Values = fakeVector (ei_Text i) d\<rparr>) ins,
     fr_Tokens = fake_tokens est ins\<rparr>"

text \<open>\<open>est\<close> is \<open>llms.EstimateTextTokens\<close>; the mutex makes the update of the counters one step.\<close>

definition fake_Embed ::
  "('w, 'e, 'm) FakeEmbedder \<Rightarrow> Estimate \<Rightarrow> ('w \<Rightarrow> 'e option \<times> 'w) \<Rightarrow> EmbeddingRequest \<Rightarrow>
   FakeCounters \<times> 'w \<Rightarrow> ('e + FakeResponse) \<times> FakeCounters \<times> 'w" where
  "fake_Embed f est ctx req st =
     (case ctx (snd st) of
        (Some err, w) \<Rightarrow> (Inl err, fst st, w)
      | (None, w) \<Rightarrow>
          let n = \<lparr>callCount = callCount (fst st) + 1, requests = requests (fst st) @ [req]\<rparr> in
          (case (case FailFunc f of None \<Rightarrow> (None, w) | Some fail \<Rightarrow> fail req w) of
             (Some err, w') \<Rightarrow> (Inl err, n, w')
           | (None, w') \<Rightarrow>
               let d = (if 0 < rq_Dimensions req then rq_Dimensions req else dims f);
                   resp = fake_response est d (rq_Inputs req)
               in (case Corrupt f of
                     None \<Rightarrow> (Inr resp, n, w')
                   | Some c \<Rightarrow> (let (r, w'') = c resp w' in (Inr r, n, w'')))))"

definition fake_Model :: "'m \<Rightarrow> ('w, 'e, 'm) FakeEmbedder \<Rightarrow> 'm" where
  "fake_Model dflt f = (case ModelRef f of None \<Rightarrow> dflt | Some m \<Rightarrow> m)"

definition DefaultDimensions :: "('w, 'e, 'm) FakeEmbedder \<Rightarrow> int" where
  "DefaultDimensions f = dims f"

definition Calls :: "FakeCounters \<Rightarrow> nat" where
  "Calls n = callCount n"

definition Requests :: "FakeCounters \<Rightarrow> EmbeddingRequest list" where
  "Requests n = requests n"

declare round24_def [go_eval] f32_unit_def [go_eval] fnv64a_def [go_eval] fakeVector_def [go_eval]
  DefaultFakeDimensions_def [go_eval] dims_def [go_eval] fake_tokens_def [go_eval] fake_response_def [go_eval] fake_Embed_def [go_eval]

subsection \<open>The runner on the fake client\<close>

text \<open>The environment of a run whose client is the fake: the context acts on \<open>'w\<close>.\<close>

definition fake_env ::
  "('w, 'e, 'm) FakeEmbedder \<Rightarrow> 'm \<Rightarrow> ('w \<Rightarrow> 'e option \<times> 'w) \<Rightarrow> ('e \<Rightarrow> bool) \<Rightarrow> ('e \<Rightarrow> bool) \<Rightarrow>
   Estimate \<Rightarrow> string \<Rightarrow> int \<Rightarrow> (FakeCounters \<times> 'w, 'e, float32, 'm) Env" where
  "fake_env f dflt ctx canceled retry est purpose cap = \<lparr>
     ctx_Err = (\<lambda>st. (fst (ctx (snd st)), fst st, snd (ctx (snd st)))),
     client_Embed = (\<lambda>req st. case fake_Embed f est ctx req st of
         (Inl err, st') \<Rightarrow> (Inl err, st') | (Inr resp, st') \<Rightarrow> (Inr (fr_Vectors resp), st')),
     client_Model = fake_Model dflt f, is_Canceled = canceled, llms_Retryable = retry,
     llms_EstimateTextTokens = est, llms_PurposeEmbedding = purpose, max_cap = cap\<rparr>"

text \<open>The hook fails exactly the requests that contain a poison text, and not as a cancellation.\<close>

definition fails_on ::
  "('w, 'e, 'm) FakeEmbedder \<Rightarrow> ('e \<Rightarrow> bool) \<Rightarrow> (string \<Rightarrow> bool) \<Rightarrow> bool" where
  "fails_on f canceled bad \<longleftrightarrow>
     (\<forall>req w. case fst (case FailFunc f of None \<Rightarrow> (None, w) | Some fail \<Rightarrow> fail req w) of
        None \<Rightarrow> \<not> (\<exists>i \<in> set (rq_Inputs req). bad (ei_Text i))
      | Some e \<Rightarrow> (\<exists>i \<in> set (rq_Inputs req). bad (ei_Text i)) \<and> \<not> canceled e)"

lemma fake_env_simps [simp]:
  "ctx_Err (fake_env f dflt ctx canceled retry est purpose cap) st =
     (fst (ctx (snd st)), fst st, snd (ctx (snd st)))"
  "client_Model (fake_env f dflt ctx canceled retry est purpose cap) = fake_Model dflt f"
  "is_Canceled (fake_env f dflt ctx canceled retry est purpose cap) = canceled"
  "max_cap (fake_env f dflt ctx canceled retry est purpose cap) = cap"
  by (simp_all add: fake_env_def)

lemma fake_answers:
  assumes "\<And>w. fst (ctx w) = None" and "Corrupt f = None" and "fails_on f canceled bad"
  shows "if \<exists>i \<in> set (rq_Inputs req). bad (ei_Text i)
    then \<exists>err st'. client_Embed (fake_env f dflt ctx canceled retry est purpose cap) req st
      = (Inl err, st') \<and> \<not> canceled err
    else \<exists>st'. client_Embed (fake_env f dflt ctx canceled retry est purpose cap) req st
      = (Inr (fr_Vectors (fake_response est
           (if 0 < rq_Dimensions req then rq_Dimensions req else dims f) (rq_Inputs req))), st')"
proof -
  obtain w where c: "ctx (snd st) = (None, w)" using assms(1) by (metis prod.collapse)
  obtain r w' where h: "(case FailFunc f of None \<Rightarrow> (None, w) | Some fail \<Rightarrow> fail req w) = (r, w')"
    by fastforce
  have "case r of None \<Rightarrow> \<not> (\<exists>i \<in> set (rq_Inputs req). bad (ei_Text i))
      | Some e \<Rightarrow> (\<exists>i \<in> set (rq_Inputs req). bad (ei_Text i)) \<and> \<not> canceled e"
    using assms(3) [unfolded fails_on_def, THEN spec, THEN spec, of req w] unfolding h by simp
  then show ?thesis
    by (cases r) (simp_all add: fake_env_def fake_Embed_def c h Let_def assms(2))
qed

lemma fake_vectors:
  assumes "distinct (map ei_ID (rq_Inputs req))"
  shows "answers req (fr_Vectors (fake_response est d (rq_Inputs req)))"
    and "v \<in> set (fr_Vectors (fake_response est d (rq_Inputs req))) \<Longrightarrow>
      i \<in> set (rq_Inputs req) \<Longrightarrow> ei_ID i = ev_ID v \<Longrightarrow> ev_Values v = fakeVector (ei_Text i) d"
  using assms
  by (auto simp: answers_def fake_response_def comp_def distinct_map inj_on_def)

text \<open>
  The runner over the fake client, end to end. With a live context, no \<open>Corrupt\<close> hook and a
  \<open>FailFunc\<close> that fails the requests holding a poison text, the run returns, for every valid
  input that is not poison, a record with the FNV vector of its own text in the configured
  dimension (the fake's own when the configuration gives none), and one failure of its own for
  every other input, both in input order.
\<close>

theorem Run_over_fake:
  assumes "\<And>w. fst (ctx w) = None" and "Corrupt f = None" and "fails_on f canceled bad"
    and "\<not> DisableBisect cfg"
    and "MaxBatchInputs (withDefaults (fake_env f dflt ctx canceled retry est purpose cap) cfg) \<le> cap"
  shows "\<exists>res st'. Run (fake_env f dflt ctx canceled retry est purpose cap) inputs cfg st
      = Some (res, None, st')
    \<and> list_all2 (record_for (fake_Model dflt f)) (filter (wanted bad) inputs) (Records res)
    \<and> (\<forall>r \<in> set (Records res). Vector r = fakeVector (rec_Text r)
        (if 0 < Dimensions cfg then Dimensions cfg else dims f))
    \<and> map bf_Inputs (Failures res) = map (\<lambda>i. [i]) (filter (\<lambda>i. \<not> wanted bad i) inputs)"
proof -
  let ?E = "fake_env f dflt ctx canceled retry est purpose cap"
  let ?d = "if 0 < Dimensions cfg then Dimensions cfg else dims f"
  note client = fake_answers [where f = f and canceled = canceled and bad = bad and ctx = ctx, OF assms(1-3),
      where dflt = dflt and retry = retry and est = est
      and purpose = purpose and cap = cap]
  have "calm ?E" using assms(1) by (simp add: calm_def)
  moreover have "poisoned_by ?E bad"
    unfolding poisoned_by_def
  proof (intro allI impI)
    fix req :: EmbeddingRequest and st0 assume "distinct (map ei_ID (rq_Inputs req))"
    then show "if \<exists>i \<in> set (rq_Inputs req). bad (ei_Text i)
      then \<exists>err st1. client_Embed ?E req st0 = (Inl err, st1) \<and> \<not> is_Canceled ?E err
      else \<exists>vs st1. client_Embed ?E req st0 = (Inr vs, st1) \<and> answers req vs"
      using client [where req = req and st = st0] fake_vectors(1)
      by (cases "\<exists>i \<in> set (rq_Inputs req). bad (ei_Text i)") auto
  qed
  ultimately obtain res st' where run: "Run ?E inputs cfg st = Some (res, None, st')"
    and recs: "list_all2 (record_for (client_Model ?E)) (filter (wanted bad) inputs) (Records res)"
    and fails: "map bf_Inputs (Failures res) = map (\<lambda>i. [i]) (filter (\<lambda>i. \<not> wanted bad i) inputs)"
    using run_isolates [of ?E bad cfg inputs st] assms(4,5) by auto
  define c where "c = (\<lambda>req. client_Embed ?E (req\<lparr>rq_Dimensions := Dimensions cfg\<rparr>))"
  have "Run (?E\<lparr>client_Embed := c\<rparr>) inputs cfg st = Run ?E inputs cfg st"
  proof (rule run_agrees)
    fix req w assume "forwards (withDefaults ?E cfg) req"
    then have "req\<lparr>rq_Dimensions := Dimensions cfg\<rparr> = req"
      by (cases req) (simp add: forwards_def withDefaults_def)
    then show "client_Embed ?E req w = c req w" by (simp add: c_def)
  qed
  then have run': "Run (?E\<lparr>client_Embed := c\<rparr>) inputs cfg st = Some (res, None, st')"
    using run by simp
  have "Vector r = fakeVector (rec_Text r) ?d" if "r \<in> set (Records res)" for r
  proof (rule run_vectors [OF _ run' that, where good = "\<lambda>t v. v = fakeVector t ?d"])
    fix req :: EmbeddingRequest and st0 vs st1 v and i :: EmbeddingInput
    assume d: "distinct (map ei_ID (rq_Inputs req))" and v: "v \<in> set vs"
      and cl: "client_Embed (?E\<lparr>client_Embed := c\<rparr>) req st0 = (Inr vs, st1)"
      and i: "i \<in> set (rq_Inputs req)" "ei_ID i = ev_ID v"
    have "vs = fr_Vectors (fake_response est ?d (rq_Inputs req))"
      using client [where req = "req\<lparr>rq_Dimensions := Dimensions cfg\<rparr>" and st = st0] cl
      by (auto simp: c_def split: if_splits)
    then show "ev_Values v = fakeVector (ei_Text i) ?d"
      using fake_vectors(2) [OF d _ i] v by simp
  qed
  then show ?thesis using run recs fails by auto
qed

text \<open>The published FNV-1a vectors of the empty text and of one letter.\<close>

lemma fnv64a_vectors: "fnv64a [] = 0xcbf29ce484222325" "fnv64a ''a'' = 0xaf63dc4c8601ec8c"
  by (simp_all add: fnv64a_def fnv_offset_def fnv_prime_def)

definition demo_fake :: "(nat, string, string) FakeEmbedder" where
  "demo_fake = \<lparr>ModelRef = None, Dims = 0,
     FailFunc = Some (\<lambda>req n. (if list_ex (\<lambda>i. ei_Text i = ''bad'') (rq_Inputs req)
       then Some ''boom'' else None, n + 1)),
     Corrupt = None\<rparr>"

lemma demo_fails_on: "fails_on demo_fake (\<lambda>_. False) (\<lambda>t. t = ''bad'')"
  by (simp add: fails_on_def demo_fake_def list_ex_iff)

theorem Run_over_fake_witness:
  "\<exists>res st'. Run (fake_env demo_fake ''fake'' (\<lambda>w. (None, w)) (\<lambda>_. False) (\<lambda>_. True) (\<lambda>s. len s)
      ''embedding'' 1000) demo_inputs demo_embed_cfg (\<lparr>callCount = 0, requests = []\<rparr>, 0)
      = Some (res, None, st')
    \<and> list_all2 (record_for (fake_Model ''fake'' demo_fake))
        (filter (wanted (\<lambda>t. t = ''bad'')) demo_inputs) (Records res)
    \<and> (\<forall>r \<in> set (Records res). Vector r = fakeVector (rec_Text r)
        (if 0 < Dimensions demo_embed_cfg then Dimensions demo_embed_cfg else dims demo_fake))
    \<and> map bf_Inputs (Failures res) =
        map (\<lambda>i. [i]) (filter (\<lambda>i. \<not> wanted (\<lambda>t. t = ''bad'') i) demo_inputs)"
  by (rule Run_over_fake [OF _ _ demo_fails_on])
    (simp_all add: demo_fake_def demo_embed_cfg_def withDefaults_def DefaultMaxBatchInputs_def)

end
