(* ===== verification/Pipeline.thy ===== *)
theory Pipeline
  imports Chunk_Examples Fake_Embedder
begin

text \<open>
  The chunker of \<^verbatim>\<open>chunk\<close> and the runner of \<^verbatim>\<open>embed\<close> in sequence: the chunks of a
  source as the inputs of a run.
\<close>

definition input_of :: "string \<Rightarrow> string \<Rightarrow> Chunk \<Rightarrow> Input" where
  "input_of src art c = \<lparr>in_SourceID = src, in_ArtifactID = art, in_Chunk = c, in_Title = [],
     in_Metadata = Map.empty\<rparr>"

abbreviation blank :: "Chunk \<Rightarrow> bool" where
  "blank c \<equiv> TrimSpace (Text c) = []"

lemma Split_indexed:
  assumes "Split oor source cfg = Some out" and "i < length out"
  shows "Index (out ! i) = int i"
  using assms(1)
proof (cases rule: Split_cases)
  case (2 us cs)
  have "Index (out ! i) = 0 + int i"
    using 2(3,4) assms(2) by (intro indexed_nth) (simp_all add: indexed_shift)
  then show ?thesis by simp
qed (use assms(2) in simp)

lemma chunk_input_valid:
  assumes "Split oor source cfg = Some out" and "c \<in> set out" and "src \<noteq> []" and "art \<noteq> []"
  shows "is_valid (input_of src art c) \<longleftrightarrow> \<not> blank c"
  using Split_indexed [OF assms(1)] assms(2-4)
  by (auto simp: is_valid_def input_of_def in_set_conv_nth)

text \<open>What the client can embed: chunks that are not blank and not poison.\<close>

definition embeddable :: "(string \<Rightarrow> bool) \<Rightarrow> Chunk \<Rightarrow> bool" where
  "embeddable bad c \<longleftrightarrow> \<not> blank c \<and> \<not> bad (Text c)"

lemma filter_inputs:
  assumes "Split oor source cfg = Some out" and "src \<noteq> []" and "art \<noteq> []"
  shows "filter (wanted bad) (map (input_of src art) out) =
      map (input_of src art) (filter (embeddable bad) out)"
    and "filter (\<lambda>i. \<not> wanted bad i) (map (input_of src art) out) =
      map (input_of src art) (filter (\<lambda>c. \<not> embeddable bad c) out)"
proof -
  have "wanted bad (input_of src art c) = embeddable bad c" if "c \<in> set out" for c
    using chunk_input_valid [OF assms(1) that assms(2,3)]
    by (simp add: wanted_def embeddable_def) (simp add: input_of_def)
  then show "filter (wanted bad) (map (input_of src art) out) =
      map (input_of src art) (filter (embeddable bad) out)"
    "filter (\<lambda>i. \<not> wanted bad i) (map (input_of src art) out) =
      map (input_of src art) (filter (\<lambda>c. \<not> embeddable bad c) out)"
    by (auto simp: filter_map comp_def intro!: arg_cong [of _ _ "map (input_of src art)"] filter_cong)
qed

lemma records_of_chunks:
  "list_all2 (record_for m) (map (input_of src art) cs) rs \<Longrightarrow>
     map rec_Text rs = map Text cs \<and> map ChunkIndex rs = map Index cs"
  by (induction cs arbitrary: rs) (auto simp: list_all2_Cons1 record_for_def input_of_def)

text \<open>
  C17: from source to records. The chunks of a source, sent through a run whose client fails on
  poison texts only, come back in order, each with its own text and index; the only chunks that
  do not are poison or hold nothing but whitespace, and each of these is a failure of its own.
\<close>

theorem Split_then_Run:
  assumes "Split oor source cfg = Some out" and "src \<noteq> []" and "art \<noteq> []"
    and "calm E" and "poisoned_by E bad" and "\<not> DisableBisect ecfg"
    and "MaxBatchInputs (withDefaults E ecfg) \<le> max_cap E"
  shows "\<exists>res w'. Run E (map (input_of src art) out) ecfg w = Some (res, None, w')
    \<and> map rec_Text (Records res) = map Text (filter (embeddable bad) out)
    \<and> map ChunkIndex (Records res) = map Index (filter (embeddable bad) out)
    \<and> map bf_Inputs (Failures res) =
        map (\<lambda>c. [input_of src art c]) (filter (\<lambda>c. \<not> embeddable bad c) out)"
proof -
  obtain res w' where r: "Run E (map (input_of src art) out) ecfg w = Some (res, None, w')"
    and recs: "list_all2 (record_for (client_Model E)) (map (input_of src art) (filter (embeddable bad) out)) (Records res)"
    and fails: "map bf_Inputs (Failures res) =
      map (\<lambda>i. [i]) (map (input_of src art) (filter (\<lambda>c. \<not> embeddable bad c) out))"
    using run_isolates [OF assms(4-7), of "map (input_of src art) out" w]
    unfolding filter_inputs [OF assms(1-3)] by blast
  show ?thesis using r records_of_chunks [OF recs] fails by (simp add: comp_def)
qed

theorem Split_then_Run_witness:
  "\<exists>res w'. Run demo_env (map (input_of ''s'' ''a'') (the (Split (\<lambda>_. 0) demo_src demo_cfg))) demo_embed_cfg 0
      = Some (res, None, w')
    \<and> map rec_Text (Records res) = [''one two thre'', ''three.'' @ [LF, LF], ''four five'']
    \<and> map ChunkIndex (Records res) = [0, 1, 2] \<and> map bf_Inputs (Failures res) = []"
proof -
  have texts: "filter (embeddable (\<lambda>t. t = ''bad'')) (the (Split (\<lambda>_. 0) demo_src demo_cfg)) =
      the (Split (\<lambda>_. 0) demo_src demo_cfg)"
    by (simp add: demo_split embeddable_def) (simp add: go_eval cong: eval_congs)
  then have "filter (\<lambda>c. \<not> embeddable (\<lambda>t. t = ''bad'') c) (the (Split (\<lambda>_. 0) demo_src demo_cfg)) = []"
    by (simp add: filter_id_conv)
  with texts Split_then_Run [OF demo_split _ _ demo_calm demo_poisoned, of "''s''" "''a''" demo_embed_cfg 0]
  show ?thesis
    by (simp add: demo_split demo_embed_cfg_def demo_env_def withDefaults_def DefaultMaxBatchInputs_def)
qed

subsection \<open>A blank chunk\<close>

definition gap_src :: string where
  "gap_src = ''aa        bb''"

definition gap_cfg :: Config where
  "gap_cfg = \<lparr>MaxTokens = 1, OverlapTokens = 0, NoOverlap = True, cfg_Estimate = None, cfg_Boundaries = None\<rparr>"

lemma gap_split: "Split (\<lambda>_. 0) gap_src gap_cfg = Some
  [\<lparr>Text = ''aa '', Index = 0, StartByte = 0, EndByte = 3, TokenCount = 1\<rparr>,
   \<lparr>Text = ''   '', Index = 1, StartByte = 3, EndByte = 6, TokenCount = 1\<rparr>,
   \<lparr>Text = ''   '', Index = 2, StartByte = 6, EndByte = 9, TokenCount = 1\<rparr>,
   \<lparr>Text = '' bb'', Index = 3, StartByte = 9, EndByte = 12, TokenCount = 1\<rparr>]"
  by (simp add: go_eval gap_src_def gap_cfg_def cong: eval_congs)

text \<open>
  The chunker can emit what the runner refuses. The prose splitter cuts an oversize unit by
  size alone, so a long gap between two words becomes a chunk of nothing but spaces, which the
  runner rejects as empty: the failure list of a run over a text that is neither empty nor
  damaged need not be empty.
\<close>

theorem Split_blank_chunk:
  "\<exists>out c. Split (\<lambda>_. 0) gap_src gap_cfg = Some out \<and> c \<in> set out
    \<and> validate (input_of ''s'' ''a'' c) = Some ErrEmptyText"
  by (intro exI [of _ "the (Split (\<lambda>_. 0) gap_src gap_cfg)"]
      exI [of _ "\<lparr>Text = ''   '', Index = 1, StartByte = 3, EndByte = 6, TokenCount = 1\<rparr>"])
    (simp add: gap_split input_of_def, simp add: go_eval cong: eval_congs)

end
