(* ===== verification/Go_IO.thy ===== *)
theory Go_IO
  imports Prelude
begin

text \<open>
  Go readers. A reader is a function from the size of the caller's buffer and the reader's
  state to the bytes it filled in, a status, and its next state; \<open>None\<close> is a run-time panic.
  \<open>io_ReadAll\<close> is the standard library's loop, with the growth of its buffer as a parameter.
  The locale \<open>source\<close> is the contract of a reader that delivers a fixed content in pieces of
  its own choosing, \<open>stream\<close> that of a reader that may also fail; \<open>bytes_read\<close>
  (\<open>bytes.Reader\<close>) provides both.
\<close>

datatype 'e ReadStatus = More | EOF | Failed 'e

type_synonym ('s, 'e) reader = "nat \<Rightarrow> 's \<Rightarrow> ((string \<times> 'e ReadStatus) \<times> 's) option"

text \<open>\<open>bytes.NewReader\<close>: an empty read of a non-empty buffer is the end.\<close>

definition bytes_read :: "(string, 'e) reader" where
  "bytes_read n d =
     (if d = [] then Some (([], EOF), []) else Some ((take n d, More), drop n d))"

text \<open>
  The loop of \<open>io.ReadAll\<close>: the buffer has capacity \<open>cap\<close> and holds \<open>b\<close>; when it is full
  it grows. The result is what was read and the error, if any. A reader that returns more than
  the buffer holds makes the loop panic.
\<close>

partial_function (option) read_all_loop ::
  "(nat \<Rightarrow> nat) \<Rightarrow> ('s, 'e) reader \<Rightarrow> nat \<Rightarrow> string \<Rightarrow> 's \<Rightarrow> ((string \<times> 'e option) \<times> 's) option" where
  "read_all_loop grow rd cap b s =
     do { r \<leftarrow> rd (cap - length b) s;
          let b' = b @ fst (fst r) in
          if cap < length b' then None
          else (case snd (fst r) of
                  EOF \<Rightarrow> Some ((b', None), snd r)
                | Failed e \<Rightarrow> Some ((b', Some e), snd r)
                | More \<Rightarrow> read_all_loop grow rd (if length b' = cap then grow cap else cap) b' (snd r)) }"

declare read_all_loop.simps [code, go_eval]

definition io_ReadAll ::
  "(nat \<Rightarrow> nat) \<Rightarrow> ('s, 'e) reader \<Rightarrow> 's \<Rightarrow> ((string \<times> 'e option) \<times> 's) option" where
  "io_ReadAll grow rd s = read_all_loop grow rd 512 [] s"

abbreviation growing :: "(nat \<Rightarrow> nat) \<Rightarrow> bool" where
  "growing grow \<equiv> \<forall>c. c < grow c"

declare bytes_read_def [go_eval] io_ReadAll_def [go_eval]

subsection \<open>The contracts of a reader\<close>

text \<open>
  \<open>rest s\<close> is what the reader still has to deliver. A \<open>stream\<close> may fail at any read, but
  what it delivers fits the buffer and is, unless the read fails, a prefix of its content, and it
  reports the end only when nothing is left. A \<open>source\<close> also returns from every read, does not fail, and makes
  progress unless it reports the end.
\<close>

locale stream =
  fixes read :: "('s, 'e) reader" and rest :: "'s \<Rightarrow> string"
  assumes read_fits: "read n s = Some ((b, st), s') \<Longrightarrow> length b \<le> n"
    and read_prefix: "read n s = Some ((b, st), s') \<Longrightarrow> \<forall>e. st \<noteq> Failed e \<Longrightarrow> rest s = b @ rest s'"
    and read_end: "read n s = Some ((b, EOF), s') \<Longrightarrow> rest s' = []"
begin

lemma read_all_loop_content:
  assumes "read_all_loop grow read cap b s = Some ((d, None), s')"
  shows "d = b @ rest s"
proof -
  let ?P = "\<lambda>grow (rd :: ('s, 'e) reader) cap b s (y :: (string \<times> 'e option) \<times> 's).
    rd = read \<longrightarrow> snd (fst y) = None \<longrightarrow> fst (fst y) = b @ rest s"
  have "?P grow read cap b s ((d, None), s')"
  proof (rule read_all_loop.raw_induct [where P = ?P, OF _ assms])
    fix loop grow rd cap b s y
    assume IH: "\<And>grow rd cap b s y. loop grow rd cap b s = Some y \<Longrightarrow> ?P grow rd cap b s y"
      and eq: "do { r \<leftarrow> rd (cap - length b) s;
          let b' = b @ fst (fst r) in
          if cap < length b' then None
          else (case snd (fst r) of
                  EOF \<Rightarrow> Some ((b', None), snd r)
                | Failed e \<Rightarrow> Some ((b', Some e), snd r)
                | More \<Rightarrow> loop grow rd (if length b' = cap then grow cap else cap) b' (snd r)) } = Some y"
    obtain c st s1 where r: "rd (cap - length b) s = Some ((c, st), s1)"
      using eq by (cases "rd (cap - length b) s") auto
    show "?P grow rd cap b s y"
    proof (intro impI)
      assume rd: "rd = read" and ok: "snd (fst y) = None"
      have rest: "\<forall>e. st \<noteq> Failed e \<Longrightarrow> rest s = c @ rest s1" "st = EOF \<Longrightarrow> rest s1 = []"
        using r rd read_prefix read_end by blast+
      show "fst (fst y) = b @ rest s"
      proof (cases st)
        case More
        then have "loop grow rd (if length (b @ c) = cap then grow cap else cap) (b @ c) s1 = Some y"
          using eq r by (simp add: Let_def split: if_splits)
        then show ?thesis using IH rd ok rest(1) More by fastforce
      qed (use eq r ok rest in \<open>auto simp: Let_def split: if_splits\<close>)
    qed
  qed
  then show ?thesis by simp
qed

text \<open>What is read without an error is the whole content, never a part of it.\<close>

lemma read_all_content: "io_ReadAll grow read s = Some ((d, None), s') \<Longrightarrow> d = rest s"
  using read_all_loop_content [of grow 512 "[]" s d s'] by (simp add: io_ReadAll_def)

end

locale source = stream read rest
  for read :: "('s, 'e) reader" and rest :: "'s \<Rightarrow> string" +
  assumes read_returns: "\<exists>r. read n s = Some r"
    and read_progress: "read n s = Some ((b, More), s') \<Longrightarrow> 0 < n \<Longrightarrow> b \<noteq> []"
    and read_no_error: "read n s = Some ((b, Failed e), s') \<Longrightarrow> False"
begin

lemma read_all_loop_returns:
  assumes grow: "growing grow" and room: "length b < cap"
  shows "\<exists>s'. read_all_loop grow read cap b s = Some ((b @ rest s, None), s')"
  using room
proof (induction "length (rest s)" arbitrary: cap b s rule: less_induct)
  case less
  obtain c st s' where r: "read (cap - length b) s = Some ((c, st), s')"
    using read_returns by (metis prod.collapse)
  note fits = read_fits [OF r]
  have pre: "rest s = c @ rest s'" using read_prefix [OF r] read_no_error r by blast
  show ?case
  proof (cases st)
    case More
    have "c \<noteq> []" using read_progress [of "cap - length b" s c s'] r More less.prems by simp
    then have sh: "length (rest s') < length (rest s)" using pre by simp
    have "length (b @ c) < (if length (b @ c) = cap then grow cap else cap)"
      using fits less.prems grow by auto
    from less.hyps [OF sh this] obtain s'' where
      "read_all_loop grow read (if length (b @ c) = cap then grow cap else cap) (b @ c) s' =
        Some (((b @ c) @ rest s', None), s'')" by blast
    moreover have "\<not> cap < length (b @ c)" using fits less.prems by simp
    ultimately show ?thesis
      using r More pre by (subst read_all_loop.simps) (simp add: Let_def)
  next
    case EOF
    have "rest s' = []" using read_end [of _ s c s'] r EOF by simp
    then show ?thesis
      using r EOF pre fits less.prems by (subst read_all_loop.simps) (simp add: Let_def)
  next
    case (Failed e)
    then show ?thesis using read_no_error r by blast
  qed
qed

text \<open>Reading everything returns, and returns the content.\<close>

lemma read_all:
  assumes "growing grow"
  shows "\<exists>s'. io_ReadAll grow read s = Some ((rest s, None), s')"
  using read_all_loop_returns [OF assms, of "[]" 512 s] by (simp add: io_ReadAll_def)

end

interpretation bytes: source bytes_read "\<lambda>d. d"
proof unfold_locales
  fix n :: nat and d b d' :: string
  show "bytes_read n d = Some ((b, More), d') \<Longrightarrow> 0 < n \<Longrightarrow> b \<noteq> []"
    by (auto simp: bytes_read_def split: if_splits)
qed (auto simp: bytes_read_def split: if_splits)

end
