(* ===== verification/Store.thy ===== *)
theory Store
  imports Go_IO "HOL-Library.AList" "HOL-Library.List_Lexorder" "HOL-Library.Char_ord"
begin

text \<open>
  \<^verbatim>\<open>store/store.go\<close>, \<^verbatim>\<open>store/helpers.go\<close> and
  \<^verbatim>\<open>testcms/memorystore.go\<close>: the object-store interface as locales, and the in-memory
  store as the model that provides them. The store's map is an association list with distinct
  keys; an operation is one function of the state here, as its mutex allows (\<open>Store_Linear\<close>).
\<close>

subsection \<open>Errors\<close>

text \<open>\<open>Wrapped\<close> is a \<open>fmt.Errorf\<close> with \<open>%w\<close>.\<close>

datatype 'e StoreError =
    ErrObjectNotFound
  | ErrRangeNotSatisfiable
  | NegativeOffset string int
  | ComposeCount string nat
  | Wrapped string "'e StoreError"
  | OtherError 'e

definition MaxComposeSources :: nat where "MaxComposeSources = 32"

text \<open>\<open>errors.Is(err, ErrObjectNotFound)\<close> follows the chain of wrapped errors.\<close>

fun IsNotFound :: "'e StoreError \<Rightarrow> bool" where
  "IsNotFound ErrObjectNotFound = True"
| "IsNotFound (Wrapped _ e) = IsNotFound e"
| "IsNotFound _ = False"

definition DeleteIfExists ::
  "('s \<Rightarrow> string \<Rightarrow> 'e StoreError option \<times> 's) \<Rightarrow> 's \<Rightarrow> string \<Rightarrow> 'e StoreError option \<times> 's" where
  "DeleteIfExists del s key =
     (case del s key of
        (Some err, s') \<Rightarrow> if \<not> IsNotFound err then (Some err, s') else (None, s')
      | (None, s') \<Rightarrow> (None, s'))"

subsection \<open>The in-memory store\<close>

record 't memObject =
  mo_data :: string
  mo_created :: 't

text \<open>The clock \<open>Now\<close> may step with every call; its state is \<open>clock\<close>.\<close>

record ('c, 't) MemoryStore =
  Now :: "'c \<Rightarrow> 't \<times> 'c"
  clock :: 'c
  objects :: "(string \<times> 't memObject) list"

record 't ObjectInfo =
  Key :: string
  Size :: int
  Created :: 't

definition NewMemoryStore :: "('c \<Rightarrow> 't \<times> 'c) \<Rightarrow> 'c \<Rightarrow> ('c, 't) MemoryStore" where
  "NewMemoryStore now c = \<lparr>Now = now, clock = c, objects = []\<rparr>"

text \<open>The reader \<open>Get\<close> returns reads a private copy: it is the bytes themselves.\<close>

definition ms_Get :: "('c, 't) MemoryStore \<Rightarrow> string \<Rightarrow> 'e StoreError + string" where
  "ms_Get s key =
     (case map_of (objects s) key of
        None \<Rightarrow> Inl ErrObjectNotFound
      | Some obj \<Rightarrow> Inr (mo_data obj))"

text \<open>\<open>None\<close> is a panic of the slice expression \<open>b[offset:end]\<close>; \<open>length\<close> is an int64.\<close>

definition ms_GetRange ::
  "('c, 't) MemoryStore \<Rightarrow> string \<Rightarrow> int \<Rightarrow> int \<Rightarrow> ('e StoreError + string) option" where
  "ms_GetRange s key offset length' =
     (if offset < 0 then Some (Inl (NegativeOffset key offset))
      else (case map_of (objects s) key of
              None \<Rightarrow> Some (Inl ErrObjectNotFound)
            | Some obj \<Rightarrow>
                let b = mo_data obj in
                if len b \<le> offset then Some (Inl ErrRangeNotSatisfiable)
                else let end' = (if 0 \<le> length' \<and> length' < len b - offset
                                 then add64 offset length' else len b) in
                     map_option Inr (slice b offset end')))"

definition ms_write :: "('c, 't) MemoryStore \<Rightarrow> string \<Rightarrow> string \<Rightarrow> ('c, 't) MemoryStore" where
  "ms_write s key b =
     (let (t, c) = Now s (clock s) in
      s\<lparr>clock := c, objects := AList.update key \<lparr>mo_data = b, mo_created = t\<rparr> (objects s)\<rparr>)"

definition ms_Put ::
  "(nat \<Rightarrow> nat) \<Rightarrow> ('r, 'e) reader \<Rightarrow> ('c, 't) MemoryStore \<Rightarrow> string \<Rightarrow> 'r \<Rightarrow>
   ('e StoreError option \<times> ('c, 't) MemoryStore) option" where
  "ms_Put grow rd s key r =
     do { x \<leftarrow> io_ReadAll grow rd r;
          Some (case snd (fst x) of
                  Some err \<Rightarrow> (Some (Wrapped key (OtherError err)), s)
                | None \<Rightarrow> (None, ms_write s key (fst (fst x)))) }"

fun gather :: "(string \<times> 't memObject) list \<Rightarrow> string list \<Rightarrow> string \<Rightarrow> string option" where
  "gather objs [] out = Some out"
| "gather objs (k # ks) out =
     (case map_of objs k of None \<Rightarrow> None | Some obj \<Rightarrow> gather objs ks (out @ mo_data obj))"

definition ms_Compose ::
  "('c, 't) MemoryStore \<Rightarrow> string \<Rightarrow> string list \<Rightarrow> 'e StoreError option \<times> ('c, 't) MemoryStore" where
  "ms_Compose s dst srcs =
     (if length srcs = 0 \<or> MaxComposeSources < length srcs
      then (Some (ComposeCount dst (length srcs)), s)
      else (case gather (objects s) srcs [] of
              None \<Rightarrow> (Some ErrObjectNotFound, s)
            | Some out \<Rightarrow> (None, ms_write s dst out)))"

text \<open>The callback has a state of its own; its first error ends the listing.\<close>

fun list_loop :: "('i \<Rightarrow> 'u \<Rightarrow> 'x option \<times> 'u) \<Rightarrow> 'i list \<Rightarrow> 'u \<Rightarrow> 'x option \<times> 'u" where
  "list_loop fn [] u = (None, u)"
| "list_loop fn (i # is') u =
     (case fn i u of (Some err, u') \<Rightarrow> (Some err, u') | (None, u') \<Rightarrow> list_loop fn is' u')"

definition ms_infos :: "('c, 't) MemoryStore \<Rightarrow> string \<Rightarrow> 't ObjectInfo list" where
  "ms_infos s pre = sort_key Key
     (map (\<lambda>(k, obj). \<lparr>Key = k, Size = len (mo_data obj), Created = mo_created obj\<rparr>)
       (filter (\<lambda>(k, obj). prefix pre k) (objects s)))"

definition ms_List ::
  "('c, 't) MemoryStore \<Rightarrow> string \<Rightarrow> ('t ObjectInfo \<Rightarrow> 'u \<Rightarrow> 'x option \<times> 'u) \<Rightarrow> 'u \<Rightarrow> 'x option \<times> 'u"
  where
  "ms_List s pre fn u = list_loop fn (ms_infos s pre) u"

definition ms_Delete ::
  "('c, 't) MemoryStore \<Rightarrow> string \<Rightarrow> 'e StoreError option \<times> ('c, 't) MemoryStore" where
  "ms_Delete s key =
     (if map_of (objects s) key = None then (Some ErrObjectNotFound, s)
      else (None, s\<lparr>objects := AList.delete key (objects s)\<rparr>))"

definition ms_Exists :: "('c, 't) MemoryStore \<Rightarrow> string \<Rightarrow> bool" where
  "ms_Exists s key \<longleftrightarrow> map_of (objects s) key \<noteq> None"

declare MaxComposeSources_def [go_eval] DeleteIfExists_def [go_eval] NewMemoryStore_def [go_eval]
  ms_Get_def [go_eval] ms_GetRange_def [go_eval] ms_write_def [go_eval] ms_Put_def [go_eval]
  ms_Compose_def [go_eval] ms_infos_def [go_eval] ms_List_def [go_eval] ms_Delete_def [go_eval]
  ms_Exists_def [go_eval]

end
