(* ===== verification/Store_Correct.thy ===== *)
theory Store_Correct
  imports Store
begin

text \<open>
  The contracts of \<^verbatim>\<open>store/store.go\<close> as locales (\<open>ObjectStore\<close>,
  \<open>RangeReader\<close>, \<open>Composer\<close>), what their clients can rely on, and the in-memory
  store as the model that provides all of them.
\<close>

subsection \<open>ObjectStore\<close>

locale object_store =
  fixes get :: "'s \<Rightarrow> string \<Rightarrow> 'e StoreError + string"
    and put :: "'s \<Rightarrow> string \<Rightarrow> string \<Rightarrow> 's"
    and del :: "'s \<Rightarrow> string \<Rightarrow> 'e StoreError option \<times> 's"
    and exists :: "'s \<Rightarrow> string \<Rightarrow> bool"
    and valid :: "'s \<Rightarrow> bool"
  assumes get_found: "valid s \<Longrightarrow> get s k = Inl ErrObjectNotFound \<or> (\<exists>b. get s k = Inr b)"
    and get_put: "valid s \<Longrightarrow> get (put s k b) k' = (if k' = k then Inr b else get s k')"
    and put_valid: "valid s \<Longrightarrow> valid (put s k b)"
    and exists_get: "valid s \<Longrightarrow> exists s k \<longleftrightarrow> get s k \<noteq> Inl ErrObjectNotFound"
    and del_missing: "valid s \<Longrightarrow> get s k = Inl ErrObjectNotFound \<Longrightarrow>
      del s k = (Some ErrObjectNotFound, s)"
    and del_present: "valid s \<Longrightarrow> get s k = Inr b \<Longrightarrow> \<exists>s'. del s k = (None, s') \<and> valid s'
      \<and> (\<forall>k'. get s' k' = (if k' = k then Inl ErrObjectNotFound else get s k'))"
begin

lemma put_overwrites: "valid s \<Longrightarrow> get (put (put s k a) k b) k' = get (put s k b) k'"
  by (simp add: get_put put_valid)

lemma put_commutes:
  "valid s \<Longrightarrow> k \<noteq> l \<Longrightarrow> get (put (put s k a) l b) k' = get (put (put s l b) k a) k'"
  by (simp add: get_put put_valid)

lemma exists_put: "valid s \<Longrightarrow> exists (put s k b) k' \<longleftrightarrow> k' = k \<or> exists s k'"
  by (simp add: exists_get get_put put_valid)

text \<open>The cleanup helper always succeeds, and afterwards the key is gone and nothing else is.\<close>

lemma delete_if_exists:
  assumes "valid s"
  shows "\<exists>s'. DeleteIfExists del s k = (None, s') \<and> valid s'
    \<and> (\<forall>k'. get s' k' = (if k' = k then Inl ErrObjectNotFound else get s k'))"
proof (cases "get s k")
  case (Inl e)
  then have e: "e = ErrObjectNotFound" using get_found [OF assms, of k] by auto
  then have "DeleteIfExists del s k = (None, s)"
    using del_missing [OF assms] Inl by (simp add: DeleteIfExists_def)
  then show ?thesis using assms Inl e by auto
next
  case (Inr b)
  then obtain s' where "del s k = (None, s')" "valid s'"
    "\<forall>k'. get s' k' = (if k' = k then Inl ErrObjectNotFound else get s k')"
    using del_present [OF assms] by blast
  then show ?thesis by (auto simp: DeleteIfExists_def)
qed

lemma delete_if_exists_again:
  assumes "valid s" and "DeleteIfExists del s k = (r, s')"
  shows "DeleteIfExists del s' k = (None, s')"
proof -
  obtain t where t: "DeleteIfExists del s k = (None, t)" "valid t"
    "\<forall>k'. get t k' = (if k' = k then Inl ErrObjectNotFound else get s k')"
    using delete_if_exists [OF assms(1)] by blast
  then have "get t k = Inl ErrObjectNotFound" by simp
  then have "DeleteIfExists del t k = (None, t)"
    using del_missing [OF t(2)] by (simp add: DeleteIfExists_def)
  then show ?thesis using assms(2) t(1) by simp
qed

end

subsection \<open>RangeReader\<close>

text \<open>Offsets and lengths are int64 values; an object's size is one too.\<close>

locale range_store = object_store get put del exists valid
  for get :: "'s \<Rightarrow> string \<Rightarrow> 'e StoreError + string"
    and put :: "'s \<Rightarrow> string \<Rightarrow> string \<Rightarrow> 's"
    and del :: "'s \<Rightarrow> string \<Rightarrow> 'e StoreError option \<times> 's"
    and exists :: "'s \<Rightarrow> string \<Rightarrow> bool"
    and valid :: "'s \<Rightarrow> bool" +
  fixes range :: "'s \<Rightarrow> string \<Rightarrow> int \<Rightarrow> int \<Rightarrow> ('e StoreError + string) option"
  assumes range_negative: "off < 0 \<Longrightarrow> range s k off n = Some (Inl (NegativeOffset k off))"
    and range_missing: "valid s \<Longrightarrow> 0 \<le> off \<Longrightarrow> get s k = Inl ErrObjectNotFound \<Longrightarrow>
      range s k off n = Some (Inl ErrObjectNotFound)"
    and range_past: "valid s \<Longrightarrow> 0 \<le> off \<Longrightarrow> get s k = Inr b \<Longrightarrow> len b \<le> off \<Longrightarrow>
      range s k off n = Some (Inl ErrRangeNotSatisfiable)"
    and range_inside: "valid s \<Longrightarrow> 0 \<le> off \<Longrightarrow> get s k = Inr b \<Longrightarrow> off < len b \<Longrightarrow> len b < 2 ^ 63 \<Longrightarrow>
      range s k off n = Some (Inr (if n < 0 then drop (nat off) b
                                   else take (nat n) (drop (nat off) b)))"
begin

lemma range_whole:
  "valid s \<Longrightarrow> get s k = Inr b \<Longrightarrow> b \<noteq> [] \<Longrightarrow> len b < 2 ^ 63 \<Longrightarrow> n < 0 \<Longrightarrow>
     range s k 0 n = Some (Inr b)"
  using range_inside [of s 0 k b n] by simp

text \<open>Reading a range in two pieces.\<close>

lemma range_split:
  assumes "valid s" and "get s k = Inr b" and "len b < 2 ^ 63"
    and "0 \<le> off" and "0 \<le> n" and "off + n < len b"
    and "range s k off n = Some (Inr x)" and "range s k (off + n) m = Some (Inr y)"
  shows "range s k off (if m < 0 then m else n + m) = Some (Inr (x @ y))"
proof -
  have x: "x = take (nat n) (drop (nat off) b)"
    using range_inside [of s off k b n] assms by simp
  have y: "y = (if m < 0 then drop (nat (off + n)) b else take (nat m) (drop (nat (off + n)) b))"
    using range_inside [of s "off + n" k b m] assms by simp
  have "drop (nat (off + n)) b = drop (nat n) (drop (nat off) b)"
    using assms by (simp add: nat_add_distrib add.commute)
  then have d: "drop (nat off) b = take (nat n) (drop (nat off) b) @ drop (nat (off + n)) b"
    by (metis append_take_drop_id)
  have t: "take (nat (n + m)) (drop (nat off) b) =
      take (nat n) (drop (nat off) b) @ take (nat m) (drop (nat (off + n)) b)" if "0 \<le> m"
  proof -
    have "nat (n + m) = nat n + nat m" "nat (off + n) = nat n + nat off"
      using assms that by auto
    then show ?thesis by (simp add: take_add)
  qed
  show ?thesis
  proof (cases "m < 0")
    case True
    then show ?thesis using range_inside [of s off k b m] assms x y d by simp
  next
    case False
    then show ?thesis using range_inside [of s off k b "n + m"] assms x y t by simp
  qed
qed

end

subsection \<open>Composer\<close>

text \<open>The concatenation of the objects at the source keys, when all exist.\<close>

fun joined :: "(string \<Rightarrow> 'e StoreError + string) \<Rightarrow> string list \<Rightarrow> string option" where
  "joined get [] = Some []"
| "joined get (k # ks) =
     (case get k of Inl _ \<Rightarrow> None | Inr b \<Rightarrow> map_option ((@) b) (joined get ks))"

lemma joined_append:
  "joined get (ks @ ls) =
     (case joined get ks of None \<Rightarrow> None | Some a \<Rightarrow> map_option ((@) a) (joined get ls))"
  by (cases "joined get ls"; induction ks) (auto split: sum.splits option.splits)

lemma joined_cong: "\<forall>k \<in> set ks. g k = h k \<Longrightarrow> joined g ks = joined h ks"
  by (induction ks) (auto split: sum.split)

locale composer = object_store get put del exists valid
  for get :: "'s \<Rightarrow> string \<Rightarrow> 'e StoreError + string"
    and put :: "'s \<Rightarrow> string \<Rightarrow> string \<Rightarrow> 's"
    and del :: "'s \<Rightarrow> string \<Rightarrow> 'e StoreError option \<times> 's"
    and exists :: "'s \<Rightarrow> string \<Rightarrow> bool"
    and valid :: "'s \<Rightarrow> bool" +
  fixes compose :: "'s \<Rightarrow> string \<Rightarrow> string list \<Rightarrow> 'e StoreError option \<times> 's"
  assumes compose_count: "length ks = 0 \<or> MaxComposeSources < length ks \<Longrightarrow>
      compose s dst ks = (Some (ComposeCount dst (length ks)), s)"
    and compose_missing: "valid s \<Longrightarrow> 1 \<le> length ks \<Longrightarrow> length ks \<le> MaxComposeSources \<Longrightarrow>
      joined (get s) ks = None \<Longrightarrow> compose s dst ks = (Some ErrObjectNotFound, s)"
    and compose_joins: "valid s \<Longrightarrow> 1 \<le> length ks \<Longrightarrow> length ks \<le> MaxComposeSources \<Longrightarrow>
      joined (get s) ks = Some b \<Longrightarrow> \<exists>s'. compose s dst ks = (None, s') \<and> valid s'
      \<and> (\<forall>k'. get s' k' = (if k' = dst then Inr b else get s k'))"
begin

text \<open>
  A compose tree: joining the first parts into an intermediate object and that object with the
  other parts gives the bytes of all the parts, although each step obeys the limit.
\<close>

lemma compose_tree:
  assumes s: "valid s"
    and ks: "1 \<le> length ks" "length ks \<le> MaxComposeSources"
    and ls: "length ls < MaxComposeSources" "t \<notin> set ls"
    and b: "joined (get s) (ks @ ls) = Some b"
  shows "\<exists>s1 s2. compose s t ks = (None, s1) \<and> compose s1 dst (t # ls) = (None, s2)
    \<and> get s2 dst = Inr b"
proof -
  obtain x y where x: "joined (get s) ks = Some x" and y: "joined (get s) ls = Some y"
    and xy: "b = x @ y"
    using b by (auto simp: joined_append split: option.splits)
  obtain s1 where s1: "compose s t ks = (None, s1)" "valid s1"
    "\<forall>k'. get s1 k' = (if k' = t then Inr x else get s k')"
    using compose_joins [OF s ks x] by blast
  have "joined (get s1) ls = joined (get s) ls"
    by (rule joined_cong) (use ls(2) s1(3) in auto)
  then have j: "joined (get s1) (t # ls) = Some b" using s1(3) y xy by simp
  obtain s2 where "compose s1 dst (t # ls) = (None, s2)" "get s2 dst = Inr b"
    using compose_joins [OF s1(2) _ _ j, of dst] ls(1) by auto
  with s1(1) show ?thesis by blast
qed

end

subsection \<open>The in-memory store provides them\<close>

abbreviation ms_valid :: "('c, 't) MemoryStore \<Rightarrow> bool" where
  "ms_valid s \<equiv> distinct (map fst (objects s))"

lemma ms_Get_write: "ms_Get (ms_write s k b) k' = (if k' = k then Inr b else ms_Get s k')"
  by (simp add: ms_Get_def ms_write_def update_conv' split: prod.split)

lemma ms_valid_write: "ms_valid s \<Longrightarrow> ms_valid (ms_write s k b)"
  by (simp add: ms_write_def distinct_update split: prod.split)

lemma ms_Get_missing: "ms_Get s k = Inl ErrObjectNotFound \<longleftrightarrow> map_of (objects s) k = None"
  by (simp add: ms_Get_def split: option.split)

lemma ms_Get_found: "ms_Get s k = Inr b \<longleftrightarrow> (\<exists>obj. map_of (objects s) k = Some obj \<and> mo_data obj = b)"
  by (simp add: ms_Get_def split: option.split)

abbreviation ms_remove :: "('c, 't) MemoryStore \<Rightarrow> string \<Rightarrow> ('c, 't) MemoryStore" where
  "ms_remove s k \<equiv> s\<lparr>objects := AList.delete k (objects s)\<rparr>"

lemma ms_Get_remove:
  "ms_Get (ms_remove s k) k' = (if k' = k then Inl ErrObjectNotFound else ms_Get s k')"
  by (simp add: ms_Get_def delete_conv')

lemma ms_Get_cases: "ms_Get s k = Inl ErrObjectNotFound \<or> (\<exists>b. ms_Get s k = Inr b)"
  by (auto simp: ms_Get_def split: option.split)

lemma ms_Delete_present: "ms_Get s k = Inr b \<Longrightarrow> ms_Delete s k = (None, ms_remove s k)"
  by (auto simp: ms_Get_found ms_Delete_def)

lemma ms_Delete_missing:
  "ms_Get s k = Inl ErrObjectNotFound \<Longrightarrow> ms_Delete s k = (Some ErrObjectNotFound, s)"
  by (simp add: ms_Get_missing ms_Delete_def)

lemma ms_Exists_Get: "ms_Exists s k \<longleftrightarrow> ms_Get s k \<noteq> Inl ErrObjectNotFound"
  by (simp add: ms_Exists_def ms_Get_missing)

interpretation ms: object_store ms_Get ms_write ms_Delete ms_Exists ms_valid
  by unfold_locales
    (auto simp: ms_Get_write ms_valid_write ms_Exists_Get ms_Delete_missing ms_Delete_present
      ms_Get_remove distinct_delete ms_Get_cases)

lemma ms_GetRange_inside:
  assumes "0 \<le> off" and "ms_Get s k = Inr b" and "off < len b" and "len b < 2 ^ 63"
  shows "ms_GetRange s k off n =
    Some (Inr (if n < 0 then drop (nat off) b else take (nat n) (drop (nat off) b)))"
proof -
  obtain obj where obj: "map_of (objects s) k = Some obj" "mo_data obj = b"
    using assms(2) by (auto simp: ms_Get_found)
  have add: "add64 off n = off + n" if "0 \<le> n" "n < len b - off"
    using assms that by (intro add64_id) auto
  show ?thesis
    using assms obj add by (auto simp: ms_GetRange_def Let_def slice_def)
qed

interpretation msr: range_store ms_Get ms_write ms_Delete ms_Exists ms_valid ms_GetRange
  by unfold_locales
    (auto simp: ms_GetRange_inside, auto simp: ms_GetRange_def ms_Get_missing ms_Get_found)

lemma append_Nil_fun: "(@) [] = id"
  by (rule ext) simp

lemma gather_joined: "gather objs ks out = map_option ((@) out) (joined (\<lambda>k.
    case map_of objs k of None \<Rightarrow> Inl ErrObjectNotFound | Some obj \<Rightarrow> Inr (mo_data obj)) ks)"
  by (induction objs ks out rule: gather.induct)
    (auto split: option.splits simp: option.map_comp comp_def)

lemma ms_Compose_joined:
  fixes s :: "('c, 't) MemoryStore"
  shows "(ms_Compose s dst ks :: 'e StoreError option \<times> _) =
     (if length ks = 0 \<or> MaxComposeSources < length ks
      then (Some (ComposeCount dst (length ks)), s)
      else (case joined (ms_Get s :: _ \<Rightarrow> 'e StoreError + _) ks of
              None \<Rightarrow> (Some ErrObjectNotFound, s)
            | Some b \<Rightarrow> (None, ms_write s dst b)))"
proof -
  have "gather (objects s) ks [] = joined (ms_Get s :: _ \<Rightarrow> 'e StoreError + _) ks"
    by (rule trans, rule gather_joined) (simp add: ms_Get_def [abs_def] append_Nil_fun option.map_id)
  then show ?thesis by (simp add: ms_Compose_def)
qed

interpretation msc: composer ms_Get ms_write ms_Delete ms_Exists ms_valid ms_Compose
  by unfold_locales (auto simp: ms_Compose_joined ms_Get_write ms_valid_write)

end
