(* ===== verification/Store_Examples.thy ===== *)
theory Store_Examples
  imports Store_Correct
begin

text \<open>
  The properties of the in-memory store, drawn from the contracts it provides, and concrete
  stores on which they apply. The abstract specification, a map from keys to contents which
  every sequence of operations refines, is in theory Store_Refine.
\<close>

subsection \<open>Concrete stores\<close>

definition tick :: "nat \<Rightarrow> nat \<times> nat" where
  "tick c = (c, c + 1)"

definition double :: "nat \<Rightarrow> nat" where
  "double c = 2 * c + 1"

lemma growing_double: "growing double"
  by (simp add: double_def)

definition demo_store :: "(nat, nat) MemoryStore" where
  "demo_store = ms_write (ms_write (NewMemoryStore tick 0) ''a/2'' ''world'') ''a/1'' ''hello''"

lemma demo_store_valid: "ms_valid demo_store"
  by (simp add: demo_store_def ms_valid_write NewMemoryStore_def)

lemma demo_store_Get:
  "ms_Get demo_store ''a/1'' = Inr ''hello''" "ms_Get demo_store ''a/2'' = Inr ''world''"
  "ms_Get demo_store ''t'' = Inl ErrObjectNotFound"
  by (simp_all add: demo_store_def ms_Get_write) (simp add: ms_Get_def NewMemoryStore_def)

subsection \<open>Put and Get\<close>

lemma ms_Put_source:
  assumes "source read rest" and "growing grow"
  shows "ms_Put grow read s k r = Some (None, ms_write s k (rest r))"
proof -
  obtain r' where "io_ReadAll grow read r = Some ((rest r, None), r')"
    using source.read_all [OF assms] by blast
  then show ?thesis by (simp add: ms_Put_def)
qed

lemma ms_Exists_write: "ms_Exists (ms_write s k b) k' \<longleftrightarrow> k' = k \<or> ms_Exists s k'"
  by (simp add: ms_Exists_def ms_write_def update_conv' split: prod.split)

text \<open>
  Putting the bytes of a reader succeeds whatever the pieces it delivers and however the
  read buffer grows; afterwards the key holds exactly those bytes and every other key what it
  held before.
\<close>

theorem Put_then_Get:
  assumes "source read rest" and "growing grow"
  shows "\<exists>s'. ms_Put grow read s k r = Some (None, s')
    \<and> ms_Get s' k' = (if k' = k then Inr (rest r) else ms_Get s k')
    \<and> (ms_Exists s' k' \<longleftrightarrow> k' = k \<or> ms_Exists s k')"
  by (simp add: ms_Put_source [OF assms] ms_Get_write ms_Exists_write)

theorem Put_then_Get_witness:
  "\<exists>s'. ms_Put double bytes_read demo_store ''a/2'' ''again'' = Some (None, s')
    \<and> ms_Get s' ''a/2'' = (if ''a/2'' = ''a/2'' then Inr ''again'' else ms_Get demo_store ''a/2'')
    \<and> (ms_Exists s' ''a/2'' \<longleftrightarrow> ''a/2'' = ''a/2'' \<or> ms_Exists demo_store ''a/2'')"
  by (rule Put_then_Get [OF bytes.source_axioms growing_double])

subsection \<open>Ranges\<close>

text \<open>
  \<open>GetRange\<close> of a stored object never panics; from an offset inside it, it returns
  exactly the bytes there, to the end for a negative length and shortened to the end for a
  length that runs past it, however large; an offset at or past the end is
  \<open>ErrRangeNotSatisfiable\<close>, a negative one an error.
\<close>

theorem GetRange_exact:
  assumes "ms_Get s k = (Inr b :: 'e StoreError + string)" and "len b < 2 ^ 63"
  shows "(ms_GetRange s k off n :: ('e StoreError + string) option) = Some (
    if off < 0 then Inl (NegativeOffset k off)
    else if len b \<le> off then Inl ErrRangeNotSatisfiable
    else Inr (if n < 0 then drop (nat off) b else take (nat n) (drop (nat off) b)))"
proof -
  have b: "\<exists>obj. map_of (objects s) k = Some obj \<and> mo_data obj = b"
    using assms(1) ms_Get_found by blast
  show ?thesis
  proof (cases "0 \<le> off \<and> off < len b")
    case True
    then show ?thesis by (simp add: ms_GetRange_inside [OF _ assms(1) _ assms(2)])
  next
    case False
    then show ?thesis using b by (auto simp: ms_GetRange_def)
  qed
qed

theorem GetRange_exact_witness:
  "ms_GetRange demo_store ''a/1'' 1 (2 ^ 63 - 1) = Some (Inr ''ello'' :: nat StoreError + string)"
  using GetRange_exact [OF demo_store_Get(1), where 'e = nat, of 1 "2 ^ 63 - 1"] by simp

text \<open>
  Two adjacent range reads return together what one read of the whole range returns, so a
  client that seeks or resumes reassembles the object.
\<close>

theorem GetRange_pieces:
  fixes s :: "('c, 't) MemoryStore" and b x y :: string
  assumes "ms_valid s" and "ms_Get s k = (Inr b :: 'e StoreError + string)" and "len b < 2 ^ 63"
    and "0 \<le> off" and "0 \<le> n" and "off + n < len b"
    and "ms_GetRange s k off n = Some (Inr x :: 'e StoreError + string)"
    and "ms_GetRange s k (off + n) m = Some (Inr y :: 'e StoreError + string)"
  shows "ms_GetRange s k off (if m < 0 then m else n + m) =
    Some (Inr (x @ y) :: 'e StoreError + string)"
  using assms by (rule msr.range_split)

theorem GetRange_pieces_witness:
  "ms_GetRange demo_store ''a/1'' 1 (if (- 1 :: int) < 0 then - 1 else 2 + - 1) =
     Some (Inr (''el'' @ ''lo'') :: nat StoreError + string)"
proof (rule GetRange_pieces [OF demo_store_valid demo_store_Get(1)])
  show "ms_GetRange demo_store ''a/1'' 1 2 = Some (Inr ''el'' :: nat StoreError + string)"
    by (simp add: ms_GetRange_inside [OF _ demo_store_Get(1)])
  show "ms_GetRange demo_store ''a/1'' (1 + 2) (- 1) = Some (Inr ''lo'' :: nat StoreError + string)"
    by (simp add: ms_GetRange_inside [OF _ demo_store_Get(1)])
qed simp_all

subsection \<open>Compose\<close>

lemma ms_Exists_isl: "ms_Exists s k \<longleftrightarrow> \<not> isl (ms_Get s k :: 'e StoreError + string)"
  by (simp add: ms_Exists_def ms_Get_def split: option.split)

text \<open>
  \<open>Compose\<close> writes its target exactly when it has between one and
  \<open>MaxComposeSources\<close> sources and all of them exist; then the target holds the bytes of the
  sources in their order (the target itself may be among them) and no other key changes.
  Otherwise it reports an error and writes nothing.
\<close>

theorem Compose_all_or_nothing:
  fixes s :: "('c, 't) MemoryStore"
  assumes "ms_Compose s dst ks = (r :: 'e StoreError option, s')"
  shows "if ks \<noteq> [] \<and> length ks \<le> 32 \<and> list_all (ms_Exists s) ks
    then r = None \<and> ms_Get s' k' =
      (if k' = dst then Inr (concat (map (\<lambda>k. projr (ms_Get s k :: 'e StoreError + string)) ks))
       else ms_Get s k' :: 'e StoreError + string)
    else s' = s \<and> r = Some (if ks = [] \<or> 32 < length ks then ComposeCount dst (length ks)
                              else ErrObjectNotFound)"
proof -
  have j: "joined (ms_Get s :: string \<Rightarrow> 'e StoreError + string) ks =
      (if list_all (ms_Exists s) ks
       then Some (concat (map (\<lambda>k. projr (ms_Get s k :: 'e StoreError + string)) ks)) else None)"
    by (induction ks) (auto simp: ms_Exists_isl [where 'e = 'e] split: sum.split)
  show ?thesis
  proof (cases "ks \<noteq> [] \<and> length ks \<le> 32 \<and> list_all (ms_Exists s) ks")
    case True
    then show ?thesis
      using assms by (auto simp: ms_Compose_joined j ms_Get_write MaxComposeSources_def)
  next
    case False
    then show ?thesis
      using assms by (auto simp: ms_Compose_joined j MaxComposeSources_def split: if_splits)
  qed
qed

theorem Compose_all_or_nothing_witness:
  "ms_Get (snd (ms_Compose demo_store ''t'' [''a/1'', ''a/2''] :: nat StoreError option \<times> _)) ''t''
     = (Inr ''helloworld'' :: nat StoreError + string)"
proof -
  obtain r s' where c: "ms_Compose demo_store ''t'' [''a/1'', ''a/2''] = (r :: nat StoreError option, s')"
    by fastforce
  have "ms_Exists demo_store ''a/1''" "ms_Exists demo_store ''a/2''"
    by (simp_all add: demo_store_def ms_Exists_write)
  then show ?thesis
    using Compose_all_or_nothing [OF c, of "''t''"] by (simp add: c demo_store_Get)
qed

text \<open>
  A compose tree joins more parts than one call may take: joining the first parts into an
  intermediate object and that object with the other parts gives the bytes of all the parts.
\<close>

theorem Compose_tree:
  fixes s :: "('c, 't) MemoryStore"
  assumes "ms_valid s" and "1 \<le> length ks" and "length ks \<le> MaxComposeSources"
    and "length ls < MaxComposeSources" and "t \<notin> set ls"
    and "joined (ms_Get s :: string \<Rightarrow> 'e StoreError + string) (ks @ ls) = Some b"
  shows "\<exists>s1 s2. ms_Compose s t ks = (None :: 'e StoreError option, s1)
    \<and> ms_Compose s1 dst (t # ls) = (None :: 'e StoreError option, s2)
    \<and> ms_Get s2 dst = (Inr b :: 'e StoreError + string)"
  using assms by (rule msc.compose_tree)

theorem Compose_tree_witness:
  "\<exists>s1 s2. ms_Compose demo_store ''t'' (replicate 32 ''a/1'') = (None :: nat StoreError option, s1)
    \<and> ms_Compose s1 ''out'' (''t'' # replicate 31 ''a/2'') = (None :: nat StoreError option, s2)
    \<and> ms_Get s2 ''out'' = (Inr (concat (replicate 32 ''hello'') @ concat (replicate 31 ''world''))
        :: nat StoreError + string)"
proof (rule Compose_tree [OF demo_store_valid])
  have rep: "joined (ms_Get demo_store :: string \<Rightarrow> nat StoreError + string) (replicate n k) =
      Some (concat (replicate n b))"
    if "ms_Get demo_store k = (Inr b :: nat StoreError + string)" for n k b
    by (induction n) (simp_all add: that)
  show "joined (ms_Get demo_store :: string \<Rightarrow> nat StoreError + string)
      (replicate 32 ''a/1'' @ replicate 31 ''a/2'') =
    Some (concat (replicate 32 ''hello'') @ concat (replicate 31 ''world''))"
    by (simp only: joined_append rep [OF demo_store_Get(1)] rep [OF demo_store_Get(2)]
        option.simps option.map)
qed (simp_all add: MaxComposeSources_def)

subsection \<open>Delete\<close>

text \<open>
  The cleanup helper \<open>DeleteIfExists\<close> succeeds whether or not the key exists;
  afterwards the key is gone, no other key has changed, and repeating it changes nothing.
\<close>

theorem DeleteIfExists_idempotent:
  fixes s :: "('c, 't) MemoryStore"
  assumes "ms_valid s"
  shows "\<exists>s'. DeleteIfExists ms_Delete s k = (None :: 'e StoreError option, s')
    \<and> (\<forall>k'. ms_Get s' k' =
        (if k' = k then Inl ErrObjectNotFound else ms_Get s k' :: 'e StoreError + string))
    \<and> DeleteIfExists ms_Delete s' k = (None :: 'e StoreError option, s')"
  using ms.delete_if_exists [OF assms, where k = k and 'c = 'e]
    ms.delete_if_exists_again [OF assms] by blast

theorem DeleteIfExists_idempotent_witness:
  "\<exists>s'. DeleteIfExists ms_Delete demo_store ''a/1'' = (None :: nat StoreError option, s')
    \<and> (\<forall>k'. ms_Get s' k' =
        (if k' = ''a/1'' then Inl ErrObjectNotFound
         else ms_Get demo_store k' :: nat StoreError + string))
    \<and> DeleteIfExists ms_Delete s' ''a/1'' = (None :: nat StoreError option, s')"
  by (rule DeleteIfExists_idempotent [OF demo_store_valid])

end
