(* ===== verification/Store_Refine.thy ===== *)
theory Store_Refine
  imports Store_Examples
begin

text \<open>
  Listing, and the abstract specification of the in-memory store: a partial map from keys to
  contents. \<open>spec_op\<close> is what each operation promises over the map, \<open>ms_op\<close> what the
  store does; every sequence of operations on a new store gets the replies of the
  specification. Here each operation is one step; \<open>Store_Linear\<close> shows that the mutex makes
  it so.
\<close>

subsection \<open>Listing\<close>

text \<open>What a callback that fails on some objects has seen when the listing ends.\<close>

lemma list_loop_collect:
  "list_loop (\<lambda>i u. (f i, u @ [i])) is' u = (r, u') \<Longrightarrow> \<exists>seen rest.
     u' = u @ seen \<and> is' = seen @ rest
     \<and> (case r of None \<Rightarrow> rest = [] \<and> (\<forall>i \<in> set seen. f i = None)
        | Some err \<Rightarrow> seen \<noteq> [] \<and> f (last seen) = Some err \<and> (\<forall>i \<in> set (butlast seen). f i = None))"
proof (induction is' arbitrary: u)
  case (Cons i is')
  show ?case
  proof (cases "f i")
    case None
    then obtain seen rest where s: "u' = (u @ [i]) @ seen" "is' = seen @ rest"
      "case r of None \<Rightarrow> rest = [] \<and> (\<forall>i \<in> set seen. f i = None)
        | Some err \<Rightarrow> seen \<noteq> [] \<and> f (last seen) = Some err \<and> (\<forall>i \<in> set (butlast seen). f i = None)"
      using Cons.IH [of "u @ [i]"] Cons.prems by auto
    show ?thesis
      by (rule exI [of _ "i # seen"], rule exI [of _ rest]) (use s None in \<open>auto split: option.splits\<close>)
  next
    case (Some err)
    have "r = Some err" "u' = u @ [i]" using Cons.prems Some by simp_all
    then show ?thesis using Some
      by (auto intro!: exI [of _ "[i]"])
  qed
qed simp

lemma ms_infos_keys:
  assumes "ms_valid s"
  shows "sorted_wrt (<) (map Key (ms_infos s pre))"
proof -
  have "distinct (map fst (filter (\<lambda>(k, obj). prefix pre k) (objects s)))"
    using assms by (rule distinct_map_filter)
  then have "distinct (map Key (ms_infos s pre))"
    by (auto simp: ms_infos_def distinct_map inj_on_def)
  moreover have "sorted (map Key (ms_infos s pre))"
    by (simp add: ms_infos_def)
  ultimately show ?thesis
    by (simp add: strict_sorted_iff)
qed

lemma ms_infos_iff:
  assumes "ms_valid s"
  shows "i \<in> set (ms_infos s pre) \<longleftrightarrow> prefix pre (Key i)
    \<and> (\<exists>obj. map_of (objects s) (Key i) = Some obj \<and> i = \<lparr>Key = Key i, Size = len (mo_data obj),
          Created = mo_created obj\<rparr>)"
  using assms by (force simp: ms_infos_def)

lemma ms_infos_listed:
  assumes "ms_valid s"
  shows "Key ` set (ms_infos s pre) = {k. prefix pre k \<and> ms_Exists s k}"
proof (intro set_eqI iffI)
  fix k assume "k \<in> {k. prefix pre k \<and> ms_Exists s k}"
  then obtain obj where "prefix pre k" "map_of (objects s) k = Some obj"
    by (auto simp: ms_Exists_def)
  then have "\<lparr>Key = k, Size = len (mo_data obj), Created = mo_created obj\<rparr> \<in> set (ms_infos s pre)"
    by (simp add: ms_infos_iff [OF assms])
  then show "k \<in> Key ` set (ms_infos s pre)" by force
qed (auto simp: ms_infos_iff [OF assms] ms_Exists_def)

text \<open>
  Listing a prefix calls the callback on the objects whose key begins with it, each once
  and in ascending key order, with its size, and stops after the first error, which it returns;
  without an error every one of them has been listed.
\<close>

theorem List_exact:
  assumes "ms_valid s" and "ms_List s pre (\<lambda>i u. (f i, u @ [i])) [] = (r, seen)"
  shows "sorted_wrt (<) (map Key seen)
    \<and> (\<forall>i \<in> set seen. prefix pre (Key i)
        \<and> (\<exists>b. ms_Get s (Key i) = Inr b \<and> Size i = len b))
    \<and> (case r of
         None \<Rightarrow> (\<forall>i \<in> set seen. f i = None)
           \<and> (\<forall>k. prefix pre k \<and> ms_Exists s k \<longrightarrow> k \<in> Key ` set seen)
       | Some err \<Rightarrow> seen \<noteq> [] \<and> f (last seen) = Some err
           \<and> (\<forall>i \<in> set (butlast seen). f i = None)
           \<and> (\<forall>k. prefix pre k \<and> ms_Exists s k \<and> k \<notin> Key ` set seen \<longrightarrow> Key (last seen) < k))"
proof -
  obtain rest where all: "ms_infos s pre = seen @ rest"
    and r: "case r of None \<Rightarrow> rest = [] \<and> (\<forall>i \<in> set seen. f i = None)
      | Some err \<Rightarrow> seen \<noteq> [] \<and> f (last seen) = Some err \<and> (\<forall>i \<in> set (butlast seen). f i = None)"
    using list_loop_collect [of f "ms_infos s pre" "[]" r seen] assms(2) by (auto simp: ms_List_def)
  have sorted: "sorted_wrt (<) (map Key seen @ map Key rest)"
    using ms_infos_keys [OF assms(1), of pre] all by simp
  have key: "k \<in> Key ` set seen \<union> Key ` set rest" if "prefix pre k" "ms_Exists s k" for k
    using that ms_infos_listed [OF assms(1), of pre] all by (simp flip: image_Un set_append)
  have info: "prefix pre (Key i) \<and> (\<exists>b. ms_Get s (Key i) = Inr b \<and> Size i = len b)"
    if "i \<in> set seen" for i
  proof -
    have "i \<in> set (ms_infos s pre)" using that all by simp
    then obtain obj where "prefix pre (Key i)" "map_of (objects s) (Key i) = Some obj"
      "i = \<lparr>Key = Key i, Size = len (mo_data obj), Created = mo_created obj\<rparr>"
      unfolding ms_infos_iff [OF assms(1)] by blast
    then show ?thesis by (metis ObjectInfo.select_convs(2) ms_Get_found)
  qed
  have after: "Key (last seen) < k" if "k \<in> Key ` set rest" "seen \<noteq> []" for k
    using sorted that by (auto simp: sorted_wrt_append)
  show ?thesis
  proof (cases r)
    case None
    then show ?thesis using sorted r info key by (auto simp: sorted_wrt_append)
  next
    case (Some err)
    have "Key (last seen) < k" if "prefix pre k" "ms_Exists s k" "k \<notin> Key ` set seen" for k
      using key [OF that(1,2)] that(3) after r Some by auto
    then show ?thesis using sorted r info Some by (auto simp: sorted_wrt_append)
  qed
qed

lemma demo_store_List:
  "ms_List demo_store ''a/'' (\<lambda>i u. (if Size i = 5 then None else Some (), u @ [i])) [] =
     (None, [\<lparr>Key = ''a/1'', Size = 5, Created = 1\<rparr>, \<lparr>Key = ''a/2'', Size = 5, Created = 0\<rparr>])"
  by (simp add: ms_List_def ms_infos_def demo_store_def ms_write_def NewMemoryStore_def tick_def)

theorem List_exact_witness:
  "{k. prefix ''a/'' k \<and> ms_Exists demo_store k} \<subseteq> {''a/1'', ''a/2''}"
  using List_exact [OF demo_store_valid demo_store_List] by auto

subsection \<open>The abstract store\<close>

datatype StoreOp =
    OpPut string string
  | OpGet string
  | OpRange string int int
  | OpCompose string "string list"
  | OpList string
  | OpDelete string
  | OpExists string

datatype 'e Reply =
    Done "'e StoreError option"
  | Data "'e StoreError + string"
  | Panicked
  | Listing "(string \<times> int) list"
  | Found bool

type_synonym Spec = "string \<rightharpoonup> string"

text \<open>What the interface promises, over the map from keys to contents.\<close>

fun spec_op :: "Spec \<Rightarrow> StoreOp \<Rightarrow> 'e Reply \<times> Spec" where
  "spec_op m (OpPut k b) = (Done None, m(k \<mapsto> b))"
| "spec_op m (OpGet k) =
     (Data (case m k of None \<Rightarrow> Inl ErrObjectNotFound | Some b \<Rightarrow> Inr b), m)"
| "spec_op m (OpRange k off n) =
     (Data (if off < 0 then Inl (NegativeOffset k off)
            else case m k of None \<Rightarrow> Inl ErrObjectNotFound
              | Some b \<Rightarrow> if len b \<le> off then Inl ErrRangeNotSatisfiable
                  else Inr (if n < 0 then drop (nat off) b
                            else take (nat n) (drop (nat off) b))), m)"
| "spec_op m (OpCompose dst ks) =
     (if ks = [] \<or> 32 < length ks then (Done (Some (ComposeCount dst (length ks))), m)
      else if \<exists>k \<in> set ks. m k = None then (Done (Some ErrObjectNotFound), m)
      else (Done None, m(dst \<mapsto> concat (map (\<lambda>k. the (m k)) ks))))"
| "spec_op m (OpList pre) =
     (Listing (map (\<lambda>k. (k, len (the (m k)))) (sorted_list_of_set {k \<in> dom m. prefix pre k})), m)"
| "spec_op m (OpDelete k) =
     (if m k = None then (Done (Some ErrObjectNotFound), m) else (Done None, m(k := None)))"
| "spec_op m (OpExists k) = (Found (m k \<noteq> None), m)"

text \<open>What the store does; a listing collects keys and sizes.\<close>

fun ms_op :: "(nat \<Rightarrow> nat) \<Rightarrow> ('c, 't) MemoryStore \<Rightarrow> StoreOp \<Rightarrow> 'e Reply \<times> ('c, 't) MemoryStore"
  where
  "ms_op grow s (OpPut k b) =
     (case ms_Put grow (bytes_read :: (string, 'e) reader) s k b of
        None \<Rightarrow> (Panicked, s) | Some (r, s') \<Rightarrow> (Done r, s'))"
| "ms_op grow s (OpGet k) = (Data (ms_Get s k), s)"
| "ms_op grow s (OpRange k off n) =
     (case ms_GetRange s k off n of None \<Rightarrow> (Panicked, s) | Some r \<Rightarrow> (Data r, s))"
| "ms_op grow s (OpCompose dst ks) = (case ms_Compose s dst ks of (r, s') \<Rightarrow> (Done r, s'))"
| "ms_op grow s (OpList pre) =
     (Listing (snd (ms_List s pre (\<lambda>i u. (None :: unit option, u @ [(Key i, Size i)])) [])), s)"
| "ms_op grow s (OpDelete k) = (case ms_Delete s k of (r, s') \<Rightarrow> (Done r, s'))"
| "ms_op grow s (OpExists k) = (Found (ms_Exists s k), s)"

fun run_ops :: "('s \<Rightarrow> StoreOp \<Rightarrow> 'e Reply \<times> 's) \<Rightarrow> 's \<Rightarrow> StoreOp list \<Rightarrow> 'e Reply list" where
  "run_ops step s [] = []"
| "run_ops step s (op # ops) = fst (step s op) # run_ops step (snd (step s op)) ops"

text \<open>Objects stay within what a Go slice can hold, as long as the specification's do.\<close>

abbreviation int64_sizes :: "Spec \<Rightarrow> bool" where
  "int64_sizes m \<equiv> \<forall>b \<in> ran m. len b < 2 ^ 63"

fun sizes_ok :: "Spec \<Rightarrow> StoreOp list \<Rightarrow> bool" where
  "sizes_ok m [] = int64_sizes m"
| "sizes_ok m (op # ops) \<longleftrightarrow> int64_sizes m \<and> sizes_ok (snd (spec_op m op :: unit Reply \<times> Spec)) ops"

definition abs_store :: "('c, 't) MemoryStore \<Rightarrow> Spec" where
  "abs_store s = (\<lambda>k. map_option mo_data (map_of (objects s) k))"

lemma abs_store_Get: "abs_store s k = Some b \<longleftrightarrow> ms_Get s k = Inr b"
  by (simp add: abs_store_def ms_Get_found)


lemma abs_store_write: "abs_store (ms_write s k b) = (abs_store s)(k \<mapsto> b)"
  by (rule ext) (auto simp: abs_store_def ms_write_def update_conv' split: prod.split)

lemma abs_store_remove: "abs_store (ms_remove s k) = (abs_store s)(k := None)"
  by (rule ext) (auto simp: abs_store_def delete_conv')

lemma abs_store_None: "abs_store s k = None \<longleftrightarrow> map_of (objects s) k = None"
  by (simp add: abs_store_def)

lemma ms_Get_abs:
  "ms_Get s k = (case abs_store s k of None \<Rightarrow> Inl ErrObjectNotFound | Some b \<Rightarrow> Inr b)"
  by (simp add: ms_Get_def abs_store_def split: option.split)

lemma ms_GetRange_abs:
  assumes "int64_sizes (abs_store s)"
  shows "ms_GetRange s k off n = Some (if off < 0 then Inl (NegativeOffset k off)
     else case abs_store s k of None \<Rightarrow> Inl ErrObjectNotFound
       | Some b \<Rightarrow> if len b \<le> off then Inl ErrRangeNotSatisfiable
           else Inr (if n < 0 then drop (nat off) b else take (nat n) (drop (nat off) b)))"
proof (cases "abs_store s k")
  case None
  then show ?thesis by (auto simp: ms_GetRange_def abs_store_def)
next
  case (Some b)
  have b: "len b < 2 ^ 63" "ms_Get s k = (Inr b :: 'e StoreError + string)"
    using assms Some by (auto simp: ran_def ms_Get_abs)
  show ?thesis
  proof (cases "0 \<le> off \<and> off < len b")
    case True
    then show ?thesis using Some by (simp add: ms_GetRange_inside [OF _ b(2) _ b(1)])
  next
    case False
    then show ?thesis using Some by (auto simp: ms_GetRange_def abs_store_def)
  qed
qed

lemma joined_abs:
  "joined (ms_Get s) ks =
     (if \<exists>k \<in> set ks. abs_store s k = None then None
      else Some (concat (map (\<lambda>k. the (abs_store s k)) ks)))"
  by (induction ks) (auto simp: ms_Get_abs split: option.splits)

lemma ms_List_abs:
  assumes "ms_valid s"
  shows "snd (ms_List s pre (\<lambda>i u. (None, u @ [(Key i, Size i)])) []) =
    map (\<lambda>k. (k, len (the (abs_store s k)))) (sorted_list_of_set {k \<in> dom (abs_store s). prefix pre k})"
proof -
  let ?is = "ms_infos s pre"
  have collect: "list_loop (\<lambda>i u. (None, u @ [(Key i, Size i)])) is' u =
      (None, u @ map (\<lambda>i. (Key i, Size i)) is')" for is' u
    by (induction is' arbitrary: u) simp_all
  have "set (map Key ?is) = {k \<in> dom (abs_store s). prefix pre k}"
    by (auto simp: ms_infos_listed [OF assms] abs_store_def ms_Exists_def)
  then have "map Key ?is = sorted_list_of_set {k \<in> dom (abs_store s). prefix pre k}"
    using ms_infos_keys [OF assms, of pre]
    by (metis sorted_list_of_set.idem_if_sorted_distinct strict_sorted_iff)
  moreover have "Size i = len (the (abs_store s (Key i)))" if "i \<in> set ?is" for i
    using that unfolding ms_infos_iff [OF assms]
    by (metis ObjectInfo.select_convs(2) abs_store_def option.map_sel option.sel option.simps(3))
  then have "map (\<lambda>i. (Key i, Size i)) ?is = map (\<lambda>i. (Key i, len (the (abs_store s (Key i))))) ?is"
    by simp
  ultimately show ?thesis
    by (simp add: ms_List_def collect flip: \<open>map Key ?is = _\<close>)
qed

text \<open>One operation: the reply and the next state are those of the specification.\<close>

lemma ms_op_refines:
  assumes "growing grow" and valid: "ms_valid s" and "int64_sizes (abs_store s)"
  shows "(fst (ms_op grow s op), abs_store (snd (ms_op grow s op :: 'e Reply \<times> _))) =
      (spec_op (abs_store s) op :: 'e Reply \<times> Spec)
    \<and> ms_valid (snd (ms_op grow s op :: 'e Reply \<times> _))"
proof (cases op)
  case (OpPut k b)
  then show ?thesis
    using valid by (simp add: ms_Put_source [OF bytes.source_axioms assms(1)] abs_store_write ms_valid_write)
next
  case (OpRange k off n)
  then show ?thesis using valid by (simp add: ms_GetRange_abs [OF assms(3)])
next
  case (OpCompose dst ks)
  then show ?thesis
    using valid by (auto simp: ms_Compose_joined joined_abs MaxComposeSources_def abs_store_write ms_valid_write)
next
  case (OpDelete k)
  then show ?thesis
    using valid by (cases "map_of (objects s) k")
      (simp_all add: ms_Delete_def abs_store_remove abs_store_None distinct_delete del: map_of_eq_None_iff)
qed (use valid in \<open>simp_all add: ms_Get_abs ms_List_abs ms_Exists_def abs_store_def\<close>)

text \<open>Step by step to whole runs, for any implementation with an abstraction to the specification.\<close>

definition simulates ::
  "('s \<Rightarrow> StoreOp \<Rightarrow> 'e Reply \<times> 's) \<Rightarrow> ('s \<Rightarrow> Spec) \<Rightarrow> ('s \<Rightarrow> bool) \<Rightarrow> bool" where
  "simulates step view valid \<longleftrightarrow>
     (\<forall>s op. valid s \<longrightarrow> int64_sizes (view s) \<longrightarrow>
        (fst (step s op), view (snd (step s op))) = spec_op (view s) op \<and> valid (snd (step s op)))"

lemma run_ops_simulates:
  fixes step :: "'s \<Rightarrow> StoreOp \<Rightarrow> 'e Reply \<times> 's"
  assumes "simulates step view valid" and "valid s" and "sizes_ok (view s) ops"
  shows "run_ops step s ops = run_ops spec_op (view s) ops"
  using assms(2,3)
proof (induction ops arbitrary: s)
  case (Cons op ops)
  have next_state: "snd (spec_op m op :: unit Reply \<times> Spec) = snd (spec_op m op :: 'e Reply \<times> Spec)" for m
    by (cases op) auto
  have "int64_sizes (view s)" using Cons.prems(2) by simp
  then have "(fst (step s op), view (snd (step s op))) = spec_op (view s) op" "valid (snd (step s op))"
    using assms(1) Cons.prems(1) unfolding simulates_def by blast+
  then show ?case
    using Cons.prems(2) by (simp add: prod_eq_iff next_state Cons.IH)
qed simp

lemma ms_op_simulates: "growing grow \<Longrightarrow> simulates (ms_op grow) abs_store ms_valid"
  unfolding simulates_def using ms_op_refines [of grow] by blast

lemma new_store_refines:
  assumes "growing grow" and "sizes_ok Map.empty ops"
  shows "run_ops (ms_op grow) (NewMemoryStore now c) ops = (run_ops spec_op Map.empty ops :: 'e Reply list)"
proof -
  have "abs_store (NewMemoryStore now c) = Map.empty"
    by (simp add: abs_store_def NewMemoryStore_def)
  then show ?thesis
    using run_ops_simulates [OF ms_op_simulates [OF assms(1)], of "NewMemoryStore now c" ops] assms(2)
    by (simp add: NewMemoryStore_def)
qed

text \<open>
  On a new store, any sequence of operations gets the replies that the map specification gives:
  the store refines its specification.
\<close>

theorem MemoryStore_refines:
  assumes "growing grow" and "sizes_ok Map.empty ops"
  shows "run_ops (ms_op grow) (NewMemoryStore now c) ops = (run_ops spec_op Map.empty ops :: 'e Reply list)"
  by (rule new_store_refines [OF assms])

definition demo_ops :: "StoreOp list" where
  "demo_ops = [OpPut ''a'' ''one'', OpPut ''b'' ''two'', OpCompose ''c'' [''b'', ''a''], OpDelete ''b'',
     OpRange ''c'' 1 4, OpGet ''b'', OpList []]"

theorem MemoryStore_refines_witness:
  "run_ops (ms_op double) (NewMemoryStore tick 0) demo_ops =
     (run_ops spec_op Map.empty demo_ops :: nat Reply list)"
  by (rule MemoryStore_refines [OF growing_double])
    (auto simp: demo_ops_def ran_def split: if_splits)

end
