(* ===== verification/Store_Concurrent.thy ===== *)
theory Store_Concurrent
  imports Store_Refine "HOL-Library.Multiset"
begin

text \<open>
  \<^verbatim>\<open>testcms/memorystore.go\<close> under concurrent callers, one statement at a time. A goroutine is a
  number; its \<open>Phase\<close> is where it stands inside an operation, the mutex \<open>mu\<close> is free or held by
  one of them, and every step moves one goroutine: \<open>critical_step\<close> inside the lock, \<open>sys_step\<close>
  elsewhere. What a step makes visible to the callers is an event; the history of a run is the list
  of its events. \<open>Store_Linear\<close> shows that the histories are those of the atomic operations.
\<close>

subsection \<open>The state\<close>

text \<open>
  \<open>Starting\<close>: before the guards and, in \<open>Put\<close>, before the source has been read. \<open>Waiting\<close>: at
  \<open>s.mu.Lock()\<close>, with the bytes a \<open>Put\<close> has read. \<open>Inside\<close>: the lock is held, nothing else is
  done. \<open>Copying\<close>: an object is found. \<open>Gathering\<close>: the loop of \<open>Compose\<close>. \<open>Stamped\<close>: the clock
  has been read, the object not yet assigned. \<open>Removing\<close>: the key is known to exist. \<open>Collecting\<close>:
  the loop of \<open>List\<close> over the map. \<open>Leaving\<close>, \<open>LeavingList\<close>: at the unlocking. \<open>Calling\<close>: the
  callbacks of \<open>List\<close>, after the unlocking, with what they have seen. \<open>Returning\<close>: at the return.
\<close>

datatype ('e, 't) Phase =
    Ready
  | Starting
  | Waiting string
  | Inside string
  | Copying "'t memObject"
  | Gathering "string list" string
  | Stamped string string 't
  | Removing
  | Collecting "(string \<times> 't memObject) list" "'t ObjectInfo list"
  | Leaving "'e Reply"
  | LeavingList "'t ObjectInfo list"
  | Calling "'t ObjectInfo list" "(string \<times> int) list"
  | Returning "'e Reply"

record ('c, 'e, 't) Conc =
  mu :: "nat option"
  mem :: "('c, 't) MemoryStore"
  call_of :: "nat \<Rightarrow> StoreOp"
  phase :: "nat \<Rightarrow> ('e, 't) Phase"

definition conc_init :: "('c, 't) MemoryStore \<Rightarrow> ('c, 'e, 't) Conc" where
  "conc_init s = \<lparr>mu = None, mem = s, call_of = (\<lambda>_. OpExists []), phase = (\<lambda>_. Ready)\<rparr>"

subsection \<open>Before the lock\<close>

text \<open>
  What an operation does first: a reply that needs no lock, or the bytes to store. The guards of
  \<open>GetRange\<close> and \<open>Compose\<close> come before the lock, and \<open>Put\<close> reads its source before it.
\<close>

fun entry :: "(nat \<Rightarrow> nat) \<Rightarrow> StoreOp \<Rightarrow> 'e Reply + string" where
  "entry grow (OpPut k b) =
     (case io_ReadAll grow (bytes_read :: (string, 'e) reader) b of
        None \<Rightarrow> Inl Panicked
      | Some ((data, Some err), _) \<Rightarrow> Inl (Done (Some (Wrapped k (OtherError err))))
      | Some ((data, None), _) \<Rightarrow> Inr data)"
| "entry grow (OpRange k off n) = (if off < 0 then Inl (Data (Inl (NegativeOffset k off))) else Inr [])"
| "entry grow (OpCompose dst ks) =
     (if length ks = 0 \<or> MaxComposeSources < length ks
      then Inl (Done (Some (ComposeCount dst (length ks)))) else Inr [])"
| "entry grow _ = Inr []"

subsection \<open>Inside the lock\<close>

text \<open>The bytes \<open>GetRange\<close> copies: \<open>b[offset:end]\<close>, where \<open>None\<close> is a panic.\<close>

definition range_copy :: "string \<Rightarrow> int \<Rightarrow> int \<Rightarrow> string option" where
  "range_copy b off n = slice b off (if 0 \<le> n \<and> n < len b - off then add64 off n else len b)"

definition info_of :: "string \<times> 't memObject \<Rightarrow> 't ObjectInfo" where
  "info_of e = \<lparr>Key = fst e, Size = len (mo_data (snd e)), Created = mo_created (snd e)\<rparr>"

text \<open>The map's iteration order is any permutation of its entries.\<close>

inductive critical_step ::
  "StoreOp \<Rightarrow> ('c, 't) MemoryStore \<Rightarrow> ('e, 't) Phase \<Rightarrow> ('c, 't) MemoryStore \<Rightarrow> ('e, 't) Phase \<Rightarrow> bool"
where
  put_stamp: "Now s (clock s) = (t, c) \<Longrightarrow>
    critical_step (OpPut k b) s (Inside data) (s\<lparr>clock := c\<rparr>) (Stamped k data t)"
| assign: "critical_step op s (Stamped k data t)
    (s\<lparr>objects := AList.update k \<lparr>mo_data = data, mo_created = t\<rparr> (objects s)\<rparr>) (Leaving (Done None))"
| get_missing: "map_of (objects s) k = None \<Longrightarrow>
    critical_step (OpGet k) s (Inside d) s (Leaving (Data (Inl ErrObjectNotFound)))"
| get_found: "map_of (objects s) k = Some obj \<Longrightarrow> critical_step (OpGet k) s (Inside d) s (Copying obj)"
| get_copy: "critical_step (OpGet k) s (Copying obj) s (Leaving (Data (Inr (mo_data obj))))"
| range_missing: "map_of (objects s) k = None \<Longrightarrow>
    critical_step (OpRange k off n) s (Inside d) s (Leaving (Data (Inl ErrObjectNotFound)))"
| range_past: "map_of (objects s) k = Some obj \<Longrightarrow> len (mo_data obj) \<le> off \<Longrightarrow>
    critical_step (OpRange k off n) s (Inside d) s (Leaving (Data (Inl ErrRangeNotSatisfiable)))"
| range_found: "map_of (objects s) k = Some obj \<Longrightarrow> off < len (mo_data obj) \<Longrightarrow>
    critical_step (OpRange k off n) s (Inside d) s (Copying obj)"
| range_done: "critical_step (OpRange k off n) s (Copying obj) s
    (Leaving (case range_copy (mo_data obj) off n of None \<Rightarrow> Panicked | Some x \<Rightarrow> Data (Inr x)))"
| compose_start: "critical_step (OpCompose dst ks) s (Inside d) s (Gathering ks [])"
| compose_next: "map_of (objects s) k = Some obj \<Longrightarrow>
    critical_step op s (Gathering (k # ks) out) s (Gathering ks (out @ mo_data obj))"
| compose_missing: "map_of (objects s) k = None \<Longrightarrow>
    critical_step op s (Gathering (k # ks) out) s (Leaving (Done (Some ErrObjectNotFound)))"
| compose_stamp: "Now s (clock s) = (t, c) \<Longrightarrow>
    critical_step (OpCompose dst srcs) s (Gathering [] out) (s\<lparr>clock := c\<rparr>) (Stamped dst out t)"
| list_start: "mset entries = mset (objects s) \<Longrightarrow>
    critical_step (OpList pre) s (Inside d) s (Collecting entries [])"
| list_next: "critical_step (OpList pre) s (Collecting (e # entries) infos) s
    (Collecting entries (if prefix pre (fst e) then infos @ [info_of e] else infos))"
| list_done: "critical_step op s (Collecting [] infos) s (LeavingList infos)"
| delete_missing: "map_of (objects s) k = None \<Longrightarrow>
    critical_step (OpDelete k) s (Inside d) s (Leaving (Done (Some ErrObjectNotFound)))"
| delete_found: "map_of (objects s) k \<noteq> None \<Longrightarrow> critical_step (OpDelete k) s (Inside d) s Removing"
| remove: "critical_step (OpDelete k) s Removing
    (s\<lparr>objects := AList.delete k (objects s)\<rparr>) (Leaving (Done None))"
| exists: "critical_step (OpExists k) s (Inside d) s (Leaving (Found (map_of (objects s) k \<noteq> None)))"

subsection \<open>The system\<close>

text \<open>
  A caller invokes an operation and gets its reply; \<open>Lin\<close> marks the moment between the two where
  the operation counts as done: at the unlocking, or at the guard that needs no lock.
\<close>

datatype 'e Event = Inv nat StoreOp | Lin nat StoreOp "'e Reply" | Ret nat "'e Reply"

text \<open>A list as the callbacks of \<open>ms_op\<close> see it.\<close>

definition seen_of :: "'t ObjectInfo list \<Rightarrow> (string \<times> int) list" where
  "seen_of infos = map (\<lambda>i. (Key i, Size i)) infos"

inductive sys_step ::
  "(nat \<Rightarrow> nat) \<Rightarrow> ('c, 'e, 't) Conc \<Rightarrow> 'e Event list \<Rightarrow> ('c, 'e, 't) Conc \<Rightarrow> bool"
  for grow :: "nat \<Rightarrow> nat"
where
  invoke: "phase \<sigma> t = Ready \<Longrightarrow>
    sys_step grow \<sigma> [Inv t op] (\<sigma>\<lparr>call_of := (call_of \<sigma>)(t := op), phase := (phase \<sigma>)(t := Starting)\<rparr>)"
| guard: "phase \<sigma> t = Starting \<Longrightarrow> entry grow (call_of \<sigma> t) = Inl r \<Longrightarrow>
    sys_step grow \<sigma> [Lin t (call_of \<sigma> t) r] (\<sigma>\<lparr>phase := (phase \<sigma>)(t := Returning r)\<rparr>)"
| arrive: "phase \<sigma> t = Starting \<Longrightarrow> entry grow (call_of \<sigma> t) = (Inr d :: 'e Reply + string) \<Longrightarrow>
    sys_step grow \<sigma> [] (\<sigma>\<lparr>phase := (phase \<sigma>)(t := Waiting d)\<rparr>)"
| lock: "phase \<sigma> t = Waiting d \<Longrightarrow> mu \<sigma> = None \<Longrightarrow>
    sys_step grow \<sigma> [] (\<sigma>\<lparr>mu := Some t, phase := (phase \<sigma>)(t := Inside d)\<rparr>)"
| critical: "critical_step (call_of \<sigma> t) (mem \<sigma>) (phase \<sigma> t) s' p' \<Longrightarrow>
    sys_step grow \<sigma> [] (\<sigma>\<lparr>mem := s', phase := (phase \<sigma>)(t := p')\<rparr>)"
| unlock: "phase \<sigma> t = Leaving r \<Longrightarrow>
    sys_step grow \<sigma> [Lin t (call_of \<sigma> t) r] (\<sigma>\<lparr>mu := None, phase := (phase \<sigma>)(t := Returning r)\<rparr>)"
| unlock_list: "phase \<sigma> t = LeavingList infos \<Longrightarrow>
    sys_step grow \<sigma> [Lin t (call_of \<sigma> t) (Listing (seen_of (sort_key Key infos)))]
      (\<sigma>\<lparr>mu := None, phase := (phase \<sigma>)(t := Calling (sort_key Key infos) [])\<rparr>)"
| callback: "phase \<sigma> t = Calling (i # infos) seen \<Longrightarrow>
    sys_step grow \<sigma> [] (\<sigma>\<lparr>phase := (phase \<sigma>)(t := Calling infos (seen @ [(Key i, Size i)]))\<rparr>)"
| list_end: "phase \<sigma> t = Calling [] seen \<Longrightarrow>
    sys_step grow \<sigma> [] (\<sigma>\<lparr>phase := (phase \<sigma>)(t := Returning (Listing seen))\<rparr>)"
| reply: "phase \<sigma> t = Returning r \<Longrightarrow>
    sys_step grow \<sigma> [Ret t r] (\<sigma>\<lparr>phase := (phase \<sigma>)(t := Ready)\<rparr>)"

text \<open>Runs, with their history.\<close>

inductive conc_run ::
  "(nat \<Rightarrow> nat) \<Rightarrow> ('c, 'e, 't) Conc \<Rightarrow> 'e Event list \<Rightarrow> ('c, 'e, 't) Conc \<Rightarrow> bool" for grow \<sigma>
where
  run_refl: "conc_run grow \<sigma> [] \<sigma>"
| run_step: "conc_run grow \<sigma> h \<tau> \<Longrightarrow> sys_step grow \<tau> es \<tau>' \<Longrightarrow> conc_run grow \<sigma> (h @ es) \<tau>'"

end
