(* ===== verification/Store_Linear.thy ===== *)
theory Store_Linear
  imports Store_Concurrent
begin

text \<open>
  The concurrent store is linearizable: whatever the interleaving of the goroutines' steps, the
  replies are those of the atomic operations, in the order of their \<open>Lin\<close> events, and each of
  these lies between the invocation and the return of its call. The invariant relates the memory
  to the atomic store of that order: they agree when the mutex is free, and what its holder has
  done so far is accounted for by \<open>held\<close>.
\<close>

subsection \<open>The holder of the lock\<close>

text \<open>
  \<open>S\<close> is the store when the lock was taken, \<open>s\<close> the memory now. \<open>listed\<close> is what \<open>List\<close> collects, in
  the order of the entries.
\<close>

definition listed :: "string \<Rightarrow> (string \<times> 't memObject) list \<Rightarrow> 't ObjectInfo list" where
  "listed pre entries = map info_of (filter (\<lambda>e. prefix pre (fst e)) entries)"

fun held ::
  "(nat \<Rightarrow> nat) \<Rightarrow> StoreOp \<Rightarrow> ('c, 't) MemoryStore \<Rightarrow> ('c, 't) MemoryStore \<Rightarrow> ('e, 't) Phase \<Rightarrow> bool"
where
  "held grow op S s (Inside d) \<longleftrightarrow> s = S \<and> entry grow op = (Inr d :: 'e Reply + string)"
| "held grow op S s (Copying obj) \<longleftrightarrow> s = S \<and> (\<exists>k. map_of (objects S) k = Some obj
     \<and> (op = OpGet k \<or> (\<exists>off n. op = OpRange k off n \<and> 0 \<le> off \<and> off < len (mo_data obj))))"
| "held grow op S s (Gathering ks out) \<longleftrightarrow> s = S \<and> (\<exists>dst srcs. op = OpCompose dst srcs
     \<and> srcs \<noteq> [] \<and> length srcs \<le> MaxComposeSources
     \<and> gather (objects S) srcs [] = gather (objects S) ks out)"
| "held grow op S s (Stamped k d t) \<longleftrightarrow> (\<exists>c. Now S (clock S) = (t, c) \<and> s = S\<lparr>clock := c\<rparr>)
     \<and> ms_op grow S op = (Done None :: 'e Reply, ms_write S k d)"
| "held grow op S s Removing \<longleftrightarrow> s = S \<and> (\<exists>k. op = OpDelete k \<and> map_of (objects S) k \<noteq> None)"
| "held grow op S s (Collecting entries infos) \<longleftrightarrow> s = S \<and> (\<exists>pre. op = OpList pre
     \<and> mset (infos @ listed pre entries) = mset (listed pre (objects S)))"
| "held grow op S s (LeavingList infos) \<longleftrightarrow> s = S \<and> (\<exists>pre. op = OpList pre
     \<and> mset infos = mset (listed pre (objects S)))"
| "held grow op S s (Leaving r) \<longleftrightarrow> ms_op grow S op = (r, s)"
| "held grow op S s _ \<longleftrightarrow> False"

lemma listed_simps [simp]:
  "listed pre [] = []"
  "listed pre (e # entries) = (if prefix pre (fst e) then info_of e # listed pre entries else listed pre entries)"
  by (simp_all add: listed_def)

lemma listed_mset: "mset es = mset es' \<Longrightarrow> mset (listed pre es) = mset (listed pre es')"
  by (simp add: listed_def)

lemma ms_op_entry: "entry grow op = Inl r \<Longrightarrow> ms_op grow S op = (r, S)"
  by (cases op)
    (auto simp: ms_Put_def ms_GetRange_def ms_Compose_def split: option.splits if_splits)

text \<open>Each step inside the lock keeps the account.\<close>

lemma critical_step_held:
  "critical_step op s p s' p' \<Longrightarrow> held grow op S s p \<Longrightarrow> held grow op S s' p'"
proof (induction rule: critical_step.induct)
  case (put_stamp s t c k b data)
  then show ?case by (auto simp: ms_Put_def split: option.splits)
next
  case (assign op s k data t)
  then show ?case by (auto simp: ms_write_def)
next
  case (range_done k off n s obj)
  then show ?case
    by (auto simp: ms_GetRange_def range_copy_def Let_def split: option.splits)
next
  case (compose_missing s k op ks out)
  then show ?case by (auto simp: ms_Compose_def split: option.splits)
next
  case (compose_stamp s t c dst srcs out)
  then show ?case by (auto simp: ms_Compose_def)
next
  case (list_start entries s pre d)
  then show ?case using listed_mset [of entries "objects s"] by auto
qed (auto simp: ms_Get_def ms_GetRange_def ms_Delete_def ms_Exists_def Let_def split: if_splits)

lemma list_loop_all:
  "list_loop (\<lambda>i u. (None, u @ [(Key i, Size i)])) infos u = (None, u @ seen_of infos)"
  by (induction infos arbitrary: u) (simp_all add: seen_of_def)

text \<open>The order of the map's iteration is lost in the sorting, since the keys are distinct.\<close>

lemma ms_op_listed:
  assumes "ms_valid S" and "mset infos = mset (listed pre (objects S))"
  shows "ms_op grow S (OpList pre) = (Listing (seen_of (sort_key Key infos)), S)"
proof -
  have infos: "ms_infos S pre = sort_key Key (listed pre (objects S))"
    by (simp add: ms_infos_def listed_def info_of_def [abs_def] case_prod_beta')
  have "distinct (map fst (filter (\<lambda>e. prefix pre (fst e)) (objects S)))"
    using assms(1) by (rule distinct_map_filter)
  then have "inj_on Key (set (listed pre (objects S)))"
    by (auto simp: listed_def info_of_def distinct_map inj_on_def)
  moreover have "set infos = set (listed pre (objects S))"
    using assms(2) by (rule mset_eq_setD)
  ultimately have "sort_key Key infos = sort_key Key (listed pre (objects S))"
    by (intro sort_key_inj_key_eq) (use assms(2) in simp_all)
  then show ?thesis by (simp add: ms_List_def infos list_loop_all)
qed

lemma ms_op_valid: "ms_valid S \<Longrightarrow> ms_valid (snd (ms_op grow S op))"
  by (cases op) (auto simp: ms_Put_def ms_Compose_def ms_Delete_def ms_valid_write distinct_delete
      bind_eq_Some split: option.splits prod.splits if_splits)

subsection \<open>Histories\<close>

fun lins :: "'e Event list \<Rightarrow> (StoreOp \<times> 'e Reply) list" where
  "lins [] = []"
| "lins (Lin t op r # h) = (op, r) # lins h"
| "lins (_ # h) = lins h"

fun thread_of :: "'e Event \<Rightarrow> nat" where
  "thread_of (Inv t op) = t"
| "thread_of (Lin t op r) = t"
| "thread_of (Ret t r) = t"

definition of_thread :: "nat \<Rightarrow> 'e Event list \<Rightarrow> 'e Event list" where
  "of_thread t h = filter (\<lambda>e. thread_of e = t) h"

text \<open>
  The events of one goroutine: calls one after the other, each with one \<open>Lin\<close> event between
  invocation and return, for the operation that was invoked and with the reply that is returned.
  The last call may be under way.
\<close>

fun calls_ok :: "'e Event list \<Rightarrow> bool" where
  "calls_ok [] \<longleftrightarrow> True"
| "calls_ok [Inv t op] \<longleftrightarrow> True"
| "calls_ok [Inv t op, Lin t' op' r] \<longleftrightarrow> op' = op"
| "calls_ok (Inv t op # Lin t' op' r # Ret t'' r' # es) \<longleftrightarrow> op' = op \<and> r' = r \<and> calls_ok es"
| "calls_ok _ \<longleftrightarrow> False"

fun complete :: "'e Event list \<Rightarrow> bool" where
  "complete [] \<longleftrightarrow> True"
| "complete (Inv t op # Lin t' op' r # Ret t'' r' # es) \<longleftrightarrow> op' = op \<and> r' = r \<and> complete es"
| "complete _ \<longleftrightarrow> False"

lemma complete_append: "complete es \<Longrightarrow> complete (es @ fs) \<longleftrightarrow> complete fs"
  by (induction es rule: complete.induct) auto

lemma complete_calls_ok: "complete es \<Longrightarrow> calls_ok (es @ fs) \<longleftrightarrow> calls_ok fs"
  by (induction es rule: complete.induct) auto

lemma lins_append [simp]: "lins (h @ h') = lins h @ lins h'"
  by (induction h rule: lins.induct) auto

lemma of_thread_append [simp]: "of_thread t (h @ h') = of_thread t h @ of_thread t h'"
  by (simp add: of_thread_def)

lemma of_thread_Nil [simp]: "of_thread t [] = []"
  by (simp add: of_thread_def)

lemma of_thread_Cons [simp]:
  "of_thread t (e # h) = (if thread_of e = t then e # of_thread t h else of_thread t h)"
  by (simp add: of_thread_def)

text \<open>What a goroutine in some phase has contributed to the history since its last return.\<close>

fun pending :: "nat \<Rightarrow> StoreOp \<Rightarrow> ('e, 't) Phase \<Rightarrow> 'e Event list" where
  "pending t op Ready = []"
| "pending t op (Returning r) = [Inv t op, Lin t op r]"
| "pending t op (Calling infos seen) = [Inv t op, Lin t op (Listing (seen @ seen_of infos))]"
| "pending t op _ = [Inv t op]"

definition calls_inv :: "'e Event list \<Rightarrow> (nat \<Rightarrow> StoreOp) \<Rightarrow> (nat \<Rightarrow> ('e, 't) Phase) \<Rightarrow> bool" where
  "calls_inv h c p \<longleftrightarrow> (\<forall>t. \<exists>es. complete es \<and> of_thread t h = es @ pending t (c t) (p t))"

text \<open>A step of one goroutine adds events of its own only, and leaves the others where they are.\<close>

lemma calls_inv_step:
  assumes "calls_inv h c p" and "\<forall>e \<in> set new. thread_of e = t"
    and "complete es" and "pending t (c t) (p t) @ new = es @ pending t op q"
  shows "calls_inv (h @ new) (c(t := op)) (p(t := q))"
  unfolding calls_inv_def
proof
  fix u
  obtain ds where d: "complete ds" "of_thread u h = ds @ pending u (c u) (p u)"
    using assms(1) unfolding calls_inv_def by blast
  show "\<exists>es. complete es \<and> of_thread u (h @ new) = es @ pending u ((c(t := op)) u) ((p(t := q)) u)"
  proof (cases "u = t")
    case True
    have "of_thread t new = new" using assms(2) by (simp add: of_thread_def)
    then have "of_thread t (h @ new) = (ds @ es) @ pending t op q"
      using d(2) assms(4) True by simp
    then show ?thesis using True d(1) assms(3) by (auto simp: complete_append)
  next
    case False
    have "of_thread u new = []" using assms(2) False by (simp add: of_thread_def)
    then show ?thesis using d False by auto
  qed
qed

lemmas calls_inv_quiet = calls_inv_step [where new = "[]" and es = "[]", simplified]
lemmas calls_inv_event = calls_inv_step [where new = "[e]" and es = "[]" for e, simplified]

subsection \<open>The invariant\<close>

abbreviation after_lins ::
  "(nat \<Rightarrow> nat) \<Rightarrow> ('c, 't) MemoryStore \<Rightarrow> 'e Event list \<Rightarrow> ('c, 't) MemoryStore" where
  "after_lins grow s0 h \<equiv> foldl (\<lambda>s x. snd (ms_op grow s (fst x) :: 'e Reply \<times> _)) s0 (lins h)"

definition inside :: "('e, 't) Phase \<Rightarrow> bool" where
  "inside p \<longleftrightarrow> (case p of Ready \<Rightarrow> False | Starting \<Rightarrow> False | Waiting _ \<Rightarrow> False | Calling _ _ \<Rightarrow> False
     | Returning _ \<Rightarrow> False | _ \<Rightarrow> True)"

text \<open>
  The lock excludes: whoever is inside holds it. The memory is the atomic store, but for what the
  holder has done. The replies are those of the atomic operations, and each goroutine's events are
  complete calls and what it has under way.
\<close>

definition conc_inv ::
  "(nat \<Rightarrow> nat) \<Rightarrow> ('c, 't) MemoryStore \<Rightarrow> 'e Event list \<Rightarrow> ('c, 'e, 't) Conc \<Rightarrow> bool" where
  "conc_inv grow s0 h \<sigma> \<longleftrightarrow>
     ms_valid (after_lins grow s0 h)
     \<and> (\<forall>t. inside (phase \<sigma> t) \<longrightarrow> mu \<sigma> = Some t)
     \<and> (mu \<sigma> = None \<longrightarrow> mem \<sigma> = after_lins grow s0 h)
     \<and> (\<forall>t. mu \<sigma> = Some t \<longrightarrow> held grow (call_of \<sigma> t) (after_lins grow s0 h) (mem \<sigma>) (phase \<sigma> t))
     \<and> (\<forall>t d. phase \<sigma> t = Waiting d \<longrightarrow> entry grow (call_of \<sigma> t) = (Inr d :: 'e Reply + string))
     \<and> map snd (lins h) = run_ops (ms_op grow) s0 (map fst (lins h))
     \<and> calls_inv h (call_of \<sigma>) (phase \<sigma>)"

lemma held_inside: "held grow op S s p \<Longrightarrow> inside p"
  by (cases p) (auto simp: inside_def)

lemma critical_step_inside: "critical_step op s p s' p' \<Longrightarrow> inside p \<and> inside p'"
  by (induction rule: critical_step.induct) (auto simp: inside_def)

lemma inside_pending: "inside p \<Longrightarrow> pending t op p = [Inv t op]"
  by (cases p) (auto simp: inside_def)

lemma run_ops_snoc:
  "run_ops step s (ops @ [op]) = run_ops step s ops @ [fst (step (foldl (\<lambda>s op. snd (step s op)) s ops) op)]"
  by (induction ops arbitrary: s) simp_all

lemma foldl_map_fst: "foldl (\<lambda>s op. f s op) s (map fst xs) = foldl (\<lambda>s x. f s (fst x)) s xs"
  by (induction xs arbitrary: s) simp_all

text \<open>A \<open>Lin\<close> event with the reply of the atomic operation continues the run.\<close>

lemma run_ops_lin:
  assumes "map snd (lins h) = run_ops (ms_op grow) s0 (map fst (lins h))"
    and "ms_op grow (after_lins grow s0 h) op = (r, S)"
  shows "map snd (lins (h @ [Lin t op r])) = run_ops (ms_op grow) s0 (map fst (lins (h @ [Lin t op r])))"
    and "after_lins grow s0 (h @ [Lin t op r]) = S"
  using assms by (simp_all add: run_ops_snoc foldl_map_fst)

lemma conc_invD:
  assumes "conc_inv grow s0 h (\<sigma> :: ('c, 'e, 't) Conc)"
  shows "ms_valid (after_lins grow s0 h)" "\<And>t. inside (phase \<sigma> t) \<Longrightarrow> mu \<sigma> = Some t"
    "mu \<sigma> = None \<Longrightarrow> mem \<sigma> = after_lins grow s0 h"
    "\<And>t. mu \<sigma> = Some t \<Longrightarrow> held grow (call_of \<sigma> t) (after_lins grow s0 h) (mem \<sigma>) (phase \<sigma> t)"
    "\<And>t d. phase \<sigma> t = Waiting d \<Longrightarrow> entry grow (call_of \<sigma> t) = (Inr d :: 'e Reply + string)"
    "map snd (lins h) = run_ops (ms_op grow) s0 (map fst (lins h))"
    "calls_inv h (call_of \<sigma>) (phase \<sigma>)"
  using assms unfolding conc_inv_def by blast+

text \<open>Steps outside the lock: the store is not touched.\<close>

lemma conc_inv_outside:
  assumes inv: "conc_inv grow s0 h (\<sigma> :: ('c, 'e, 't) Conc)"
    and "\<not> inside (phase \<sigma> t)" and "\<not> inside q"
    and "\<And>d. q = Waiting d \<Longrightarrow> entry grow op = (Inr d :: 'e Reply + string)"
    and "after_lins grow s0 (h @ new) = after_lins grow s0 h"
    and "map snd (lins (h @ new)) = run_ops (ms_op grow) s0 (map fst (lins (h @ new)))"
    and "calls_inv (h @ new) ((call_of \<sigma>)(t := op)) ((phase \<sigma>)(t := q))"
  shows "conc_inv grow s0 (h @ new) (\<sigma>\<lparr>call_of := (call_of \<sigma>)(t := op), phase := (phase \<sigma>)(t := q)\<rparr>)"
proof -
  note inv = conc_invD [OF inv]
  have "mu \<sigma> \<noteq> Some t" using inv(4) held_inside assms(2) by blast
  then show ?thesis
    unfolding conc_inv_def assms(5) using inv(1-5) assms(3,4,6,7) by auto
qed

lemma conc_inv_unlock:
  assumes inv: "conc_inv grow s0 h (\<sigma> :: ('c, 'e, 't) Conc)"
    and "inside (phase \<sigma> t)" and "\<not> inside q" and "\<forall>d. q \<noteq> Waiting d"
    and "ms_op grow (after_lins grow s0 h) (call_of \<sigma> t) = (r, mem \<sigma>)"
    and "pending t (call_of \<sigma> t) q = [Inv t (call_of \<sigma> t), Lin t (call_of \<sigma> t) r]"
  shows "conc_inv grow s0 (h @ [Lin t (call_of \<sigma> t) r]) (\<sigma>\<lparr>mu := None, phase := (phase \<sigma>)(t := q)\<rparr>)"
proof -
  note inv = conc_invD [OF inv]
  note lin = run_ops_lin [OF inv(6) assms(5), where t = t]
  have holder: "\<not> inside (phase \<sigma> u)" if "u \<noteq> t" for u using inv(2) [of u] inv(2) [of t] assms(2) that by auto
  have "calls_inv (h @ [Lin t (call_of \<sigma> t) r]) (call_of \<sigma>) ((phase \<sigma>)(t := q))"
    using calls_inv_event [OF inv(7), of "Lin t (call_of \<sigma> t) r" t "call_of \<sigma> t" q] assms(6)
    by (simp add: inside_pending [OF assms(2)])
  moreover have "ms_valid (mem \<sigma>)"
    using ms_op_valid [OF inv(1), of grow "call_of \<sigma> t"] assms(5) by (metis snd_conv)
  ultimately show ?thesis
    unfolding conc_inv_def lin(2) using lin(1) inv(5) holder assms(3,4) by auto
qed

lemma conc_inv_step:
  assumes "sys_step grow \<sigma> es \<sigma>'" and "conc_inv grow s0 h (\<sigma> :: ('c, 'e, 't) Conc)"
  shows "conc_inv grow s0 (h @ es) \<sigma>'"
  using assms
proof (induction rule: sys_step.induct)
  case (invoke \<sigma> t op)
  note inv = conc_invD [OF invoke.prems]
  show ?case
    using invoke calls_inv_event [OF inv(7), of "Inv t op" t op Starting] inv(6)
    by (intro conc_inv_outside) (simp_all add: inside_def)
next
  case (guard \<sigma> t r)
  note inv = conc_invD [OF guard.prems]
  note lin = run_ops_lin [OF inv(6) ms_op_entry [OF guard.hyps(2)], where t = t]
  show ?case
    using conc_inv_outside [OF guard.prems, of t "Returning r" "call_of \<sigma> t" "[Lin t (call_of \<sigma> t) r]"]
      guard lin calls_inv_event [OF inv(7), of "Lin t (call_of \<sigma> t) r" t "call_of \<sigma> t" "Returning r"]
    by (simp add: inside_def)
next
  case (arrive \<sigma> t d)
  note inv = conc_invD [OF arrive.prems]
  show ?case
    using conc_inv_outside [OF arrive.prems, of t "Waiting d" "call_of \<sigma> t" "[]"] arrive inv(6)
      calls_inv_quiet [OF inv(7), of t "call_of \<sigma> t" "Waiting d"]
    by (simp add: inside_def)
next
  case (lock \<sigma> t d)
  note inv = conc_invD [OF lock.prems]
  have "\<not> inside (phase \<sigma> u)" for u using inv(2) lock.hyps(2) by fastforce
  then show ?case
    using lock inv(1,3,5,6) calls_inv_quiet [OF inv(7), of t "call_of \<sigma> t" "Inside d"]
    unfolding conc_inv_def by auto
next
  case (critical \<sigma> t s' p')
  note inv = conc_invD [OF critical.prems]
  note ins = critical_step_inside [OF critical.hyps]
  have mu: "mu \<sigma> = Some t" using inv(2) ins by blast
  have "held grow (call_of \<sigma> t) (after_lins grow s0 h) s' p'"
    using critical_step_held [OF critical.hyps inv(4) [OF mu]] .
  moreover have "calls_inv h (call_of \<sigma>) ((phase \<sigma>)(t := p'))"
    using calls_inv_quiet [OF inv(7), of t "call_of \<sigma> t" p'] ins by (simp add: inside_pending)
  moreover have "p' \<noteq> Waiting d" for d using ins by (auto simp: inside_def)
  ultimately show ?case
    using mu inv(1,2,5,6) unfolding conc_inv_def by simp
next
  case (unlock \<sigma> t r)
  note inv = conc_invD [OF unlock.prems]
  have mu: "mu \<sigma> = Some t" using inv(2) unlock.hyps by (simp add: inside_def)
  show ?case
    using conc_inv_unlock [OF unlock.prems, of t "Returning r" r] unlock.hyps inv(4) [OF mu]
    by (simp add: inside_def)
next
  case (unlock_list \<sigma> t infos)
  note inv = conc_invD [OF unlock_list.prems]
  have mu: "mu \<sigma> = Some t" using inv(2) unlock_list.hyps by (simp add: inside_def)
  obtain pre where pre: "call_of \<sigma> t = OpList pre" "mem \<sigma> = after_lins grow s0 h"
      "mset infos = mset (listed pre (objects (after_lins grow s0 h)))"
    using inv(4) [OF mu] unlock_list.hyps by auto
  show ?case
    using conc_inv_unlock [OF unlock_list.prems, of t "Calling (sort_key Key infos) []"] pre
      unlock_list.hyps ms_op_listed [OF inv(1) pre(3), of grow]
    by (simp add: inside_def)
next
  case (callback \<sigma> t i infos seen)
  note inv = conc_invD [OF callback.prems]
  show ?case
    using conc_inv_outside [OF callback.prems, of t "Calling infos (seen @ [(Key i, Size i)])" "call_of \<sigma> t" "[]"]
      callback inv(6) calls_inv_quiet [OF inv(7), of t "call_of \<sigma> t" "Calling infos (seen @ [(Key i, Size i)])"]
    by (simp add: inside_def seen_of_def)
next
  case (list_end \<sigma> t seen)
  note inv = conc_invD [OF list_end.prems]
  show ?case
    using conc_inv_outside [OF list_end.prems, of t "Returning (Listing seen)" "call_of \<sigma> t" "[]"]
      list_end inv(6) calls_inv_quiet [OF inv(7), of t "call_of \<sigma> t" "Returning (Listing seen)"]
    by (simp add: inside_def seen_of_def)
next
  case (reply \<sigma> t r)
  note inv = conc_invD [OF reply.prems]
  have "calls_inv (h @ [Ret t r]) (call_of \<sigma>) ((phase \<sigma>)(t := Ready))"
    using calls_inv_step [OF inv(7), of "[Ret t r]" t
      "[Inv t (call_of \<sigma> t), Lin t (call_of \<sigma> t) r, Ret t r]" "call_of \<sigma> t" Ready] reply.hyps by simp
  then show ?case
    using conc_inv_outside [OF reply.prems, of t Ready "call_of \<sigma> t" "[Ret t r]"] reply inv(6)
    by (simp add: inside_def)
qed

subsection \<open>Runs\<close>

lemma conc_init_inv: "ms_valid s0 \<Longrightarrow> conc_inv grow s0 [] (conc_init s0)"
  by (simp add: conc_inv_def conc_init_def inside_def calls_inv_def)

lemma conc_run_inv:
  assumes "conc_run grow \<sigma> h' \<tau>" and "conc_inv grow s0 h \<sigma>"
  shows "conc_inv grow s0 (h @ h') \<tau>"
  using assms(1)
proof induction
  case (run_step h' \<tau> es \<tau>')
  then show ?case using conc_inv_step [OF run_step.hyps(2) run_step.IH] by simp
qed (use assms(2) in simp)

lemma calls_inv_ok: "calls_inv h c p \<Longrightarrow> calls_ok (of_thread t h)"
proof -
  assume "calls_inv h c p"
  then obtain es where "complete es" "of_thread t h = es @ pending t (c t) (p t)"
    unfolding calls_inv_def by blast
  moreover have "calls_ok (pending t (c t) (p t))" by (cases "p t") simp_all
  ultimately show ?thesis by (simp add: complete_calls_ok)
qed

lemma conc_linearizable:
  assumes "conc_run grow (conc_init (NewMemoryStore now c)) h \<sigma>"
    and "growing grow" and "sizes_ok Map.empty (map fst (lins h))"
  shows "map snd (lins h) = run_ops spec_op Map.empty (map fst (lins h)) \<and> (\<forall>t. calls_ok (of_thread t h))"
proof -
  have "conc_inv grow (NewMemoryStore now c) h \<sigma>"
    using conc_run_inv [OF assms(1) conc_init_inv] by (simp add: NewMemoryStore_def)
  note inv = conc_invD [OF this]
  show ?thesis
    using inv(6) new_store_refines [OF assms(2,3)] calls_inv_ok [OF inv(7)] by simp
qed

lemma conc_run_trans: "conc_run grow \<tau> h' \<upsilon> \<Longrightarrow> conc_run grow \<sigma> h \<tau> \<Longrightarrow> conc_run grow \<sigma> (h @ h') \<upsilon>"
proof (induction rule: conc_run.induct)
  case (run_step h' \<tau> es \<tau>')
  then show ?case using conc_run.run_step by fastforce
qed simp

lemma conc_run_one: "sys_step grow \<sigma> es \<tau> \<Longrightarrow> conc_run grow \<sigma> es \<tau>"
  using run_step [OF run_refl] by fastforce

subsection \<open>No call is stuck\<close>

text \<open>
  How many more steps the holder of the lock needs to leave it. Every step inside is possible and
  takes one of them away.
\<close>

fun work :: "StoreOp \<Rightarrow> ('c, 't) MemoryStore \<Rightarrow> ('e, 't) Phase \<Rightarrow> nat" where
  "work op s (Inside d) =
     (case op of OpCompose dst ks \<Rightarrow> length ks + 4 | OpList pre \<Rightarrow> length (objects s) + 3 | _ \<Rightarrow> 3)"
| "work op s (Gathering ks out) = length ks + 3"
| "work op s (Collecting entries infos) = length entries + 2"
| "work op s (Leaving r) = 1"
| "work op s (LeavingList infos) = 1"
| "work op s _ = 2"

lemma critical_step_work: "critical_step op s p s' p' \<Longrightarrow> work op s' p' < work op s p"
proof (induction rule: critical_step.induct)
  case (list_start entries s pre d)
  then show ?case using mset_eq_length by fastforce
qed simp_all

lemma critical_step_possible:
  fixes s :: "('a, 'b) MemoryStore"
  assumes "held grow op S s p" and "\<forall>r. p \<noteq> Leaving r" and "\<forall>infos. p \<noteq> LeavingList infos"
  shows "\<exists>s' p'. critical_step op s p s' p'"
proof (cases p)
  case (Inside d)
  obtain t c where now: "Now s (clock s) = (t, c)" by (metis surj_pair)
  have found: "map_of (objects s) k = None \<or> (\<exists>obj. map_of (objects s) k = Some obj)" for k
    by (cases "map_of (objects s) k") simp_all
  show ?thesis
  proof (cases op)
    case (OpGet k)
    then show ?thesis using found [of k] Inside get_missing get_found by blast
  next
    case (OpRange k off n)
    have "len (mo_data obj) \<le> off \<or> off < len (mo_data obj)" for obj :: "'b memObject" by linarith
    then show ?thesis using found [of k] Inside OpRange range_missing range_past range_found by metis
  next
    case (OpDelete k)
    then show ?thesis using Inside delete_missing delete_found by blast
  qed (use Inside put_stamp [OF now] compose_start list_start [OF refl] exists in \<open>blast+\<close>)
next
  case (Copying obj)
  then show ?thesis using assms(1) by (auto intro: critical_step.intros)
next
  case (Gathering ks out)
  obtain t c where now: "Now s (clock s) = (t, c)" by (metis surj_pair)
  show ?thesis unfolding Gathering
  proof (cases ks)
    case (Cons k ks')
    then show "\<exists>s' p'. critical_step op s (Gathering ks out) s' p'"
      by (cases "map_of (objects s) k") (auto intro: critical_step.intros)
  qed (use now assms(1) Gathering in \<open>auto intro: critical_step.intros\<close>)
next
  case (Collecting entries infos)
  then show ?thesis using assms(1) by (cases entries) (auto intro: critical_step.intros)
qed (use assms in \<open>auto intro: critical_step.intros\<close>)

lemma critical_step_outcome: "critical_step op s p s' p' \<Longrightarrow> p' \<noteq> Ready"
  using critical_step_inside by (force simp: inside_def)

text \<open>After the unlocking nothing is waited for.\<close>

lemma finish_returning:
  assumes "phase \<sigma> t = Returning r"
  shows "\<exists>h' \<tau>. conc_run grow \<sigma> h' \<tau> \<and> phase \<tau> t = Ready \<and> mu \<tau> = mu \<sigma>
    \<and> (\<forall>u. u \<noteq> t \<longrightarrow> phase \<tau> u = phase \<sigma> u)"
  using conc_run_one [OF sys_step.reply [OF assms]] by fastforce

lemma finish_calling:
  assumes "phase \<sigma> t = Calling infos seen"
  shows "\<exists>h' \<tau>. conc_run grow \<sigma> h' \<tau> \<and> phase \<tau> t = Ready \<and> mu \<tau> = mu \<sigma>
    \<and> (\<forall>u. u \<noteq> t \<longrightarrow> phase \<tau> u = phase \<sigma> u)"
  using assms
proof (induction infos arbitrary: \<sigma> seen)
  case Nil
  let ?\<sigma> = "\<sigma>\<lparr>phase := (phase \<sigma>)(t := Returning (Listing seen))\<rparr>"
  have "conc_run grow \<sigma> [] ?\<sigma>" using conc_run_one [OF sys_step.list_end [OF Nil]] .
  moreover obtain h' \<tau> where "conc_run grow ?\<sigma> h' \<tau>" "phase \<tau> t = Ready" "mu \<tau> = mu \<sigma>"
    "\<forall>u. u \<noteq> t \<longrightarrow> phase \<tau> u = phase \<sigma> u"
    using finish_returning [of ?\<sigma> t "Listing seen" grow] by auto
  ultimately show ?case using conc_run_trans by blast
next
  case (Cons i infos)
  let ?\<sigma> = "\<sigma>\<lparr>phase := (phase \<sigma>)(t := Calling infos (seen @ [(Key i, Size i)]))\<rparr>"
  have "conc_run grow \<sigma> [] ?\<sigma>" using conc_run_one [OF sys_step.callback [OF Cons.prems]] .
  moreover obtain h' \<tau> where "conc_run grow ?\<sigma> h' \<tau>" "phase \<tau> t = Ready" "mu \<tau> = mu \<sigma>"
    "\<forall>u. u \<noteq> t \<longrightarrow> phase \<tau> u = phase \<sigma> u"
    using Cons.IH [of ?\<sigma>] by auto
  ultimately show ?case using conc_run_trans by blast
qed

lemma finish_inside:
  assumes "conc_inv grow s0 h \<sigma>" and "inside (phase \<sigma> t)"
  shows "\<exists>h' \<tau>. conc_run grow \<sigma> h' \<tau> \<and> phase \<tau> t = Ready \<and> mu \<tau> = None
    \<and> (\<forall>u. u \<noteq> t \<longrightarrow> phase \<tau> u = phase \<sigma> u)"
  using assms
proof (induction "work (call_of \<sigma> t) (mem \<sigma>) (phase \<sigma> t)" arbitrary: h \<sigma> rule: less_induct)
  case less
  note inv = conc_invD [OF less.prems(1)]
  have mu: "mu \<sigma> = Some t" using inv(2) less.prems(2) .
  consider r where "phase \<sigma> t = Leaving r" | infos where "phase \<sigma> t = LeavingList infos"
    | s' p' where "critical_step (call_of \<sigma> t) (mem \<sigma>) (phase \<sigma> t) s' p'"
    using critical_step_possible [OF inv(4) [OF mu]] by blast
  then show ?case
  proof cases
    case (1 r)
    let ?\<sigma> = "\<sigma>\<lparr>mu := None, phase := (phase \<sigma>)(t := Returning r)\<rparr>"
    obtain h' \<tau> where "conc_run grow ?\<sigma> h' \<tau>" "phase \<tau> t = Ready" "mu \<tau> = None"
      "\<forall>u. u \<noteq> t \<longrightarrow> phase \<tau> u = phase \<sigma> u"
      using finish_returning [of ?\<sigma> t r grow] by auto
    then show ?thesis using conc_run_trans [OF _ conc_run_one [OF sys_step.unlock [OF 1]]] by blast
  next
    case (2 infos)
    let ?\<sigma> = "\<sigma>\<lparr>mu := None, phase := (phase \<sigma>)(t := Calling (sort_key Key infos) [])\<rparr>"
    obtain h' \<tau> where "conc_run grow ?\<sigma> h' \<tau>" "phase \<tau> t = Ready" "mu \<tau> = None"
      "\<forall>u. u \<noteq> t \<longrightarrow> phase \<tau> u = phase \<sigma> u"
      using finish_calling [of ?\<sigma> t "sort_key Key infos" "[]" grow] by auto
    then show ?thesis using conc_run_trans [OF _ conc_run_one [OF sys_step.unlock_list [OF 2]]] by blast
  next
    case (3 s' p')
    let ?\<sigma> = "\<sigma>\<lparr>mem := s', phase := (phase \<sigma>)(t := p')\<rparr>"
    note st = sys_step.critical [OF 3, where grow = grow]
    have "conc_inv grow s0 h ?\<sigma>" using conc_inv_step [OF st less.prems(1)] by simp
    then obtain h' \<tau> where "conc_run grow ?\<sigma> h' \<tau>" "phase \<tau> t = Ready" "mu \<tau> = None"
      "\<forall>u. u \<noteq> t \<longrightarrow> phase \<tau> u = phase \<sigma> u"
      using less.hyps [of ?\<sigma> h] critical_step_work [OF 3] critical_step_inside [OF 3] by auto
    then show ?thesis using conc_run_trans [OF _ conc_run_one [OF st]] by blast
  qed
qed

lemma finish_waiting:
  assumes "conc_inv grow s0 h \<sigma>" and "phase \<sigma> t = Waiting d"
  shows "\<exists>h' \<tau>. conc_run grow \<sigma> h' \<tau> \<and> phase \<tau> t = Ready
    \<and> (\<forall>u. u \<noteq> t \<and> mu \<sigma> \<noteq> Some u \<longrightarrow> phase \<tau> u = phase \<sigma> u)"
proof -
  obtain h1 \<sigma>1 where run: "conc_run grow \<sigma> h1 \<sigma>1" and free: "mu \<sigma>1 = None" "phase \<sigma>1 t = Waiting d"
    and others: "\<forall>u. u \<noteq> t \<and> mu \<sigma> \<noteq> Some u \<longrightarrow> phase \<sigma>1 u = phase \<sigma> u"
  proof (cases "mu \<sigma>")
    case None
    then show ?thesis using that [OF run_refl] assms(2) by simp
  next
    case (Some u)
    then have "inside (phase \<sigma> u)" using conc_invD(4) [OF assms(1)] held_inside by blast
    moreover have "u \<noteq> t" using calculation assms(2) by (auto simp: inside_def)
    ultimately show ?thesis using finish_inside [OF assms(1), of u] that assms(2) Some by force
  qed
  let ?\<sigma> = "\<sigma>1\<lparr>mu := Some t, phase := (phase \<sigma>1)(t := Inside d)\<rparr>"
  have st: "sys_step grow \<sigma>1 [] ?\<sigma>" using sys_step.lock [OF free(2,1)] .
  have "conc_inv grow s0 (h @ h1) ?\<sigma>"
    using conc_inv_step [OF st conc_run_inv [OF run assms(1)]] by simp
  then obtain h2 \<tau> where "conc_run grow ?\<sigma> h2 \<tau>" "phase \<tau> t = Ready"
    "\<forall>u. u \<noteq> t \<longrightarrow> phase \<tau> u = phase \<sigma>1 u"
    using finish_inside [of grow s0 "h @ h1" ?\<sigma> t] by (auto simp: inside_def)
  then show ?thesis
    using conc_run_trans [OF _ conc_run_trans [OF conc_run_one [OF st] run]] others by metis
qed

lemma finish_call:
  assumes "conc_inv grow s0 h (\<sigma> :: ('c, 'e, 't) Conc)"
  shows "\<exists>h' \<tau>. conc_run grow \<sigma> h' \<tau> \<and> phase \<tau> t = Ready
    \<and> (\<forall>u. u \<noteq> t \<and> mu \<sigma> \<noteq> Some u \<longrightarrow> phase \<tau> u = phase \<sigma> u)"
proof -
  consider "phase \<sigma> t = Ready" | "phase \<sigma> t = Starting" | d where "phase \<sigma> t = Waiting d"
    | "inside (phase \<sigma> t)" | infos seen where "phase \<sigma> t = Calling infos seen" | r where "phase \<sigma> t = Returning r"
    by (cases "phase \<sigma> t") (auto simp: inside_def)
  then show ?thesis
  proof cases
    case 1
    then show ?thesis using run_refl by blast
  next
    case 2
    show ?thesis
    proof (cases "entry grow (call_of \<sigma> t) :: 'e Reply + string")
      case (Inl r)
      note st = sys_step.guard [OF 2 Inl]
      show ?thesis
        using finish_returning [of "\<sigma>\<lparr>phase := (phase \<sigma>)(t := Returning r)\<rparr>" t r grow]
          conc_run_trans [OF _ conc_run_one [OF st]] by fastforce
    next
      case (Inr d)
      note st = sys_step.arrive [OF 2 Inr]
      show ?thesis
        using finish_waiting [OF conc_inv_step [OF st assms], of t d]
          conc_run_trans [OF _ conc_run_one [OF st]] by fastforce
    qed
  next
    case (3 d)
    then show ?thesis using finish_waiting [OF assms] by blast
  next
    case 4
    then show ?thesis using finish_inside [OF assms] by blast
  next
    case (5 infos seen)
    then show ?thesis using finish_calling by blast
  next
    case (6 r)
    then show ?thesis using finish_returning by blast
  qed
qed

subsection \<open>Properties\<close>

lemma demo_read [simp]: "io_ReadAll double (bytes_read :: (string, nat) reader) ''x'' = Some ((''x'', None), [])"
  by (simp add: go_eval)

lemma demo_tick: "tick 0 = (0, Suc 0)"
  by (simp add: tick_def)

definition demo_conc :: "(nat, nat, nat) Conc" where
  "demo_conc = conc_init (NewMemoryStore tick 0)"

definition demo_history :: "nat Event list" where
  "demo_history = [Inv 0 (OpPut ''a'' ''x''), Inv 1 (OpExists ''a''),
    Lin 0 (OpPut ''a'' ''x'') (Done None), Lin 1 (OpExists ''a'') (Found True)]"

lemma demo_conc_run: "\<exists>\<sigma>. conc_run double demo_conc demo_history \<sigma>"
proof -
  note r = run_refl [of double demo_conc, unfolded demo_conc_def conc_init_def NewMemoryStore_def]
  note r = run_step [OF r sys_step.invoke [where t = 0 and op = "OpPut ''a'' ''x''"], simplified]
  note r = run_step [OF r sys_step.invoke [where t = 1 and op = "OpExists ''a''"], simplified]
  note r = run_step [OF r sys_step.arrive [where t = 0 and d = "''x''"], simplified]
  note r = run_step [OF r sys_step.lock [where t = 0 and d = "''x''"], simplified]
  note r = run_step [OF r sys_step.arrive [where t = 1 and d = "[]"], simplified]
  note r = run_step [OF r sys_step.critical [where t = 0], simplified, OF put_stamp, simplified, OF demo_tick]
  note r = run_step [OF r sys_step.critical [where t = 0], simplified, OF assign, simplified]
  note r = run_step [OF r sys_step.unlock [where t = 0 and r = "Done None"], simplified]
  note r = run_step [OF r sys_step.lock [where t = 1 and d = "[]"], simplified]
  note r = run_step [OF r sys_step.critical [where t = 1], simplified, OF exists, simplified]
  note r = run_step [OF r sys_step.unlock [where t = 1 and r = "Found True"], simplified]
  show ?thesis using r unfolding demo_history_def demo_conc_def conc_init_def NewMemoryStore_def One_nat_def by blast
qed

lemma demo_sizes: "sizes_ok Map.empty (map fst (lins demo_history))"
  by (auto simp: demo_history_def ran_def split: if_splits)

text \<open>
  C20: the store is linearizable. In every interleaving of the steps of concurrent callers on a
  new store, \<open>List\<close> iterating over its map in any order, there is for each call a moment between
  its invocation and its return, and the replies the callers get are those of the map
  specification for the operations in the order of these moments.
\<close>

theorem MemoryStore_linearizable:
  assumes "conc_run grow (conc_init (NewMemoryStore now c)) h \<sigma>"
    and "growing grow" and "sizes_ok Map.empty (map fst (lins h))"
  shows "map snd (lins h) = run_ops spec_op Map.empty (map fst (lins h)) \<and> (\<forall>t. calls_ok (of_thread t h))"
  by (rule conc_linearizable [OF assms])

theorem MemoryStore_linearizable_witness:
  "run_ops spec_op Map.empty [OpPut ''a'' ''x'', OpExists ''a''] = [Done None, Found True :: nat Reply]
    \<and> calls_ok (of_thread 1 demo_history)"
proof -
  obtain \<sigma> where r: "conc_run double (conc_init (NewMemoryStore tick 0)) demo_history (\<sigma> :: (nat, nat, nat) Conc)"
    using demo_conc_run demo_conc_def by auto
  show ?thesis
    using MemoryStore_linearizable [OF r growing_double demo_sizes] by (simp add: demo_history_def)
qed



end
