(* ===== verification/Gcs.thy ===== *)
theory Gcs
  imports Store_Refine
begin

text \<open>
  \<^verbatim>\<open>store/gcs/gcs.go\<close>: the object store over a Google Cloud Storage bucket. The storage
  SDK, seen through the store's client, is the record \<open>Sdk\<close>: its calls act on a state \<open>'w\<close> (the
  service, the network and the caller's context), its errors are of a type \<open>'x\<close> that the code
  only classifies. A reader that a call returns is represented by the bytes it delivers.
\<close>

subsection \<open>The SDK\<close>

text \<open>
  \<open>sdk_NewRangeReader\<close> is the range read with \<open>ReadCompressed(true)\<close>; it returns the recorded size
  of the object and the bytes. \<open>sdk_Close\<close> is told whether the writer's context was canceled.
\<close>

record ('w, 'x, 'wr, 'it, 't) Sdk =
  sdk_NewReader :: "string \<Rightarrow> string \<Rightarrow> 'w \<Rightarrow> ('x + string) \<times> 'w"
  sdk_NewRangeReader :: "string \<Rightarrow> string \<Rightarrow> int \<Rightarrow> int \<Rightarrow> 'w \<Rightarrow> ('x + int \<times> string) \<times> 'w"
  sdk_NewWriter :: "string \<Rightarrow> string \<Rightarrow> 'w \<Rightarrow> 'wr"
  sdk_Write :: "'wr \<Rightarrow> string \<Rightarrow> 'w \<Rightarrow> (int \<times> 'x option) \<times> 'wr \<times> 'w"
  sdk_Close :: "bool \<Rightarrow> 'wr \<Rightarrow> 'w \<Rightarrow> 'x option \<times> 'w"
  sdk_Delete :: "string \<Rightarrow> string \<Rightarrow> 'w \<Rightarrow> 'x option \<times> 'w"
  sdk_Attrs :: "string \<Rightarrow> string \<Rightarrow> 'w \<Rightarrow> 'x option \<times> 'w"
  sdk_Compose :: "string \<Rightarrow> string \<Rightarrow> string list \<Rightarrow> string \<Rightarrow> 'w \<Rightarrow> 'x option \<times> 'w"
  sdk_Objects :: "string \<Rightarrow> string \<Rightarrow> 'w \<Rightarrow> 'it"
  sdk_Next :: "'it \<Rightarrow> 'w \<Rightarrow> ('x + 't ObjectInfo) \<times> 'it \<times> 'w"
  is_ErrObjectNotExist :: "'x \<Rightarrow> bool"
  is_Done :: "'x \<Rightarrow> bool"
  http_Code :: "'x \<Rightarrow> int option"
  io_ErrShortWrite :: 'x
  io_errInvalidWrite :: 'x

subsection \<open>Construction\<close>

record 'c GcsStore =
  gs_client :: "'c option"
  gs_bucket :: string
  gs_ownsClient :: bool

datatype 'x NewError = EmptyBucket | EmptyEndpoint | NewClientFailed 'x

datatype ClientOption = WithEndpoint string | WithoutAuthentication

definition gcs_New ::
  "(ClientOption list \<Rightarrow> 'w \<Rightarrow> ('x + 'c) \<times> 'w) \<Rightarrow> string \<Rightarrow> ClientOption list \<Rightarrow> 'w \<Rightarrow>
   ('x NewError + 'c GcsStore) \<times> 'w" where
  "gcs_New newClient bucket opts w =
     (if bucket = [] then (Inl EmptyBucket, w)
      else case newClient opts w of
        (Inl err, w') \<Rightarrow> (Inl (NewClientFailed err), w')
      | (Inr client, w') \<Rightarrow>
          (Inr \<lparr>gs_client = Some client, gs_bucket = bucket, gs_ownsClient = True\<rparr>, w'))"

definition gcs_NewEmulator ::
  "(ClientOption list \<Rightarrow> 'w \<Rightarrow> ('x + 'c) \<times> 'w) \<Rightarrow> string \<Rightarrow> string \<Rightarrow> 'w \<Rightarrow>
   ('x NewError + 'c GcsStore) \<times> 'w" where
  "gcs_NewEmulator newClient bucket endpoint w =
     (if endpoint = [] then (Inl EmptyEndpoint, w)
      else gcs_New newClient bucket [WithEndpoint endpoint, WithoutAuthentication] w)"

text \<open>\<open>None\<close> is the panic.\<close>

definition gcs_NewWithClient :: "string \<Rightarrow> 'c option \<Rightarrow> 'c GcsStore option" where
  "gcs_NewWithClient bucket client =
     (if bucket = [] \<or> client = None then None
      else Some \<lparr>gs_client = client, gs_bucket = bucket, gs_ownsClient = False\<rparr>)"

definition gcs_Close ::
  "('c \<Rightarrow> 'w \<Rightarrow> 'x option \<times> 'w) \<Rightarrow> 'c GcsStore \<Rightarrow> 'w \<Rightarrow> 'x option \<times> 'w" where
  "gcs_Close closeClient s w =
     (case gs_client s of
        None \<Rightarrow> (None, w)
      | Some client \<Rightarrow> if \<not> gs_ownsClient s then (None, w) else closeClient client w)"

subsection \<open>Operations\<close>

definition gcs_Get ::
  "('w, 'x, 'wr, 'it, 't) Sdk \<Rightarrow> 'c GcsStore \<Rightarrow> string \<Rightarrow> 'w \<Rightarrow> ('x StoreError + string) \<times> 'w" where
  "gcs_Get K s key w =
     (case sdk_NewReader K (gs_bucket s) key w of
        (Inl err, w') \<Rightarrow>
          (Inl (if is_ErrObjectNotExist K err then ErrObjectNotFound
                else Wrapped key (OtherError err)), w')
      | (Inr rc, w') \<Rightarrow> (Inr rc, w'))"

definition MaxInt64 :: int where "MaxInt64 = 2 ^ 63 - 1"

definition gcs_GetRange ::
  "('w, 'x, 'wr, 'it, 't) Sdk \<Rightarrow> 'c GcsStore \<Rightarrow> string \<Rightarrow> int \<Rightarrow> int \<Rightarrow> 'w \<Rightarrow>
   ('x StoreError + string) \<times> 'w" where
  "gcs_GetRange K s key offset length' w =
     (if offset < 0 then (Inl (NegativeOffset key offset), w)
      else let n = (if MaxInt64 - offset < length' then - 1 else length') in
        case sdk_NewRangeReader K (gs_bucket s) key offset n w of
          (Inl err, w') \<Rightarrow>
            (Inl (if is_ErrObjectNotExist K err then ErrObjectNotFound
                  else if http_Code K err = Some 416 then ErrRangeNotSatisfiable
                  else Wrapped key (OtherError err)), w')
        | (Inr (sz, rc), w') \<Rightarrow>
            if sz \<le> offset then (Inl ErrRangeNotSatisfiable, w') else (Inr rc, w'))"

text \<open>
  \<open>io.Copy\<close> into the writer, in pieces of 32 KiB: what is read is written before the status of the
  read is looked at. (A reader that brings its own \<open>WriteTo\<close> writes the same bytes in other pieces.)
\<close>

definition copy_write ::
  "('w, 'x, 'wr, 'it, 't) Sdk \<Rightarrow> 'wr \<Rightarrow> string \<Rightarrow> 'w \<Rightarrow> 'x option \<times> 'wr \<times> 'w" where
  "copy_write K wr buf w =
     (if buf = [] then (None, wr, w)
      else case sdk_Write K wr buf w of ((nw, ew), wr', w') \<Rightarrow>
        (case ew of
           Some e \<Rightarrow> Some e
         | None \<Rightarrow> if nw < 0 \<or> len buf < nw then Some (io_errInvalidWrite K)
                   else if len buf \<noteq> nw then Some (io_ErrShortWrite K) else None, wr', w'))"

partial_function (option) copy_to ::
  "('w, 'x, 'wr, 'it, 't) Sdk \<Rightarrow> ('r, 'x) reader \<Rightarrow> 'wr \<Rightarrow> 'r \<Rightarrow> 'w \<Rightarrow> ('x option \<times> 'wr \<times> 'w) option"
  where
  "copy_to K rd wr r w =
     do { x \<leftarrow> rd 32768 r;
          (case copy_write K wr (fst (fst x)) w of
             (Some e, wr', w') \<Rightarrow> Some (Some e, wr', w')
           | (None, wr', w') \<Rightarrow> (case snd (fst x) of
               EOF \<Rightarrow> Some (None, wr', w')
             | Failed e \<Rightarrow> Some (Some e, wr', w')
             | More \<Rightarrow> copy_to K rd wr' (snd x) w')) }"

declare copy_write_def [go_eval] copy_to.simps [code, go_eval]

definition gcs_Put ::
  "('w, 'x, 'wr, 'it, 't) Sdk \<Rightarrow> 'c GcsStore \<Rightarrow> string \<Rightarrow> ('r, 'x) reader \<Rightarrow> 'r \<Rightarrow> 'w \<Rightarrow>
   ('x StoreError option \<times> 'w) option" where
  "gcs_Put K s key rd r w =
     do { c \<leftarrow> copy_to K rd (sdk_NewWriter K (gs_bucket s) key w) r w;
          Some (case c of
                  (Some err, wr, w') \<Rightarrow>
                    (Some (Wrapped key (OtherError err)), snd (sdk_Close K True wr w'))
                | (None, wr, w') \<Rightarrow>
                    (case sdk_Close K False wr w' of
                       (Some err, w'') \<Rightarrow> (Some (Wrapped key (OtherError err)), w'')
                     | (None, w'') \<Rightarrow> (None, w''))) }"

definition gcs_Delete ::
  "('w, 'x, 'wr, 'it, 't) Sdk \<Rightarrow> 'c GcsStore \<Rightarrow> 'w \<Rightarrow> string \<Rightarrow> 'x StoreError option \<times> 'w" where
  "gcs_Delete K s w key =
     (case sdk_Delete K (gs_bucket s) key w of
        (Some err, w') \<Rightarrow>
          (Some (if is_ErrObjectNotExist K err then ErrObjectNotFound
                 else Wrapped key (OtherError err)), w')
      | (None, w') \<Rightarrow> (None, w'))"

definition gcs_Exists ::
  "('w, 'x, 'wr, 'it, 't) Sdk \<Rightarrow> 'c GcsStore \<Rightarrow> string \<Rightarrow> 'w \<Rightarrow> ('x StoreError + bool) \<times> 'w" where
  "gcs_Exists K s key w =
     (case sdk_Attrs K (gs_bucket s) key w of
        (Some err, w') \<Rightarrow>
          (if is_ErrObjectNotExist K err then Inr False else Inl (Wrapped key (OtherError err)), w')
      | (None, w') \<Rightarrow> (Inr True, w'))"

definition gcs_Compose ::
  "('w, 'x, 'wr, 'it, 't) Sdk \<Rightarrow> 'c GcsStore \<Rightarrow> string \<Rightarrow> string list \<Rightarrow> string \<Rightarrow> 'w \<Rightarrow>
   'x StoreError option \<times> 'w" where
  "gcs_Compose K s dst srcs contentType w =
     (if length srcs = 0 \<or> MaxComposeSources < length srcs
      then (Some (ComposeCount dst (length srcs)), w)
      else case sdk_Compose K (gs_bucket s) dst srcs contentType w of
        (Some err, w') \<Rightarrow>
          (Some (if is_ErrObjectNotExist K err then ErrObjectNotFound
                 else if http_Code K err = Some 404 then ErrObjectNotFound
                 else Wrapped dst (OtherError err)), w')
      | (None, w') \<Rightarrow> (None, w'))"

text \<open>The callback's first error (\<open>Inr\<close>) ends the listing and is returned unchanged.\<close>

partial_function (option) gcs_list_loop ::
  "('w, 'x, 'wr, 'it, 't) Sdk \<Rightarrow> string \<Rightarrow> ('t ObjectInfo \<Rightarrow> 'u \<Rightarrow> 'f option \<times> 'u) \<Rightarrow> 'it \<Rightarrow> 'u \<Rightarrow> 'w \<Rightarrow>
   (('x StoreError + 'f) option \<times> 'u \<times> 'w) option" where
  "gcs_list_loop K pre fn it u w =
     (case sdk_Next K it w of
        (Inl err, it', w') \<Rightarrow>
          (if is_Done K err then Some (None, u, w')
           else Some (Some (Inl (Wrapped pre (OtherError err))), u, w'))
      | (Inr info, it', w') \<Rightarrow>
          (case fn info u of
             (Some ferr, u') \<Rightarrow> Some (Some (Inr ferr), u', w')
           | (None, u') \<Rightarrow> gcs_list_loop K pre fn it' u' w'))"

declare gcs_list_loop.simps [code, go_eval]

definition gcs_List ::
  "('w, 'x, 'wr, 'it, 't) Sdk \<Rightarrow> 'c GcsStore \<Rightarrow> string \<Rightarrow> ('t ObjectInfo \<Rightarrow> 'u \<Rightarrow> 'f option \<times> 'u) \<Rightarrow>
   'u \<Rightarrow> 'w \<Rightarrow> (('x StoreError + 'f) option \<times> 'u \<times> 'w) option" where
  "gcs_List K s pre fn u w = gcs_list_loop K pre fn (sdk_Objects K (gs_bucket s) pre w) u w"

declare gcs_New_def [go_eval] gcs_NewEmulator_def [go_eval] gcs_NewWithClient_def [go_eval]
  gcs_Close_def [go_eval] gcs_Get_def [go_eval] MaxInt64_def [go_eval] gcs_GetRange_def [go_eval]
  gcs_Put_def [go_eval] gcs_Delete_def [go_eval] gcs_Exists_def [go_eval] gcs_Compose_def [go_eval]
  gcs_List_def [go_eval]

end
