(* ===== verification/Gcs_Correct.thy ===== *)
theory Gcs_Correct
  imports Gcs
begin

text \<open>
  The GCS adapter against the documented behaviour of the service: it refines the same
  specification as the in-memory store, an upload commits all of its source or nothing, and only
  a missing object is reported as missing.
\<close>

subsection \<open>The documented behaviour of the service\<close>

text \<open>
  \<open>contents w\<close> is the content of the bucket \<open>b\<close>, \<open>written\<close> the object name and the bytes a writer has
  buffered, \<open>pending\<close> what an iterator will still deliver. A read at or past the end of an object
  is refused with 416 or answered with nothing.
\<close>

definition serves_get :: "('w, 'x, 'wr, 'it, 't) Sdk \<Rightarrow> string \<Rightarrow> ('w \<Rightarrow> Spec) \<Rightarrow> bool" where
  "serves_get K b contents \<longleftrightarrow>
     (\<forall>k w. \<exists>w'. contents w' = contents w \<and> (case contents w k of
        None \<Rightarrow> \<exists>x. is_ErrObjectNotExist K x \<and> sdk_NewReader K b k w = (Inl x, w')
      | Some d \<Rightarrow> sdk_NewReader K b k w = (Inr d, w')))"

definition serves_range :: "('w, 'x, 'wr, 'it, 't) Sdk \<Rightarrow> string \<Rightarrow> ('w \<Rightarrow> Spec) \<Rightarrow> bool" where
  "serves_range K b contents \<longleftrightarrow>
     (\<forall>k w off n. 0 \<le> off \<longrightarrow> n < 0 \<or> off + n < 2 ^ 63 \<longrightarrow>
        (\<exists>w'. contents w' = contents w \<and> (case contents w k of
           None \<Rightarrow> \<exists>x. is_ErrObjectNotExist K x \<and> sdk_NewRangeReader K b k off n w = (Inl x, w')
         | Some d \<Rightarrow>
             if len d \<le> off
             then (\<exists>x. \<not> is_ErrObjectNotExist K x \<and> http_Code K x = Some 416
                     \<and> sdk_NewRangeReader K b k off n w = (Inl x, w'))
               \<or> sdk_NewRangeReader K b k off n w = (Inr (len d, []), w')
             else sdk_NewRangeReader K b k off n w =
               (Inr (len d, if n < 0 then drop (nat off) d else take (nat n) (drop (nat off) d)), w'))))"

text \<open>
  Uploads: a writer buffers what it accepts; closing it commits the buffer under its name, unless
  its context was canceled. Either may fail, and then nothing is committed.
\<close>

definition uploads ::
  "('w, 'x, 'wr, 'it, 't) Sdk \<Rightarrow> string \<Rightarrow> ('w \<Rightarrow> Spec) \<Rightarrow> ('wr \<Rightarrow> string \<times> string) \<Rightarrow> bool" where
  "uploads K b contents written \<longleftrightarrow>
     (\<forall>k w. written (sdk_NewWriter K b k w) = (k, []))
     \<and> (\<forall>wr p w n ew wr' w'. sdk_Write K wr p w = ((n, ew), wr', w') \<longrightarrow>
          contents w' = contents w \<and> (ew = None \<longrightarrow> n = len p \<and> written wr' = (fst (written wr), snd (written wr) @ p)))
     \<and> (\<forall>wr w x w'. sdk_Close K False wr w = (x, w') \<longrightarrow>
          contents w' = (if x = None then (contents w)(fst (written wr) \<mapsto> snd (written wr)) else contents w))
     \<and> (\<forall>wr w. contents (snd (sdk_Close K True wr w)) = contents w)"

definition uploads_reliably :: "('w, 'x, 'wr, 'it, 't) Sdk \<Rightarrow> bool" where
  "uploads_reliably K \<longleftrightarrow> (\<forall>wr p w. snd (fst (sdk_Write K wr p w)) = None)
     \<and> (\<forall>wr w. fst (sdk_Close K False wr w) = None)"

definition serves_objects :: "('w, 'x, 'wr, 'it, 't) Sdk \<Rightarrow> string \<Rightarrow> ('w \<Rightarrow> Spec) \<Rightarrow> bool" where
  "serves_objects K b contents \<longleftrightarrow>
     (\<forall>k w. \<exists>w'. if contents w k = None
        then contents w' = contents w \<and> (\<exists>x. is_ErrObjectNotExist K x \<and> sdk_Delete K b k w = (Some x, w'))
        else contents w' = (contents w)(k := None) \<and> sdk_Delete K b k w = (None, w'))
     \<and> (\<forall>k w. \<exists>w'. contents w' = contents w \<and>
         (if contents w k = None then \<exists>x. is_ErrObjectNotExist K x \<and> sdk_Attrs K b k w = (Some x, w')
          else sdk_Attrs K b k w = (None, w')))"

definition composes :: "('w, 'x, 'wr, 'it, 't) Sdk \<Rightarrow> string \<Rightarrow> ('w \<Rightarrow> Spec) \<Rightarrow> bool" where
  "composes K b contents \<longleftrightarrow>
     (\<forall>dst ks ct w. ks \<noteq> [] \<longrightarrow> length ks \<le> 32 \<longrightarrow>
        (\<exists>w'. if \<exists>k \<in> set ks. contents w k = None
           then contents w' = contents w \<and> (\<exists>x. (is_ErrObjectNotExist K x \<or> http_Code K x = Some 404)
                  \<and> sdk_Compose K b dst ks ct w = (Some x, w'))
           else contents w' = (contents w)(dst \<mapsto> concat (map (\<lambda>k. the (contents w k)) ks))
             \<and> sdk_Compose K b dst ks ct w = (None, w')))"

definition lists ::
  "('w, 'x, 'wr, 'it, 't) Sdk \<Rightarrow> string \<Rightarrow> ('w \<Rightarrow> Spec) \<Rightarrow> ('it \<Rightarrow> 't ObjectInfo list) \<Rightarrow> bool" where
  "lists K b contents pending \<longleftrightarrow>
     (\<forall>pre w. map (\<lambda>i. (Key i, Size i)) (pending (sdk_Objects K b pre w)) =
        map (\<lambda>k. (k, len (the (contents w k)))) (sorted_list_of_set {k \<in> dom (contents w). prefix pre k}))
     \<and> (\<forall>it w. \<exists>it' w'. contents w' = contents w \<and> (case pending it of
          [] \<Rightarrow> \<exists>x. is_Done K x \<and> sdk_Next K it w = (Inl x, it', w')
        | i # is' \<Rightarrow> sdk_Next K it w = (Inr i, it', w') \<and> pending it' = is'))"

definition serves ::
  "('w, 'x, 'wr, 'it, 't) Sdk \<Rightarrow> string \<Rightarrow> ('w \<Rightarrow> Spec) \<Rightarrow> ('wr \<Rightarrow> string \<times> string) \<Rightarrow>
   ('it \<Rightarrow> 't ObjectInfo list) \<Rightarrow> bool" where
  "serves K b contents written pending \<longleftrightarrow> serves_get K b contents \<and> serves_range K b contents
     \<and> uploads K b contents written \<and> uploads_reliably K \<and> serves_objects K b contents \<and> composes K b contents
     \<and> lists K b contents pending"

subsection \<open>Uploads\<close>

lemma copy_write_ok:
  assumes "uploads K b contents written" and "copy_write K wr c w = (err, wr', w')"
  shows "contents w' = contents w \<and> (err = None \<longrightarrow> written wr' = (fst (written wr), snd (written wr) @ c))"
proof (cases "c = []")
  case True
  then show ?thesis using assms(2) by (simp add: copy_write_def)
next
  case False
  obtain n ew wr1 w1 where s: "sdk_Write K wr c w = ((n, ew), wr1, w1)" by (metis prod.collapse)
  then have "contents w1 = contents w"
    "ew = None \<longrightarrow> n = len c \<and> written wr1 = (fst (written wr), snd (written wr) @ c)"
    using assms(1) unfolding uploads_def by blast+
  then show ?thesis using assms(2) False s by (auto simp: copy_write_def split: option.splits if_splits)
qed

lemma copy_write_reliable:
  assumes "uploads K b contents written" and "uploads_reliably K"
  shows "\<exists>wr' w'. copy_write K wr c w = (None, wr', w')"
proof (cases "c = []")
  case False
  obtain n ew wr1 w1 where s: "sdk_Write K wr c w = ((n, ew), wr1, w1)" by (metis prod.collapse)
  then have e: "ew = None" using assms(2) unfolding uploads_reliably_def by (metis fst_conv snd_conv)
  then have "n = len c" using assms(1) s unfolding uploads_def by blast
  then show ?thesis using False s e by (simp add: copy_write_def)
qed (simp add: copy_write_def)

lemma copy_to_commits:
  fixes K :: "('w, 'x, 'wr, 'it, 't) Sdk" and rd :: "('r, 'x) reader"
  assumes "stream rd rest" and up: "uploads K b contents written"
    and "copy_to K rd wr r w = Some (err, wr', w')"
  shows "contents w' = contents w \<and> (err = None \<longrightarrow>
    written wr' = (fst (written wr), snd (written wr) @ rest r))"
proof -
  let ?P = "\<lambda>(K' :: ('w, 'x, 'wr, 'it, 't) Sdk) (rd' :: ('r, 'x) reader) wr r w
      (y :: 'x option \<times> 'wr \<times> 'w).
    K' = K \<longrightarrow> rd' = rd \<longrightarrow> contents (snd (snd y)) = contents w \<and> (fst y = None \<longrightarrow>
      written (fst (snd y)) = (fst (written wr), snd (written wr) @ rest r))"
  have "?P K rd wr r w (err, wr', w')"
  proof (rule copy_to.raw_induct [where P = ?P, OF _ assms(3)])
    fix loop K' rd' wr r w y
    assume IH: "\<And>K' rd' wr r w y. loop K' rd' wr r w = Some y \<Longrightarrow> ?P K' rd' wr r w y"
      and eq: "do { x \<leftarrow> rd' 32768 r;
          (case copy_write K' wr (fst (fst x)) w of
             (Some e, wr', w') \<Rightarrow> Some (Some e, wr', w')
           | (None, wr', w') \<Rightarrow> (case snd (fst x) of
               EOF \<Rightarrow> Some (None, wr', w')
             | Failed e \<Rightarrow> Some (Some e, wr', w')
             | More \<Rightarrow> loop K' rd' wr' (snd x) w')) } = Some y"
    obtain c st r1 where x: "rd' 32768 r = Some ((c, st), r1)"
      using eq by (cases "rd' 32768 r") auto
    obtain ew wr1 w1 where wr1: "copy_write K' wr c w = (ew, wr1, w1)" by (metis prod.collapse)
    show "?P K' rd' wr r w y"
    proof (intro impI)
      assume K: "K' = K" and rd: "rd' = rd"
      have rest: "\<forall>e. st \<noteq> Failed e \<Longrightarrow> rest r = c @ rest r1" "st = EOF \<Longrightarrow> rest r1 = []"
        using stream.read_prefix [OF assms(1)] stream.read_end [OF assms(1)] x rd by blast+
      note step = copy_write_ok [OF up wr1 [unfolded K]]
      show "contents (snd (snd y)) = contents w \<and> (fst y = None \<longrightarrow>
          written (fst (snd y)) = (fst (written wr), snd (written wr) @ rest r))"
      proof (cases ew)
        case (Some e)
        then show ?thesis using eq x wr1 step by auto
      next
        case None
        show ?thesis
        proof (cases st)
          case More
          then have "loop K' rd' wr1 r1 w1 = Some y" using eq x wr1 None by simp
          then show ?thesis using IH [of K' rd' wr1 r1 w1 y] K rd step None rest(1) More by auto
        qed (use eq x wr1 None step rest in auto)
      qed
    qed
  qed
  then show ?thesis by simp
qed

lemma copy_to_returns:
  assumes "source rd rest" and "uploads K b contents written" and "uploads_reliably K"
  shows "\<exists>wr' w'. copy_to K rd wr r w = Some (None, wr', w')"
proof (induction "length (rest r)" arbitrary: wr r w rule: less_induct)
  case less
  note stream = source.axioms(1) [OF assms(1)]
  obtain c st r1 where x: "rd 32768 r = Some ((c, st), r1)"
    using source.read_returns [OF assms(1)] by (metis prod.collapse)
  obtain wr1 w1 where wr1: "copy_write K wr c w = (None, wr1, w1)"
    using copy_write_reliable [OF assms(2,3)] by blast
  show ?case
  proof (cases st)
    case More
    have "rest r = c @ rest r1" using stream.read_prefix [OF stream x] More by simp
    moreover have "c \<noteq> []" using source.read_progress [OF assms(1), of 32768 r c r1] x More by simp
    ultimately have "length (rest r1) < length (rest r)" by simp
    from less.hyps [OF this, of wr1 w1] show ?thesis
      using x wr1 More by (subst copy_to.simps) simp
  next
    case EOF
    then show ?thesis using x wr1 by (subst copy_to.simps) simp
  next
    case (Failed e)
    then show ?thesis using source.read_no_error [OF assms(1)] x by blast
  qed
qed


subsection \<open>Refinement of the specification\<close>

text \<open>The operations on the specification's terms; a listing collects keys and sizes.\<close>

fun gcs_op ::
  "('w, 'x, 'wr, 'it, 't) Sdk \<Rightarrow> 'c GcsStore \<Rightarrow> 'w \<Rightarrow> StoreOp \<Rightarrow> 'x Reply \<times> 'w" where
  "gcs_op K s w (OpPut k b) =
     (case gcs_Put K s k bytes_read b w of None \<Rightarrow> (Panicked, w) | Some (r, w') \<Rightarrow> (Done r, w'))"
| "gcs_op K s w (OpGet k) = (case gcs_Get K s k w of (r, w') \<Rightarrow> (Data r, w'))"
| "gcs_op K s w (OpRange k off n) = (case gcs_GetRange K s k off n w of (r, w') \<Rightarrow> (Data r, w'))"
| "gcs_op K s w (OpCompose dst ks) = (case gcs_Compose K s dst ks [] w of (r, w') \<Rightarrow> (Done r, w'))"
| "gcs_op K s w (OpList pre) =
     (case gcs_List K s pre (\<lambda>i u. (None :: unit option, u @ [(Key i, Size i)])) [] w of
        None \<Rightarrow> (Panicked, w)
      | Some (None, u, w') \<Rightarrow> (Listing u, w')
      | Some (Some _, u, w') \<Rightarrow> (Panicked, w'))"
| "gcs_op K s w (OpDelete k) = (case gcs_Delete K s w k of (r, w') \<Rightarrow> (Done r, w'))"
| "gcs_op K s w (OpExists k) =
     (case gcs_Exists K s k w of (Inr b, w') \<Rightarrow> (Found b, w') | (Inl e, w') \<Rightarrow> (Data (Inl e), w'))"

lemma gcs_Get_spec:
  assumes "serves_get K (gs_bucket s) contents"
  shows "\<exists>w'. contents w' = contents w \<and> gcs_Get K s k w =
    (case contents w k of None \<Rightarrow> Inl ErrObjectNotFound | Some b \<Rightarrow> Inr b, w')"
  using assms [unfolded serves_get_def, rule_format, of w k]
  by (cases "contents w k") (auto simp: gcs_Get_def)

lemma gcs_GetRange_spec:
  assumes "serves_range K (gs_bucket s) contents" and "int64_sizes (contents w)"
  shows "\<exists>w'. contents w' = contents w \<and> gcs_GetRange K s k off n w =
    (if off < 0 then Inl (NegativeOffset k off)
     else case contents w k of None \<Rightarrow> Inl ErrObjectNotFound
       | Some b \<Rightarrow> if len b \<le> off then Inl ErrRangeNotSatisfiable
           else Inr (if n < 0 then drop (nat off) b else take (nat n) (drop (nat off) b)), w')"
proof (cases "off < 0")
  case False
  define m where "m = (if MaxInt64 - off < n then - 1 else n)"
  have range: "m < 0 \<or> off + m < 2 ^ 63" using False by (auto simp: m_def MaxInt64_def)
  obtain w' where w': "contents w' = contents w" and call: "case contents w k of
      None \<Rightarrow> \<exists>x. is_ErrObjectNotExist K x \<and> sdk_NewRangeReader K (gs_bucket s) k off m w = (Inl x, w')
    | Some d \<Rightarrow>
        if len d \<le> off
        then (\<exists>x. \<not> is_ErrObjectNotExist K x \<and> http_Code K x = Some 416
                \<and> sdk_NewRangeReader K (gs_bucket s) k off m w = (Inl x, w'))
          \<or> sdk_NewRangeReader K (gs_bucket s) k off m w = (Inr (len d, []), w')
        else sdk_NewRangeReader K (gs_bucket s) k off m w =
          (Inr (len d, if m < 0 then drop (nat off) d else take (nat m) (drop (nat off) d)), w')"
    using assms(1) [unfolded serves_range_def, rule_format, of off m w k] False range by auto
  show ?thesis
  proof (cases "contents w k")
    case None
    then show ?thesis using call w' False by (auto simp: gcs_GetRange_def m_def [symmetric])
  next
    case (Some d)
    have "len d < 2 ^ 63" using assms(2) Some by (auto simp: ran_def)
    then have "(if m < 0 then drop (nat off) d else take (nat m) (drop (nat off) d)) =
        (if n < 0 then drop (nat off) d else take (nat n) (drop (nat off) d))"
      using False by (auto simp: m_def MaxInt64_def)
    then show ?thesis
      using call w' False Some by (auto simp: gcs_GetRange_def m_def [symmetric] split: if_splits)
  qed
qed (auto simp: gcs_GetRange_def)

lemma gcs_Put_spec:
  assumes "source rd rest" and "uploads K (gs_bucket s) contents written" and "uploads_reliably K"
  shows "\<exists>w'. contents w' = (contents w)(k \<mapsto> rest r) \<and> gcs_Put K s k rd r w = Some (None, w')"
proof -
  obtain wr w1 where c: "copy_to K rd (sdk_NewWriter K (gs_bucket s) k w) r w = Some (None, wr, w1)"
    using copy_to_returns [OF assms] by blast
  obtain w2 where close: "sdk_Close K False wr w1 = (None, w2)"
    using assms(3) unfolding uploads_reliably_def by (metis prod.collapse)
  have put: "gcs_Put K s k rd r w = Some (None, w2)" using c close by (simp add: gcs_Put_def)
  have "contents w1 = contents w" "written wr = (k, rest r)"
    using copy_to_commits [OF source.axioms(1) [OF assms(1)] assms(2) c] assms(2)
    by (auto simp: uploads_def)
  moreover have "contents w2 = (contents w1)(fst (written wr) \<mapsto> snd (written wr))"
    using assms(2) close unfolding uploads_def by auto
  ultimately show ?thesis using put by auto
qed

lemma gcs_list_collects:
  assumes "lists K b contents pending"
  shows "\<exists>w'. contents w' = contents w \<and>
    gcs_list_loop K pre (\<lambda>i u. (None :: unit option, u @ [(Key i, Size i)])) it u w =
      Some (None, u @ map (\<lambda>i. (Key i, Size i)) (pending it), w')"
proof (induction "pending it" arbitrary: it u w)
  case Nil
  obtain it' w' x where "contents w' = contents w" "is_Done K x" "sdk_Next K it w = (Inl x, it', w')"
    using assms [unfolded lists_def, THEN conjunct2, rule_format, of w it] Nil by auto
  then show ?case using Nil by (subst gcs_list_loop.simps) auto
next
  case (Cons i is')
  obtain it' w' where n: "contents w' = contents w" "sdk_Next K it w = (Inr i, it', w')" "is' = pending it'"
    using assms [unfolded lists_def, THEN conjunct2, rule_format, of w it] Cons(2) [symmetric] by auto
  show ?case
    using Cons(1) [OF n(3), of w' "u @ [(Key i, Size i)]"] n Cons(2) [symmetric]
    by (subst gcs_list_loop.simps) auto
qed

lemma gcs_op_simulates:
  assumes "serves K (gs_bucket s) contents written pending"
  shows "simulates (gcs_op K s) contents (\<lambda>_. True)"
  unfolding simulates_def
proof (intro allI impI conjI TrueI)
  fix w op assume sizes: "int64_sizes (contents w)"
  note parts = assms [unfolded serves_def]
  show "(fst (gcs_op K s w op), contents (snd (gcs_op K s w op))) = spec_op (contents w) op"
  proof (cases op)
    case (OpPut k d)
    then show ?thesis
      using gcs_Put_spec [OF bytes.source_axioms, of K s contents written w k d] parts by auto
  next
    case (OpGet k)
    then show ?thesis using gcs_Get_spec [of K s contents w k] parts by auto
  next
    case (OpRange k off n)
    then show ?thesis using gcs_GetRange_spec [of K s contents w k off n] sizes parts by auto
  next
    case (OpCompose dst ks)
    show ?thesis
    proof (cases "ks = [] \<or> 32 < length ks")
      case False
      then have "ks \<noteq> []" "length ks \<le> 32" by auto
      moreover have "composes K (gs_bucket s) contents" using parts by blast
      ultimately obtain w' where "if \<exists>k \<in> set ks. contents w k = None
           then contents w' = contents w \<and> (\<exists>x. (is_ErrObjectNotExist K x \<or> http_Code K x = Some 404)
                  \<and> sdk_Compose K (gs_bucket s) dst ks [] w = (Some x, w'))
           else contents w' = (contents w)(dst \<mapsto> concat (map (\<lambda>k. the (contents w k)) ks))
             \<and> sdk_Compose K (gs_bucket s) dst ks [] w = (None, w')"
        unfolding composes_def by blast
      then show ?thesis
        using OpCompose False
        by (cases "\<exists>k \<in> set ks. contents w k = None")
          (auto simp: gcs_Compose_def MaxComposeSources_def)
    qed (use OpCompose in \<open>auto simp: gcs_Compose_def MaxComposeSources_def\<close>)
  next
    case (OpList pre)
    then show ?thesis
      using gcs_list_collects [of K "gs_bucket s" contents pending w pre "sdk_Objects K (gs_bucket s) pre w" "[]"]
        parts by (auto simp: gcs_List_def lists_def)
  next
    case (OpDelete k)
    then show ?thesis
      using parts [THEN conjunct2, THEN conjunct2, THEN conjunct2, THEN conjunct2, THEN conjunct1,
          unfolded serves_objects_def, THEN conjunct1, rule_format, of w k]
      by (cases "contents w k") (auto simp: gcs_Delete_def)
  next
    case (OpExists k)
    then show ?thesis
      using parts [THEN conjunct2, THEN conjunct2, THEN conjunct2, THEN conjunct2, THEN conjunct1,
          unfolded serves_objects_def, THEN conjunct2, rule_format, of w k]
      by (cases "contents w k") (auto simp: gcs_Exists_def)
  qed
qed



end
