(* ===== verification/Gcs_Examples.thy ===== *)
theory Gcs_Examples
  imports Gcs_Correct
begin

text \<open>
  A service that behaves as documented, with the bucket's content as its state; errors are their
  HTTP codes, 1 the end of a listing, 499 a canceled upload. A source that breaks off half-way
  shows that an upload can fail.
\<close>

definition demo_sdk :: "(Spec, nat, string \<times> string, unit ObjectInfo list, unit) Sdk" where
  "demo_sdk = \<lparr>
     sdk_NewReader = (\<lambda>b k w. (case w k of None \<Rightarrow> Inl 404 | Some d \<Rightarrow> Inr d, w)),
     sdk_NewRangeReader = (\<lambda>b k off n w. (case w k of
         None \<Rightarrow> Inl 404
       | Some d \<Rightarrow> if len d \<le> off then Inl 416
           else Inr (len d, if n < 0 then drop (nat off) d else take (nat n) (drop (nat off) d)), w)),
     sdk_NewWriter = (\<lambda>b k w. (k, [])),
     sdk_Write = (\<lambda>wr p w. ((len p, None), (fst wr, snd wr @ p), w)),
     sdk_Close = (\<lambda>c wr w. if c then (Some 499, w) else (None, w(fst wr \<mapsto> snd wr))),
     sdk_Delete = (\<lambda>b k w. if w k = None then (Some 404, w) else (None, w(k := None))),
     sdk_Attrs = (\<lambda>b k w. (if w k = None then Some 404 else None, w)),
     sdk_Compose = (\<lambda>b dst ks ct w. if \<exists>k \<in> set ks. w k = None then (Some 404, w)
       else (None, w(dst \<mapsto> concat (map (\<lambda>k. the (w k)) ks)))),
     sdk_Objects = (\<lambda>b pre w. map (\<lambda>k. \<lparr>Key = k, Size = len (the (w k)), Created = ()\<rparr>)
       (sorted_list_of_set {k \<in> dom w. prefix pre k})),
     sdk_Next = (\<lambda>it w. case it of [] \<Rightarrow> (Inl 1, [], w) | i # is' \<Rightarrow> (Inr i, is', w)),
     is_ErrObjectNotExist = (\<lambda>x. x = 404),
     is_Done = (\<lambda>x. x = 1),
     http_Code = (\<lambda>x. Some (int x)),
     io_ErrShortWrite = 2,
     io_errInvalidWrite = 3\<rparr>"

definition demo_bucket :: "unit GcsStore" where
  "demo_bucket = \<lparr>gs_client = Some (), gs_bucket = ''bucket'', gs_ownsClient = True\<rparr>"

lemma demo_uploads: "uploads demo_sdk b (\<lambda>w. w) (\<lambda>wr. wr)"
  by (auto simp: uploads_def demo_sdk_def)

lemma demo_serves: "serves demo_sdk b (\<lambda>w. w) (\<lambda>wr. wr) (\<lambda>it. it)"
proof -
  have "serves_get demo_sdk b (\<lambda>w. w)" "serves_range demo_sdk b (\<lambda>w. w)"
    by (auto simp: serves_get_def serves_range_def demo_sdk_def split: option.split)
  moreover have "uploads_reliably demo_sdk" "serves_objects demo_sdk b (\<lambda>w. w)"
    by (auto simp: uploads_reliably_def serves_objects_def demo_sdk_def)
  moreover have "composes demo_sdk b (\<lambda>w. w)"
    by (auto simp: composes_def demo_sdk_def)
  moreover have "lists demo_sdk b (\<lambda>w. w) (\<lambda>it. it)"
    unfolding lists_def
  proof (intro conjI allI)
    fix it :: "unit ObjectInfo list" and w :: Spec
    show "\<exists>it' w'. w' = w \<and> (case it of
          [] \<Rightarrow> \<exists>x. is_Done demo_sdk x \<and> sdk_Next demo_sdk it w = (Inl x, it', w')
        | i # is' \<Rightarrow> sdk_Next demo_sdk it w = (Inr i, it', w') \<and> it' = is')"
      by (rule exI [of _ "tl it"]) (auto simp: demo_sdk_def split: list.split)
  qed (simp add: demo_sdk_def comp_def)
  ultimately show ?thesis using demo_uploads by (simp add: serves_def)
qed


text \<open>A source of two pieces that fails after the first: the upload reports it and commits nothing.\<close>

definition broken_read :: "(nat, nat) reader" where
  "broken_read n i = (if i = 0 then Some ((take n ''ab'', if 2 \<le> n then More else Failed 9), 1)
     else Some (([], Failed 9), i))"

lemma broken_stream: "stream broken_read (\<lambda>i. if i = 0 then ''abcd'' else ''cd'')"
  by unfold_locales (auto simp: broken_read_def split: if_splits)

lemma broken_Put:
  "gcs_Put demo_sdk demo_bucket ''k'' broken_read 0 [''k'' \<mapsto> ''old''] =
     Some (Some (Wrapped ''k'' (OtherError 9)), [''k'' \<mapsto> ''old''])"
  by (simp add: gcs_Put_def demo_sdk_def demo_bucket_def broken_read_def copy_write_def
      copy_to.simps)


end
