(* ===== verification/Content.thy ===== *)
theory Content
  imports Prelude
begin

text \<open>
  \<^verbatim>\<open>content/content.go\<close>: the provenance model as values. A metadata map is a partial map,
  a blob pointer an optional handle; what two values share in memory, and what copying them is
  for, is the subject of \<open>Clone\<close>.
\<close>

type_synonym MediaType = string

record StoreHandle =
  Backend :: string
  sh_Key :: string

record Source =
  src_ID :: string
  src_MediaType :: MediaType
  Hash :: string
  Raw :: StoreHandle
  src_Metadata :: "string \<rightharpoonup> string"

record Artifact =
  art_ID :: string
  art_MediaType :: MediaType
  DerivedFrom :: string
  art_Text :: string
  Blob :: "StoreHandle option"
  art_Metadata :: "string \<rightharpoonup> string"

datatype ContentError = ErrMissingID | ErrMissingMediaType | ErrMissingParent

definition Source_Validate :: "Source \<Rightarrow> ContentError option" where
  "Source_Validate s =
     (if src_ID s = [] then Some ErrMissingID
      else if src_MediaType s = [] then Some ErrMissingMediaType
      else None)"

definition Artifact_Validate :: "Artifact \<Rightarrow> ContentError option" where
  "Artifact_Validate a =
     (if art_ID a = [] then Some ErrMissingID
      else if art_MediaType a = [] then Some ErrMissingMediaType
      else if DerivedFrom a = [] then Some ErrMissingParent
      else None)"

declare Source_Validate_def [go_eval] Artifact_Validate_def [go_eval]

text \<open>An artifact an extractor produced for a parent: everything but the identifier is set.\<close>

definition unassigned :: "string \<Rightarrow> Artifact \<Rightarrow> bool" where
  "unassigned parent a \<longleftrightarrow> art_ID a = [] \<and> art_MediaType a \<noteq> [] \<and> DerivedFrom a = parent"

lemma unassigned_validates:
  "unassigned parent a \<Longrightarrow> parent \<noteq> [] \<Longrightarrow> i \<noteq> [] \<Longrightarrow> Artifact_Validate (a\<lparr>art_ID := i\<rparr>) = None"
  by (simp add: unassigned_def Artifact_Validate_def)

end
