(* ===== verification/Extract.thy ===== *)
theory Extract
  imports Content Go_IO Go_Lines "HOL-Library.List_Lexorder" "HOL-Library.Char_ord"
begin

text \<open>
  \<^verbatim>\<open>extract/extract.go\<close>, \<^verbatim>\<open>extract/helpers.go\<close> and
  \<^verbatim>\<open>extract/text.go\<close>: the registry with its size limit, the readers it puts between
  the caller and an extractor, whitespace normalization and the plain-text extractor.

  The context and the caller's reader act on one state \<open>'s\<close>. The media-type parser of package
  \<^verbatim>\<open>mime\<close> is an argument \<open>parse\<close> (\<open>None\<close> when it reports an error), and so is the
  growth of the read buffer; a result \<open>None\<close> is a run-time panic (or a read that never ends).
\<close>

definition MediaTypeText :: MediaType where "MediaTypeText = ''text/plain''"
definition DefaultMaxBytes :: int where "DefaultMaxBytes = 32 * 2 ^ 20"

text \<open>What can go wrong in a read: the source itself, the size limit, the context.\<close>

datatype 'e IOError = SourceFailed 'e | SourceTooLarge int | ContextDone 'e

text \<open>\<open>Unwrapped\<close> is an error of the context or of an engine, handed on as it is.\<close>

datatype 'e ExtractError =
    ErrMissingParentID
  | ErrInvalidMediaType MediaType
  | ErrUnsupportedMediaType MediaType
  | ErrNoContent
  | ReadAborted 'e
  | ReadSource "'e IOError"
  | MalformedSource MediaType 'e
  | Unwrapped 'e

definition ErrSourceTooLarge :: "'e ExtractError \<Rightarrow> bool" where
  "ErrSourceTooLarge e \<longleftrightarrow> (case e of ReadSource (SourceTooLarge _) \<Rightarrow> True | _ \<Rightarrow> False)"

type_synonym ('s, 'e) ctx = "'s \<Rightarrow> 'e option \<times> 's"

subsection \<open>Bounded and cancellable reading\<close>

text \<open>\<open>limitReader\<close>: its state is \<open>remaining\<close> and the state of the reader below.\<close>

definition limit_read :: "int \<Rightarrow> ('s, 'e IOError) reader \<Rightarrow> (int \<times> 's, 'e IOError) reader" where
  "limit_read limit rd n st =
     (let (remaining, s) = st in
      if remaining < 0 then Some (([], Failed (SourceTooLarge limit)), st)
      else do {
        p \<leftarrow> (if add64 remaining 1 < int n
               then (if add64 remaining 1 < 0 then None else Some (nat (add64 remaining 1)))
               else Some n);
        r \<leftarrow> rd p s;
        let remaining' = remaining - len (fst (fst r)) in
        Some (if remaining' < 0
              then ((fst (fst r), Failed (SourceTooLarge limit)), (remaining', snd r))
              else (fst r, (remaining', snd r))) })"

definition ctx_read :: "('s, 'e) ctx \<Rightarrow> ('s, 'e IOError) reader \<Rightarrow> ('s, 'e IOError) reader" where
  "ctx_read ctx rd n s =
     (case ctx s of
        (Some err, s') \<Rightarrow> Some (([], Failed (ContextDone err)), s')
      | (None, s') \<Rightarrow> rd n s')"

definition ReadAll ::
  "(nat \<Rightarrow> nat) \<Rightarrow> ('s, 'e) ctx \<Rightarrow> ('s, 'e IOError) reader \<Rightarrow> 's \<Rightarrow>
   (('e ExtractError + string) \<times> 's) option" where
  "ReadAll grow ctx rd s =
     (case ctx s of
        (Some err, s') \<Rightarrow> Some (Inl (ReadAborted err), s')
      | (None, s') \<Rightarrow>
          do { r \<leftarrow> io_ReadAll grow (ctx_read ctx rd) s';
               Some (case snd (fst r) of
                       Some err \<Rightarrow> (Inl (ReadSource err), snd r)
                     | None \<Rightarrow> (Inr (fst (fst r)), snd r)) })"

subsection \<open>The registry\<close>

text \<open>
  An extractor reads from the reader it is given, in the state that contains the limit
  reader's counter. A context of the caller's state acts on the second part of it.
\<close>

type_synonym ('s, 'e) Extractor =
  "('s, 'e) ctx \<Rightarrow> ('s, 'e IOError) reader \<Rightarrow> 's \<Rightarrow> string \<Rightarrow>
   (('e ExtractError + Artifact list) \<times> 's) option"

record 'x Registry =
  extractors :: "(MediaType \<times> 'x) list"
  maxBytes :: int

type_synonym Option = "int \<Rightarrow> int"

definition WithMaxBytes :: "int \<Rightarrow> Option option" where
  "WithMaxBytes n = (if n \<le> 0 then None else Some (\<lambda>_. n))"

definition canonicalMediaType ::
  "(string \<Rightarrow> string option) \<Rightarrow> MediaType \<Rightarrow> 'e ExtractError + MediaType" where
  "canonicalMediaType parse mt =
     (case parse mt of None \<Rightarrow> Inl (ErrInvalidMediaType mt) | Some parsed \<Rightarrow> Inr parsed)"

definition NewRegistry :: "Option list \<Rightarrow> 'x Registry" where
  "NewRegistry opts =
     \<lparr>extractors = [], maxBytes = foldl (\<lambda>m fn. fn m) DefaultMaxBytes opts\<rparr>"

text \<open>\<open>Register\<close> panics for a nil extractor, an invalid media type, or a duplicate.\<close>

definition Register ::
  "(string \<Rightarrow> string option) \<Rightarrow> 'x Registry \<Rightarrow> MediaType \<Rightarrow> 'x option \<Rightarrow> 'x Registry option" where
  "Register parse r mediaType e =
     (case e of None \<Rightarrow> None
      | Some x \<Rightarrow>
          (case canonicalMediaType parse mediaType :: unit ExtractError + MediaType of
             Inl _ \<Rightarrow> None
           | Inr key \<Rightarrow>
               if map_of (extractors r) key \<noteq> None then None
               else Some (r\<lparr>extractors := (key, x) # extractors r\<rparr>)))"

definition Get :: "(string \<Rightarrow> string option) \<Rightarrow> 'x Registry \<Rightarrow> MediaType \<Rightarrow> 'x option" where
  "Get parse r mediaType =
     (case canonicalMediaType parse mediaType :: unit ExtractError + MediaType of
        Inl _ \<Rightarrow> None
      | Inr key \<Rightarrow> map_of (extractors r) key)"

definition Registry_Extract ::
  "(string \<Rightarrow> string option) \<Rightarrow> (int \<times> 's, 'e) Extractor Registry \<Rightarrow> ('s, 'e) ctx \<Rightarrow> MediaType \<Rightarrow>
   ('s, 'e IOError) reader \<Rightarrow> string \<Rightarrow> Option list \<Rightarrow> 's \<Rightarrow>
   (('e ExtractError + Artifact list) \<times> 's) option" where
  "Registry_Extract parse r ctx mediaType rd parentID opts s =
     (if parentID = [] then Some (Inl ErrMissingParentID, s)
      else let limit = foldl (\<lambda>m fn. fn m) (maxBytes r) opts in
      (case canonicalMediaType parse mediaType of
         Inl err \<Rightarrow> Some (Inl err, s)
       | Inr key \<Rightarrow>
           (case map_of (extractors r) key of
              None \<Rightarrow> Some (Inl (ErrUnsupportedMediaType key), s)
            | Some e \<Rightarrow>
                map_option (\<lambda>(res, st). (res, snd st))
                  (e (\<lambda>(remaining, s). (fst (ctx s), (remaining, snd (ctx s))))
                     (limit_read limit rd) (limit, s) parentID))))"

definition Supports :: "(string \<Rightarrow> string option) \<Rightarrow> 'x Registry \<Rightarrow> MediaType \<Rightarrow> bool" where
  "Supports parse r mediaType \<longleftrightarrow> Get parse r mediaType \<noteq> None"

definition SupportedMediaTypes :: "'x Registry \<Rightarrow> MediaType list" where
  "SupportedMediaTypes r = sort (map fst (extractors r))"

subsection \<open>Artifacts\<close>

definition TextArtifact :: "string \<Rightarrow> string \<Rightarrow> Artifact" where
  "TextArtifact parentID tx =
     \<lparr>art_ID = [], art_MediaType = MediaTypeText, DerivedFrom = parentID, art_Text = tx,
      Blob = None, art_Metadata = Map.empty\<rparr>"

definition TextArtifacts :: "Artifact list \<Rightarrow> Artifact list" where
  "TextArtifacts artifacts = filter (\<lambda>a. Blob a = None \<and> art_Text a \<noteq> []) artifacts"

datatype TextArtifactError = ErrNoTextArtifact | ErrMultipleTextArtifacts

definition SingleTextArtifact :: "Artifact list \<Rightarrow> TextArtifactError + Artifact" where
  "SingleTextArtifact artifacts =
     (case TextArtifacts artifacts of
        [] \<Rightarrow> Inl ErrNoTextArtifact
      | [a] \<Rightarrow> Inr a
      | _ \<Rightarrow> Inl ErrMultipleTextArtifacts)"

subsection \<open>Whitespace\<close>

fun normalize_lines :: "nat \<Rightarrow> string list \<Rightarrow> string list" where
  "normalize_lines blanks [] = []"
| "normalize_lines blanks (line # lines) =
     (let trimmed = TrimSpace line in
      if trimmed = []
      then (if blanks + 1 \<le> 1 then [[]] else []) @ normalize_lines (blanks + 1) lines
      else trimmed # normalize_lines 0 lines)"

definition NormalizeWhitespace :: "string \<Rightarrow> string" where
  "NormalizeWhitespace s = TrimSpace (join_byte LF (normalize_lines 0 (split_byte LF s)))"

subsection \<open>Plain text\<close>

text \<open>\<open>strings.ToValidUTF8\<close>: each maximal run of invalid bytes becomes one replacement.\<close>

function to_valid :: "string \<Rightarrow> bool \<Rightarrow> string \<Rightarrow> string" where
  "to_valid replacement invalid s =
     (if s = [] then []
      else if rune_ok s then take (rune_size s) s @ to_valid replacement False (drop (rune_size s) s)
      else (if invalid then [] else replacement) @ to_valid replacement True (drop (rune_size s) s))"
  by pat_completeness auto
termination
  by (relation "measure (\<lambda>(replacement, invalid, s). length s)") (auto simp: rune_size_pos)

declare to_valid.simps [simp del]

definition ToValidUTF8 :: "string \<Rightarrow> string \<Rightarrow> string" where
  "ToValidUTF8 s replacement = to_valid replacement False s"

text \<open>U+FFFD in UTF-8.\<close>

definition replacement_char :: string where
  "replacement_char = [CHR 0xEF, CHR 0xBF, CHR 0xBD]"

definition coerce_utf8 :: "string \<Rightarrow> string" where
  "coerce_utf8 tx = (if \<not> ValidString tx then ToValidUTF8 tx replacement_char else tx)"

definition TextExtractor :: "(nat \<Rightarrow> nat) \<Rightarrow> ('s, 'e) Extractor" where
  "TextExtractor grow ctx rd s parentID =
     do { r \<leftarrow> ReadAll grow ctx rd s;
          Some (case fst r of
                  Inl err \<Rightarrow> (Inl err, snd r)
                | Inr data \<Rightarrow>
                    let normalized = NormalizeWhitespace (coerce_utf8 data) in
                    if normalized = [] then (Inl ErrNoContent, snd r)
                    else (Inr [TextArtifact parentID normalized], snd r)) }"

declare MediaTypeText_def [go_eval] DefaultMaxBytes_def [go_eval] limit_read_def [go_eval]
  ctx_read_def [go_eval] ReadAll_def [go_eval] WithMaxBytes_def [go_eval]
  canonicalMediaType_def [go_eval] NewRegistry_def [go_eval] Register_def [go_eval] Get_def [go_eval]
  Registry_Extract_def [go_eval] Supports_def [go_eval] SupportedMediaTypes_def [go_eval]
  TextArtifact_def [go_eval] TextArtifacts_def [go_eval] SingleTextArtifact_def [go_eval]
  normalize_lines.simps [go_eval]
  NormalizeWhitespace_def [go_eval] to_valid.simps [go_eval] ToValidUTF8_def [go_eval]
  replacement_char_def [go_eval] coerce_utf8_def [go_eval] TextExtractor_def [go_eval]

end
