(* ===== verification/Go_Trim.thy ===== *)
theory Go_Trim
  imports Go_Strings
begin

text \<open>
  More on \<open>strings.TrimSpace\<close>: its result is trimmed, it leaves a trimmed string alone, and
  trimmed lines stay trimmed at the ends of a text they are joined into. The facts hold for
  every string, valid UTF-8 or not.
\<close>

subsection \<open>The first and the last rune\<close>

lemma enc_size_le_4: "enc_size s \<le> 4"
  by (cases s) (auto simp: lead_size_def Let_def)

lemma enc_size_1: "enc_size [b] = 1 \<longleftrightarrow> byte_val b < (0x80::nat)"
  by (auto simp: lead_size_def Let_def)

text \<open>A rune that follows a string does not complete an encoding the string left open.\<close>

lemma enc_size_then_start:
  assumes "l \<noteq> []" and "RuneStart b"
  shows "enc_size (l @ b # t) = enc_size l"
proof (cases "0 < enc_size (l @ b # t)")
  case True
  show ?thesis
  proof (cases "enc_size (l @ b # t) \<le> length l")
    case True
    then have "enc_size (take (length l) (l @ b # t)) = enc_size (l @ b # t)"
      using \<open>0 < enc_size _\<close> by (intro enc_size_take) auto
    then show ?thesis by simp
  next
    case False
    then have "\<not> RuneStart ((l @ b # t) ! length l)"
      using assms(1) by (intro enc_size_cont) auto
    then show ?thesis using assms(2) by simp
  qed
next
  case False
  then show ?thesis using enc_size_append [of l "b # t"] by fastforce
qed

lemma DecodeRune_then_start:
  assumes "l \<noteq> []" and "RuneStart b"
  shows "fst (DecodeRune (l @ b # t)) = fst (DecodeRune l)"
proof -
  have "rune_val (l @ b # t) = rune_val l" if "0 < enc_size l"
    using assms that enc_size_le [of l] by (simp add: rune_val_def enc_size_then_start)
  then show ?thesis
    using assms by (auto simp: DecodeRune_def enc_size_then_start)
qed

lemma DecodeRune_prefix:
  assumes "s = l @ t" and "l \<noteq> []" and "aligned s (length l)"
  shows "fst (DecodeRune s) = fst (DecodeRune l)"
proof (cases t)
  case Nil
  then show ?thesis using assms(1) by simp
next
  case (Cons b t')
  then have "RuneStart b" using assms by (auto simp: aligned_def)
  then show ?thesis using DecodeRune_then_start assms Cons by blast
qed

text \<open>A decoded last rune is an encoding that ends the string, and conversely.\<close>

lemma DecodeLastRune_split:
  assumes "s \<noteq> []" and "fst (DecodeLastRune s) \<noteq> RuneError"
  obtains p e where "s = p @ e" "0 < enc_size e" "enc_size e = length e"
    "DecodeLastRune s = (rune_val e, length e)"
proof (cases "byte_val (last s) < (0x80::nat)")
  case True
  then have "DecodeLastRune s = (rune_val [last s], length [last s])"
    using assms(1) by (simp add: DecodeLastRune_def rune_val_def lead_base_def enc_size_1)
  moreover have "s = butlast s @ [last s]" using assms(1) by simp
  moreover have "enc_size [last s] = 1" using True enc_size_1 by blast
  ultimately show ?thesis using that by (metis length_Cons list.size(3) One_nat_def zero_less_one)
next
  case False
  let ?t = "drop (last_start s) s"
  have d: "DecodeLastRune s = DecodeRune ?t"
    and e: "last_start s + rune_size ?t = length s"
    using False assms by (auto simp: DecodeLastRune_def split: if_splits)
  have t: "?t \<noteq> []" "enc_size ?t \<noteq> 0"
    using assms(2) d by (auto simp: DecodeRune_def split: if_splits)
  then have "DecodeRune ?t = (rune_val ?t, enc_size ?t)" "enc_size ?t = length ?t"
    using e by (auto simp: DecodeRune_def rune_size_eq)
  with t d show ?thesis using that [of "take (last_start s) s" ?t] by simp
qed

lemma DecodeLastRune_end:
  assumes "0 < enc_size e" and "enc_size e = length e"
  shows "DecodeLastRune (p @ e) = (rune_val e, length e)"
proof (cases "length e = 1")
  case True
  then obtain b where b: "e = [b]" by (auto simp: length_Suc_conv)
  then have "byte_val b < (0x80::nat)" using assms True enc_size_1 by auto
  then show ?thesis
    by (simp add: DecodeLastRune_def b rune_val_def lead_base_def)
next
  case False
  let ?s = "p @ e" and ?n = "length p"
  have two: "2 \<le> length e" "length e \<le> 4" using False assms enc_size_le_4 [of e]
    by (cases "length e", auto)
  have cont: "\<not> RuneStart (?s ! i)" if "?n < i" "i < length ?s" for i
    using enc_size_cont [of "i - ?n" e] that assms by (auto simp: nth_append)
  have "last ?s = ?s ! (length ?s - 1)"
    using two(1) by (intro last_conv_nth) auto
  then have "\<not> byte_val (last ?s) < (0x80::nat)"
    using cont [of "length ?s - 1"] two RuneStart_ascii by fastforce
  moreover have "last_start ?s = ?n"
  proof -
    let ?lim = "length ?s - 4" and ?e = "length ?s - 1"
    have "rune_ok e" using assms by (simp add: rune_ok_def)
    then have start: "RuneStart (?s ! ?n)"
      using rune_ok_start [of e] two by (cases e) (auto simp: nth_append)
    have "[?lim ..< ?e] = [?lim ..< ?n] @ ?n # [Suc ?n ..< ?e]"
      using two upt_add_eq_append [of ?lim ?n "?e - ?n"] by (simp add: upt_conv_Cons)
    moreover have "filter (\<lambda>i. RuneStart (?s ! i)) (rev [Suc ?n ..< ?e]) = []"
      using cont by (auto simp: filter_empty_conv)
    ultimately have "filter (\<lambda>i. RuneStart (?s ! i)) (rev [?lim ..< ?e]) =
        ?n # filter (\<lambda>i. RuneStart (?s ! i)) (rev [?lim ..< ?n])"
      using start by simp
    then show ?thesis by (simp only: last_start_def Let_def list.case)
  qed
  ultimately show ?thesis
    using assms by (auto simp: DecodeLastRune_def DecodeRune_def rune_size_eq)
qed

text \<open>What ends a text after a byte that starts a rune is what ends the part behind it.\<close>

lemma DecodeLastRune_after_start:
  assumes "l \<noteq> []" and "byte_val b < (0x80::nat)"
    and "fst (DecodeLastRune (x @ b # l)) \<noteq> RuneError"
  shows "fst (DecodeLastRune (x @ b # l)) = fst (DecodeLastRune l)"
proof -
  obtain p e where e: "x @ b # l = p @ e" "0 < enc_size e" "enc_size e = length e"
    "DecodeLastRune (x @ b # l) = (rune_val e, length e)"
    using DecodeLastRune_split [OF _ assms(3)] by auto
  have "length e \<le> length l"
  proof (rule ccontr)
    assume long: "\<not> length e \<le> length l"
    let ?i = "length e - length l - 1"
    have "e ! ?i = (p @ e) ! (length p + ?i)" by (simp add: nth_append)
    also have "length p + ?i = length x"
      using arg_cong [OF e(1), of length] long by simp
    also have "(p @ e) ! length x = b" by (simp add: nth_append flip: e(1))
    finally have b: "e ! ?i = b" .
    show False
    proof (cases "?i = 0")
      case True
      then have "e = b # tl e" using b e(2) by (cases e) auto
      then have "enc_size e = 1" using enc_size_ascii [of e] assms(2) by (metis list.sel(1) list.discI)
      then show False using e(3) long assms(1) by (cases l) auto
    next
      case False
      then have "\<not> RuneStart (e ! ?i)" using e(2,3) assms(1) by (intro enc_size_cont) auto
      then show False using b RuneStart_ascii [OF assms(2)] by simp
    qed
  qed
  then obtain q where "l = q @ e"
    using e(1) by (auto simp: append_eq_append_conv2 append_eq_Cons_conv Cons_eq_append_conv)
  then show ?thesis using DecodeLastRune_end [OF e(2,3)] e(4) by simp
qed

subsection \<open>Trimmed strings\<close>

definition trimmed :: "string \<Rightarrow> bool" where
  "trimmed s \<longleftrightarrow> s = [] \<or> \<not> IsSpace (fst (DecodeRune s)) \<and> \<not> IsSpace (fst (DecodeLastRune s))"

lemma trimmed_Nil [simp]: "trimmed []"
  by (simp add: trimmed_def)

lemma IsSpace_not_RuneError: "IsSpace r \<Longrightarrow> r \<noteq> RuneError"
  using IsSpace_RuneError by auto

lemma TrimLeftFunc_first: "TrimLeftFunc s f = [] \<or> \<not> f (fst (DecodeRune (TrimLeftFunc s f)))"
proof (induction s f rule: TrimLeftFunc.induct)
  case (1 s f)
  then show ?case by (subst (1 2) TrimLeftFunc.simps) auto
qed

lemma TrimRightFunc_last: "TrimRightFunc s f = [] \<or> \<not> f (fst (DecodeLastRune (TrimRightFunc s f)))"
proof (induction s f rule: TrimRightFunc.induct)
  case (1 s f)
  then show ?case by (subst (1 2) TrimRightFunc.simps) auto
qed

lemma TrimRightFunc_Nil [simp]: "TrimRightFunc [] f = []"
  by (simp add: TrimRightFunc.simps)

lemma TrimLeftFunc_Nil [simp]: "TrimLeftFunc [] f = []"
  by (simp add: TrimLeftFunc.simps)

lemma TrimSpace_Nil [simp]: "TrimSpace [] = []"
  by (simp add: TrimSpace_def)

lemma TrimSpace_trimmed [simp]: "trimmed (TrimSpace s)"
proof (cases "TrimSpace s = []")
  case False
  let ?l = "TrimLeftFunc s IsSpace"
  obtain m where m: "m \<le> length ?l" "TrimSpace s = take m ?l" "aligned ?l m"
    using TrimRightFunc_take [of IsSpace ?l] IsSpace_RuneError by (auto simp: TrimSpace_def)
  have "fst (DecodeRune ?l) = fst (DecodeRune (take m ?l))"
    using m False by (intro DecodeRune_prefix [of ?l "take m ?l" "drop m ?l"]) (auto simp: min_absorb2)
  then show ?thesis
    using False m(2) TrimLeftFunc_first [of s IsSpace] TrimRightFunc_last [of ?l IsSpace]
    by (auto simp: trimmed_def TrimSpace_def)
qed simp

lemma TrimSpace_id [simp]: "trimmed s \<Longrightarrow> TrimSpace s = s"
  by (auto simp: trimmed_def TrimSpace_def TrimLeftFunc.simps [of s] TrimRightFunc.simps [of s])

lemma TrimSpace_infix: "\<exists>a b. s = a @ TrimSpace s @ b"
proof -
  obtain a where "slice s (int 0 + a) (a + len (TrimSpace s)) = Some (TrimSpace s)"
    using TrimSpace_slice(1) [of s] by auto
  then have "TrimSpace s = take (length (TrimSpace s)) (drop (nat a) s)"
    by (auto simp: slice_Some_iff)
  then show ?thesis by (metis append_take_drop_id)
qed

lemma TrimSpace_set: "set (TrimSpace s) \<subseteq> set s"
  using TrimSpace_infix [of s] by (metis Un_iff set_append subsetI)

text \<open>A space byte at either end goes.\<close>

abbreviation space_byte :: "char \<Rightarrow> bool" where
  "space_byte b \<equiv> byte_val b < (0x80::nat) \<and> IsSpace (byte_val b)"

lemma DecodeRune_ascii: "byte_val b < (0x80::nat) \<Longrightarrow> DecodeRune (b # s) = (byte_val b, 1)"
  by (simp add: DecodeRune_def rune_val_def lead_base_def lead_size_def)

lemma TrimSpace_Cons: "space_byte b \<Longrightarrow> TrimSpace (b # s) = TrimSpace s"
  by (simp add: TrimSpace_def TrimLeftFunc.simps [of "b # s"] DecodeRune_ascii rune_size_def)

lemma snoc_start:
  assumes "s \<noteq> []" and "RuneStart b"
  shows "fst (DecodeRune (s @ [b])) = fst (DecodeRune s)"
    and "drop (rune_size (s @ [b])) (s @ [b]) = drop (rune_size s) s @ [b]"
proof -
  show "fst (DecodeRune (s @ [b])) = fst (DecodeRune s)"
    using DecodeRune_then_start [OF assms, of "[]"] by simp
  have "rune_size (s @ [b]) = rune_size s"
    using assms enc_size_then_start [OF assms, of "[]"] by (simp add: rune_size_eq)
  then show "drop (rune_size (s @ [b])) (s @ [b]) = drop (rune_size s) s @ [b]"
    using rune_size_le [of s] by simp
qed

lemma TrimLeftFunc_snoc:
  assumes "space_byte b"
  shows "TrimLeftFunc (s @ [b]) IsSpace =
    (if TrimLeftFunc s IsSpace = [] then [] else TrimLeftFunc s IsSpace @ [b])"
proof (induction s "IsSpace" rule: TrimLeftFunc.induct)
  case (1 s)
  show ?case
  proof (cases "s = []")
    case True
    then show ?thesis using assms
      by (simp add: TrimLeftFunc.simps [of "[b]"] DecodeRune_ascii rune_size_def)
  next
    case False
    note snoc = snoc_start [OF False RuneStart_ascii [of b]]
    show ?thesis
    proof (cases "IsSpace (fst (DecodeRune s))")
      case True
      then show ?thesis
        using "1.hyps" [OF False True] assms False snoc
        by (simp add: TrimLeftFunc.simps [of "s @ [b]"] TrimLeftFunc.simps [of s])
    next
      case nsp: False
      then show ?thesis using False assms snoc
        by (simp add: TrimLeftFunc.simps [of "s @ [b]"] TrimLeftFunc.simps [of s])
    qed
  qed
qed

lemma TrimSpace_snoc:
  assumes "space_byte b"
  shows "TrimSpace (s @ [b]) = TrimSpace s"
proof -
  have "DecodeLastRune (t @ [b]) = (byte_val b, 1)" for t
    using assms by (simp add: DecodeLastRune_def)
  then have "TrimRightFunc (t @ [b]) IsSpace = TrimRightFunc t IsSpace" for t
    using assms by (simp add: TrimRightFunc.simps [of "t @ [b]"])
  then show ?thesis
    by (simp add: TrimSpace_def TrimLeftFunc_snoc [OF assms])
qed

text \<open>A text that starts and ends with a trimmed line is trimmed.\<close>

lemma trimmed_join:
  assumes "trimmed x" and "x \<noteq> []" and "trimmed y" and "y \<noteq> []" and "byte_val b < (0x80::nat)"
    and "byte_val c < (0x80::nat)"
  shows "trimmed (x @ b # z @ c # y)" "trimmed (x @ b # y)"
proof -
  have "fst (DecodeRune (x @ b # r)) = fst (DecodeRune x)" for r
    using DecodeRune_then_start [OF assms(2)] RuneStart_ascii [OF assms(5)] .
  moreover have last: "\<not> IsSpace (fst (DecodeLastRune (r @ d # y)))" if "byte_val d < (0x80::nat)" for r d
    using DecodeLastRune_after_start [OF assms(4) that, of r] assms(3,4) IsSpace_not_RuneError
    by (auto simp: trimmed_def)
  moreover have "\<not> IsSpace (fst (DecodeLastRune (x @ b # z @ c # y)))"
    using last [OF assms(6), of "x @ b # z"] by simp
  ultimately show "trimmed (x @ b # z @ c # y)" "trimmed (x @ b # y)"
    using assms(1,2,5) by (auto simp: trimmed_def)
qed

end
