(* ===== verification/Extract_Text.thy ===== *)
theory Extract_Text
  imports Extract Go_Trim
begin

text \<open>
  What the text helpers of \<^verbatim>\<open>extract/extract.go\<close> produce. The reference for
  \<open>NormalizeWhitespace\<close> is \<open>paras\<close>: a text is its paragraphs, a paragraph a maximal run of
  lines that are not blank.
\<close>

subsection \<open>Paragraphs\<close>

function paras :: "string list \<Rightarrow> string list list" where
  "paras [] = []"
| "paras ([] # ls) = paras ls"
| "l \<noteq> [] \<Longrightarrow> paras (l # ls) = (l # takeWhile (\<lambda>l. l \<noteq> []) ls) # paras (dropWhile (\<lambda>l. l \<noteq> []) ls)"
  by (auto, metis list.exhaust)
termination
  by (relation "measure length") (auto simp: le_imp_less_Suc length_dropWhile_le)

text \<open>The lines of the paragraphs, with a blank line between them.\<close>

fun body :: "string list list \<Rightarrow> string list" where
  "body [] = []"
| "body [p] = p"
| "body (p # q # ps) = p @ [] # body (q # ps)"

fun join_string :: "string \<Rightarrow> string list \<Rightarrow> string" where
  "join_string sep [] = []"
| "join_string sep [x] = x"
| "join_string sep (x # y # xs) = x @ sep @ join_string sep (y # xs)"

definition proper :: "string list list \<Rightarrow> bool" where
  "proper ps \<longleftrightarrow> (\<forall>p \<in> set ps. p \<noteq> [] \<and> (\<forall>l \<in> set p. l \<noteq> []))"

lemma proper_simps [simp]:
  "proper []" "proper (p # ps) \<longleftrightarrow> p \<noteq> [] \<and> (\<forall>l \<in> set p. l \<noteq> []) \<and> proper ps"
  by (auto simp: proper_def)

lemma proper_paras: "proper (paras ls)"
  by (induction ls rule: paras.induct) (auto dest: set_takeWhileD)

lemma paras_lines: "p \<in> set (paras ls) \<Longrightarrow> l \<in> set p \<Longrightarrow> l \<in> set ls"
  by (induction ls arbitrary: p rule: paras.induct)
    (auto dest: set_takeWhileD set_dropWhileD)

lemma paras_block:
  assumes "p \<noteq> []" and "\<forall>l \<in> set p. l \<noteq> []"
  shows "paras (p @ [] # ls) = p # paras ls" and "paras p = [p]"
proof -
  obtain l p' where p: "p = l # p'" using assms(1) by (cases p) auto
  have "takeWhile (\<lambda>l. l \<noteq> []) (p' @ [] # ls) = p'" "dropWhile (\<lambda>l. l \<noteq> []) (p' @ [] # ls) = [] # ls"
    "takeWhile (\<lambda>l. l \<noteq> []) p' = p'" "dropWhile (\<lambda>l. l \<noteq> []) p' = []"
    using assms p by (auto simp: takeWhile_append dropWhile_append dropWhile_eq_Nil_conv)
  then show "paras (p @ [] # ls) = p # paras ls" "paras p = [p]"
    using assms p by (simp_all del: dropWhile_eq_Nil_conv)
qed

lemma paras_body: "proper ps \<Longrightarrow> paras (body ps) = ps"
  by (induction ps rule: body.induct) (simp_all add: paras_block)

lemma body_not_Nil: "proper ps \<Longrightarrow> body ps = [] \<longleftrightarrow> ps = []"
  by (cases ps rule: body.cases) auto

lemma body_Cons: "ps \<noteq> [] \<Longrightarrow> body (p # ps) = p @ [] # body ps"
  by (cases ps) auto

lemma join_body:
  "proper ps \<Longrightarrow> join_byte LF (body ps) = join_string [LF, LF] (map (join_byte LF) ps)"
  by (induction ps rule: body.induct) (auto simp: join_byte_append join_byte_Cons body_not_Nil)

text \<open>\<open>normalize_lines\<close> keeps the paragraphs and at most one blank line around them.\<close>

fun collapse :: "nat \<Rightarrow> string list \<Rightarrow> string list" where
  "collapse blanks [] = []"
| "collapse blanks (l # ls) =
     (if l = [] then (if blanks = 0 then [[]] else []) @ collapse (blanks + 1) ls
      else l # collapse 0 ls)"

lemma normalize_collapse: "normalize_lines b ls = collapse b (map TrimSpace ls)"
  by (induction b ls rule: normalize_lines.induct) (auto simp: Let_def)

lemma collapse_pos: "0 < b \<Longrightarrow> collapse b ls = collapse 1 ls"
proof (induction ls arbitrary: b)
  case (Cons l ls)
  have "collapse (b + 1) ls = collapse 1 ls" "collapse (1 + 1) ls = collapse 1 ls"
    by (rule Cons.IH; simp)+
  then show ?case using Cons.prems by (simp only: collapse.simps) simp
qed simp

lemma collapse_block:
  "\<forall>l \<in> set p. l \<noteq> [] \<Longrightarrow> collapse b (p @ ls) = p @ collapse (if p = [] then b else 0) ls"
  by (induction p arbitrary: b) auto

lemma collapse_paras:
  "\<exists>tl. collapse 1 ls = body (paras ls) @ tl \<and> (tl = [] \<or> tl = [[]] \<and> paras ls \<noteq> [])"
proof (induction ls rule: paras.induct)
  case (2 ls)
  then show ?case using collapse_pos [of "Suc (Suc 0)" ls] by simp
next
  case (3 l ls)
  let ?r = "takeWhile (\<lambda>l. l \<noteq> []) ls" and ?d = "dropWhile (\<lambda>l. l \<noteq> []) ls"
  have "\<forall>x \<in> set (l # ?r). x \<noteq> []" using 3(1) by (auto dest: set_takeWhileD)
  then have c: "collapse 1 (l # ls) = (l # ?r) @ collapse 0 ?d"
    using collapse_block [of "l # ?r" 1 ?d] by simp
  show ?case
  proof (cases ?d)
    case Nil
    have "collapse 1 (l # ls) = l # ?r" using c by (simp only: Nil) simp
    moreover have "paras (l # ls) = [l # ?r]" using paras.simps(3) [OF 3(1), of ls] unfolding Nil by simp
    ultimately show ?thesis by simp
  next
    case (Cons x d)
    have x: "x = []" using hd_dropWhile [of "\<lambda>l. l \<noteq> []" ls] Cons by simp
    then have d: "collapse 0 ?d = [] # collapse 1 ?d"
      using Cons collapse_pos [of "Suc (Suc 0)" d] by simp
    from 3(2) obtain tl where tl: "collapse 1 ?d = body (paras ?d) @ tl"
      "tl = [] \<or> tl = [[]] \<and> paras ?d \<noteq> []" by auto
    show ?thesis
    proof (cases "paras ?d = []")
      case True
      then show ?thesis using c d tl 3(1) by simp
    next
      case False
      then show ?thesis using c d tl 3(1) by (auto simp: body_Cons)
    qed
  qed
qed auto

lemma collapse_paras_0:
  obtains pre tl where "collapse 0 ls = pre @ body (paras ls) @ tl"
    "pre = [] \<or> pre = [[]]" "tl = [] \<or> tl = [[]] \<and> paras ls \<noteq> []"
proof -
  obtain tl where tl: "collapse 1 ls = body (paras ls) @ tl" "tl = [] \<or> tl = [[]] \<and> paras ls \<noteq> []"
    using collapse_paras by blast
  show ?thesis
  proof (cases "ls \<noteq> [] \<and> hd ls = []")
    case True
    then obtain ls' where ls: "ls = [] # ls'" by (cases ls) auto
    obtain tl where "collapse 1 ls' = body (paras ls') @ tl" "tl = [] \<or> tl = [[]] \<and> paras ls' \<noteq> []"
      using collapse_paras by blast
    then show ?thesis using that [of "[[]]" tl] ls by simp
  next
    case False
    then have "collapse 0 ls = collapse 1 ls" by (cases ls) auto
    then show ?thesis using that [of "[]" tl] tl by simp
  qed
qed

lemma body_hd: "proper (p # ps) \<Longrightarrow> hd (body (p # ps)) = hd p"
  by (cases ps) auto

lemma body_last: "proper ps \<Longrightarrow> ps \<noteq> [] \<Longrightarrow> last (body ps) = last (last ps)"
  by (induction ps rule: body.induct) (auto simp: body_not_Nil)

lemma LF_space: "space_byte LF"
  by (simp add: IsSpace_def)

lemma trimmed_join_lines:
  assumes "ls \<noteq> []" and "hd ls \<noteq> []" "trimmed (hd ls)" and "last ls \<noteq> []" "trimmed (last ls)"
  shows "trimmed (join_byte LF ls)"
proof (cases "length ls = 1")
  case True
  then show ?thesis using assms by (cases ls) auto
next
  case False
  have ls: "ls = hd ls # tl ls" "tl ls \<noteq> []" using assms(1) False by (cases ls; cases "tl ls"; auto)+
  define ys where "ys = butlast (tl ls)"
  have t: "tl ls = ys @ [last ls]" using ls by (metis append_butlast_last_id last_tl ys_def)
  have "join_byte LF ls = hd ls @ LF # join_byte LF (ys @ [last ls])"
    using ls t by (metis join_byte_Cons)
  also have "\<dots> = (if ys = [] then hd ls @ LF # last ls
      else hd ls @ LF # join_byte LF ys @ LF # last ls)"
    by (simp add: join_byte_append)
  finally show ?thesis
    using trimmed_join(1) [OF assms(3,2,5,4), of LF LF "join_byte LF ys"]
      trimmed_join(2) [OF assms(3,2,5,4), of LF LF] LF_space by auto
qed

lemma trimmed_body:
  assumes "proper ps" and "\<forall>p \<in> set ps. \<forall>l \<in> set p. trimmed l"
  shows "trimmed (join_byte LF (body ps))"
proof (cases "ps = []")
  case False
  then obtain p ps' where ps: "ps = p # ps'" by (cases ps) auto
  have p: "p \<noteq> []" "hd p \<in> set p" using assms(1) ps by auto
  have l: "last ps \<in> set ps" "last ps \<noteq> []" "last (last ps) \<in> set (last ps)"
    using assms(1) False by (auto simp: proper_def)
  show ?thesis
  proof (rule trimmed_join_lines)
    show "hd (body ps) \<noteq> []" "trimmed (hd (body ps))"
      using assms p body_hd ps by auto
    show "last (body ps) \<noteq> []" "trimmed (last (body ps))"
      using assms l body_last [OF assms(1) False] by (auto simp: proper_def)
  qed (use assms(1) False body_not_Nil in blast)
qed simp

lemma NormalizeWhitespace_body:
  "NormalizeWhitespace s = join_byte LF (body (paras (map TrimSpace (split_byte LF s))))"
proof -
  let ?ls = "map TrimSpace (split_byte LF s)" and ?B = "body (paras (map TrimSpace (split_byte LF s)))"
  obtain pre tl where c: "collapse 0 ?ls = pre @ ?B @ tl"
    and pre: "pre = [] \<or> pre = [[]]" and tl: "tl = [] \<or> tl = [[]] \<and> paras ?ls \<noteq> []"
    using collapse_paras_0 [of ?ls] by blast
  have "trimmed (join_byte LF ?B)"
    by (rule trimmed_body [OF proper_paras]) (use paras_lines in fastforce)
  moreover have "TrimSpace (join_byte LF (pre @ ?B @ tl)) = TrimSpace (join_byte LF ?B)"
  proof (cases "paras ?ls = []")
    case True
    then show ?thesis using pre tl by auto
  next
    case False
    then have "?B \<noteq> []" using body_not_Nil proper_paras by blast
    then show ?thesis
      using pre tl TrimSpace_Cons [OF LF_space] TrimSpace_snoc [OF LF_space]
      by (auto simp: join_byte_append join_byte_Cons simp flip: append_Cons)
  qed
  ultimately show ?thesis
    by (simp add: NormalizeWhitespace_def normalize_collapse c)
qed

subsection \<open>The reference\<close>

text \<open>
  C29: \<open>NormalizeWhitespace\<close> is the text's paragraphs, each of its trimmed lines joined by one
  newline, joined by one blank line: nothing but whitespace at the ends of lines and surplus
  blank lines goes.
\<close>

theorem NormalizeWhitespace_paragraphs:
  "NormalizeWhitespace s =
     join_string [LF, LF] (map (join_byte LF) (paras (map TrimSpace (split_byte LF s))))"
  by (simp add: NormalizeWhitespace_body join_body [OF proper_paras])

text \<open>The lines of a normalized text are those of its paragraphs.\<close>

lemma paras_no_LF:
  "p \<in> set (paras (map TrimSpace (split_byte LF s))) \<Longrightarrow> l \<in> set p \<Longrightarrow> LF \<notin> set l \<and> trimmed l"
  using paras_lines [of p "map TrimSpace (split_byte LF s)" l] split_byte_lines TrimSpace_set
  by fastforce

lemma body_lines: "l \<in> set (body ps) \<Longrightarrow> l = [] \<or> (\<exists>p \<in> set ps. l \<in> set p)"
  by (induction ps rule: body.induct) auto

lemma split_body:
  assumes "proper ps" and "\<And>p l. p \<in> set ps \<Longrightarrow> l \<in> set p \<Longrightarrow> LF \<notin> set l \<and> trimmed l" and "ps \<noteq> []"
  shows "split_byte LF (join_byte LF (body ps)) = body ps"
    and "map TrimSpace (body ps) = body ps"
proof -
  have "LF \<notin> set l \<and> trimmed l" if "l \<in> set (body ps)" for l
    using body_lines [OF that] assms(2) by auto
  then show "split_byte LF (join_byte LF (body ps)) = body ps" "map TrimSpace (body ps) = body ps"
    using assms(1,3) body_not_Nil by (auto intro!: split_join_byte map_idI)
qed

text \<open>
  Normalizing twice is normalizing once, so a text that went through an extractor and is
  extracted again as plain text does not change.
\<close>

theorem NormalizeWhitespace_idempotent:
  "NormalizeWhitespace (NormalizeWhitespace s) = NormalizeWhitespace s"
proof (cases "paras (map TrimSpace (split_byte LF s)) = []")
  case False
  note sb = split_body [OF proper_paras [of "map TrimSpace (split_byte LF s)"] paras_no_LF False]
  show ?thesis
    by (simp only: NormalizeWhitespace_body sb paras_body [OF proper_paras])
qed (simp add: NormalizeWhitespace_body)

lemma NormalizeWhitespace_trimmed: "trimmed (NormalizeWhitespace s)"
  by (simp add: NormalizeWhitespace_def)

lemma NormalizeWhitespace_empty:
  "NormalizeWhitespace s = [] \<longleftrightarrow> (\<forall>l \<in> set (split_byte LF s). TrimSpace l = [])"
proof -
  have join: "join_byte LF ls = [] \<longleftrightarrow> ls = [] \<or> ls = [[]]" for ls
    by (induction "LF" ls rule: join_byte.induct) auto
  have blank: "paras ls = [] \<longleftrightarrow> (\<forall>l \<in> set ls. l = [])" for ls
    by (induction ls rule: paras.induct) auto
  have "body ps \<noteq> [[]]" if "proper ps" for ps
    using that by (cases ps rule: body.cases) (auto simp: Cons_eq_append_conv append_eq_Cons_conv)
  then show ?thesis
    using body_not_Nil [OF proper_paras] blank [of "map TrimSpace (split_byte LF s)"]
    by (auto simp: NormalizeWhitespace_body join proper_paras)
qed

subsection \<open>Valid UTF-8\<close>

lemma ValidString_LF: "ValidString (LF # s) \<longleftrightarrow> ValidString s"
proof -
  have "enc_size (LF # s) = 1" by (simp add: lead_size_def)
  then show ?thesis by (simp add: ValidString.simps [of "LF # s"] rune_ok_def rune_size_eq)
qed

lemma ValidString_cut_LF:
  assumes "ValidString (a @ LF # b)"
  shows "ValidString a" "ValidString b"
proof -
  have "aligned (a @ LF # b) (length a)"
    using RuneStart_ascii [of LF] by (simp add: aligned_def)
  then show "ValidString a" "ValidString b"
    using ValidString_cut [OF assms, of "length a"] by (auto simp: ValidString_LF)
qed

lemma ValidString_join:
  "\<forall>l \<in> set ls. ValidString l \<Longrightarrow> ValidString (join_byte LF ls)"
  by (induction LF ls rule: join_byte.induct) (auto intro!: ValidString_append simp: ValidString_LF)

lemma ValidString_lines:
  "ValidString (join_byte LF ls) \<Longrightarrow> l \<in> set ls \<Longrightarrow> ValidString l"
proof (induction LF ls rule: join_byte.induct)
  case (3 k k' ks)
  have "ValidString k" "ValidString (join_byte LF (k' # ks))"
    using 3(2) ValidString_cut_LF [of k "join_byte LF (k' # ks)"] by simp_all
  then show ?case using 3(1,3) by auto
qed auto

lemma NormalizeWhitespace_valid:
  assumes "ValidString s"
  shows "ValidString (NormalizeWhitespace s)"
proof -
  have "ValidString (TrimSpace l)" if "l \<in> set (split_byte LF s)" for l
    using ValidString_lines [of "split_byte LF s" l] that assms TrimSpace_slice(4)
    by (simp add: join_split_byte)
  then have "ValidString l" if "l \<in> set (body (paras (map TrimSpace (split_byte LF s))))" for l
    using body_lines [OF that] paras_lines [of _ "map TrimSpace (split_byte LF s)" l] by force
  then show ?thesis by (simp add: NormalizeWhitespace_body ValidString_join)
qed

lemma to_valid_valid: "ValidString r \<Longrightarrow> ValidString (to_valid r i s)"
proof (induction r i s rule: to_valid.induct)
  case (1 r i s)
  have "ValidString (take (rune_size s) s)" if "rune_ok s"
  proof -
    have "enc_size (take (enc_size s) s) = enc_size s"
      using that by (simp add: enc_size_take rune_ok_def)
    then show ?thesis using that
      by (subst ValidString.simps) (simp add: rune_ok_size, simp add: rune_ok_def rune_size_eq)
  qed
  then show ?case using 1 by (subst to_valid.simps) (auto intro: ValidString_append)
qed

lemma to_valid_id: "ValidString s \<Longrightarrow> to_valid r i s = s"
proof (induction r i s rule: to_valid.induct)
  case (1 r i s)
  then show ?case by (subst to_valid.simps) (auto simp: ValidString_step)
qed

lemma replacement_valid: "ValidString replacement_char"
  by (simp add: replacement_char_def ValidString.simps rune_ok_def rune_size_eq lead_size_def
      accept_lo_def accept_hi_def byte_in_def)

lemma coerce_valid: "ValidString (coerce_utf8 s)"
  by (simp add: coerce_utf8_def ToValidUTF8_def to_valid_valid replacement_valid)

lemma coerce_id: "ValidString s \<Longrightarrow> coerce_utf8 s = s"
  by (simp add: coerce_utf8_def)

end
