(* ===== verification/Extract_Read.thy ===== *)
theory Extract_Read
  imports Extract_Text
begin

text \<open>
  Bounded and cancellable reading: what \<open>ReadAll\<close> returns over the registry's limit reader, for
  readers and contexts that may fail at any point (\<open>stream\<close>) and for well-behaved ones
  (\<open>source\<close>); then the registry and the plain-text extractor on top of it.
\<close>

subsection \<open>The readers keep the contract\<close>

text \<open>A context that does not touch what the reader still has to deliver.\<close>

definition aside :: "('s, 'e) ctx \<Rightarrow> ('s \<Rightarrow> string) \<Rightarrow> bool" where
  "aside ctx rest \<longleftrightarrow> (\<forall>s. rest (snd (ctx s)) = rest s)"

abbreviation lift_ctx :: "('s, 'e) ctx \<Rightarrow> (int \<times> 's, 'e) ctx" where
  "lift_ctx ctx \<equiv> \<lambda>(remaining, s). (fst (ctx s), (remaining, snd (ctx s)))"

lemma ctx_read_stream:
  assumes "stream rd rest" and "aside ctx rest"
  shows "stream (ctx_read ctx rd) rest"
proof -
  have c: "rest s' = rest s" if "ctx s = (x, s')" for x s s'
    using assms(2) that unfolding aside_def by (metis snd_conv)
  show ?thesis
    using assms(1) unfolding stream_def ctx_read_def by (auto split: prod.splits option.splits dest!: c)
qed

lemma limit_read_Some:
  assumes "limit_read limit rd n (rem, s) = Some ((b, st), (rem', s'))"
  shows "rem < 0 \<and> b = [] \<and> st = Failed (SourceTooLarge limit) \<and> rem' = rem \<and> s' = s
    \<or> 0 \<le> rem \<and> rem' = rem - len b
      \<and> (\<exists>p st'. p \<le> n \<and> rd p s = Some ((b, st'), s')
           \<and> st = (if rem' < 0 then Failed (SourceTooLarge limit) else st'))"
proof (cases "rem < 0")
  case False
  define p where "p = (if add64 rem 1 < int n then nat (add64 rem 1) else n)"
  have "p \<le> n" by (auto simp: p_def)
  moreover obtain st' where "rd p s = Some ((b, st'), s')" "rem' = rem - len b"
    "st = (if rem' < 0 then Failed (SourceTooLarge limit) else st')"
    using assms False
    by (auto simp: limit_read_def Let_def bind_eq_Some p_def split: if_splits)
  ultimately show ?thesis using False by auto
qed (use assms in \<open>auto simp: limit_read_def\<close>)

lemma nat_minus: "nat (a - int n) = nat a - n"
  by simp

lemma limit_read_stream:
  assumes "stream rd rest"
  shows "stream (limit_read limit rd) (\<lambda>(rem, s). rest s)"
    and "stream (limit_read limit rd) (\<lambda>(rem, s). take (nat rem) (rest s))"
proof -
  note facts = stream.read_fits [OF assms] stream.read_prefix [OF assms] stream.read_end [OF assms]
  show "stream (limit_read limit rd) (\<lambda>(rem, s). rest s)"
    by unfold_locales (auto dest!: limit_read_Some split: if_splits dest: facts)
  show "stream (limit_read limit rd) (\<lambda>(rem, s). take (nat rem) (rest s))"
    by unfold_locales
      (auto dest!: limit_read_Some split: if_splits dest: facts simp: facts(2) nat_minus)
qed

subsection \<open>Nothing is truncated\<close>

lemma ReadAll_Inr:
  "ReadAll grow ctx rd s = Some (Inr d, s') \<Longrightarrow>
     io_ReadAll grow (ctx_read ctx rd) (snd (ctx s)) = Some ((d, None), s')"
  by (auto simp: ReadAll_def bind_eq_Some split: prod.splits option.splits)

lemma ReadAll_content:
  assumes "stream rd rest" and "aside ctx rest" and "ReadAll grow ctx rd s = Some (Inr d, s')"
  shows "d = rest s"
  using stream.read_all_content [OF ctx_read_stream [OF assms(1,2)] ReadAll_Inr [OF assms(3)]] assms(2)
  by (simp add: aside_def)

lemma ReadAll_whole:
  assumes "stream rd rest" and "aside ctx rest"
    and "ReadAll grow (lift_ctx ctx) (limit_read limit rd) (limit, s) = Some (Inr d, st)"
  shows "d = rest s \<and> (0 \<le> limit \<longrightarrow> len d \<le> limit)"
proof -
  have "aside (lift_ctx ctx) (\<lambda>(rem, s). rest s)" "aside (lift_ctx ctx) (\<lambda>(rem, s). take (nat rem) (rest s))"
    using assms(2) by (auto simp: aside_def)
  note c = ReadAll_content [OF limit_read_stream(1) [OF assms(1)] this(1) assms(3)]
    ReadAll_content [OF limit_read_stream(2) [OF assms(1)] this(2) assms(3)]
  then have "d = rest s" "d = take (nat limit) d" by simp_all
  moreover have "length (take (nat limit) d) \<le> nat limit" by simp
  ultimately show ?thesis by (metis of_nat_le_iff nat_0_le)
qed

text \<open>
  C25: whatever reads return and whenever the context is canceled, a read that
  \<open>ReadAll\<close> completes over the registry's limit reader delivered the whole content, and the
  content is within the limit; everything else is reported as an error, never as a shorter text.
\<close>

theorem ReadAll_never_truncates:
  assumes "stream rd rest" and "aside ctx rest"
    and "ReadAll grow (lift_ctx ctx) (limit_read limit rd) (limit, s) = Some (Inr d, st)"
  shows "d = rest s \<and> (0 \<le> limit \<longrightarrow> len d \<le> limit)"
  by (rule ReadAll_whole [OF assms])

subsection \<open>A calm read\<close>

text \<open>The context is never done.\<close>

definition calm_ctx :: "('s, 'e) ctx \<Rightarrow> bool" where
  "calm_ctx ctx \<longleftrightarrow> (\<forall>s. fst (ctx s) = None)"

lemma ctx_read_source:
  assumes "source rd rest" and "calm_ctx ctx" and "aside ctx rest"
  shows "source (ctx_read ctx rd) rest"
proof -
  have c: "ctx_read ctx rd n s = rd n (snd (ctx s))" for n s
  proof -
    have "ctx s = (None, snd (ctx s))"
      using assms(2) unfolding calm_ctx_def by (metis prod.collapse)
    then show ?thesis unfolding ctx_read_def by (metis (no_types, lifting) option.case(1) prod.case)
  qed
  show ?thesis
  proof (rule source.intro)
    show "stream (ctx_read ctx rd) rest"
      by (rule ctx_read_stream) (use assms source.axioms(1) in auto)
    show "source_axioms (ctx_read ctx rd)"
      using source.axioms(2) [OF assms(1)] unfolding source_axioms_def c by blast
  qed
qed

lemma ReadAll_source:
  assumes "source rd rest" and "calm_ctx ctx" and "aside ctx rest" and "growing grow"
  shows "\<exists>s'. ReadAll grow ctx rd s = Some (Inr (rest s), s')"
proof -
  obtain s1 where c: "ctx s = (None, s1)" "rest s1 = rest s"
    using assms(2,3) unfolding calm_ctx_def aside_def by (metis prod.collapse)
  obtain s' where "io_ReadAll grow (ctx_read ctx rd) s1 = Some ((rest s1, None), s')"
    using source.read_all [OF ctx_read_source [OF assms(1-3)] assms(4)] by blast
  then show ?thesis using c by (simp add: ReadAll_def)
qed

lemma limited_step:
  assumes "source rd rest" and "calm_ctx ctx" and "aside ctx rest"
    and "0 \<le> rem" "rem < 2 ^ 63 - 1" "0 < n"
  obtains b st s' where
    "ctx_read (lift_ctx ctx) (limit_read limit rd) n (rem, s) = Some ((b, st), (rem - len b, s'))"
    "length b \<le> n" "rest s = b @ rest s'"
    "rem < len b \<and> st = Failed (SourceTooLarge limit)
      \<or> len b \<le> rem \<and> (st = More \<and> b \<noteq> [] \<or> st = EOF \<and> rest s' = [])"
proof -
  note src = source.axioms(1) [OF assms(1)]
  obtain s1 where c: "ctx s = (None, s1)" "rest s1 = rest s"
    using assms(2,3) unfolding calm_ctx_def aside_def by (metis prod.collapse)
  have add: "add64 rem 1 = rem + 1" using assms(4,5) by (intro add64_id) auto
  define p where "p = (if rem + 1 < int n then nat (rem + 1) else n)"
  have p: "0 < p" "p \<le> n" using assms(4,6) by (auto simp: p_def)
  obtain b st s' where r: "rd p s1 = Some ((b, st), s')"
    using source.read_returns [OF assms(1), of p s1] by auto
  have st: "st = More \<and> b \<noteq> [] \<or> st = EOF \<and> rest s' = []"
    using source.read_no_error [OF assms(1)] source.read_progress [OF assms(1)] p(1)
      stream.read_end [OF src] r by (cases st) auto
  show ?thesis
  proof (rule that [of b "if rem - len b < 0 then Failed (SourceTooLarge limit) else st" s'])
    show "ctx_read (lift_ctx ctx) (limit_read limit rd) n (rem, s) =
        Some ((b, if rem - len b < 0 then Failed (SourceTooLarge limit) else st), (rem - len b, s'))"
      using assms(4) c r add by (simp add: ctx_read_def limit_read_def p_def split: if_splits)
    show "length b \<le> n" using stream.read_fits [OF src r] p by simp
    show "rest s = b @ rest s'" using stream.read_prefix [OF src r] st c by auto
    show "rem < len b \<and> (if rem - len b < 0 then Failed (SourceTooLarge limit) else st) =
        Failed (SourceTooLarge limit) \<or> len b \<le> rem \<and>
        ((if rem - len b < 0 then Failed (SourceTooLarge limit) else st) = More \<and> b \<noteq> []
         \<or> (if rem - len b < 0 then Failed (SourceTooLarge limit) else st) = EOF \<and> rest s' = [])"
      using st by auto
  qed
qed

lemma limited_loop:
  assumes src: "source rd rest" and calm: "calm_ctx ctx" "aside ctx rest" and grow: "growing grow"
    and "0 \<le> rem" "rem < 2 ^ 63 - 1" "length b < cap"
  shows "\<exists>d st. read_all_loop grow (ctx_read (lift_ctx ctx) (limit_read limit rd)) cap b (rem, s) =
      Some ((d, if len (rest s) \<le> rem then None else Some (SourceTooLarge limit)), st)"
  using assms(5-7)
proof (induction "length (rest s)" arbitrary: rem b cap s rule: less_induct)
  case less
  let ?R = "ctx_read (lift_ctx ctx) (limit_read limit rd)"
  obtain c st s' where r: "?R (cap - length b) (rem, s) = Some ((c, st), (rem - len c, s'))"
    and c: "length c \<le> cap - length b" "rest s = c @ rest s'"
    and st: "rem < len c \<and> st = Failed (SourceTooLarge limit)
      \<or> len c \<le> rem \<and> (st = More \<and> c \<noteq> [] \<or> st = EOF \<and> rest s' = [])"
    by (rule limited_step [OF src calm less.prems(1,2), where n = "cap - length b" and limit = limit and s = s])
      (use less.prems(3) in auto)
  have fits: "\<not> cap < length (b @ c)" using c(1) less.prems(3) by simp
  consider "rem < len c" "st = Failed (SourceTooLarge limit)" | "len c \<le> rem" "st = More" "c \<noteq> []"
    | "len c \<le> rem" "st = EOF" "rest s' = []"
    using st by blast
  then show ?case
  proof cases
    case 1
    then have "\<not> len (rest s) \<le> rem" using c(2) by simp
    then show ?thesis using r fits 1 by (subst read_all_loop.simps) (simp add: Let_def)
  next
    case 3
    then have "len (rest s) \<le> rem" using c(2) by simp
    then show ?thesis using r fits 3 by (subst read_all_loop.simps) (simp add: Let_def)
  next
    case 2
    let ?cap = "if length (b @ c) = cap then grow cap else cap"
    have "length (rest s') < length (rest s)" "length (b @ c) < ?cap"
      using 2 c grow fits by auto
    then obtain d st' where "read_all_loop grow ?R ?cap (b @ c) (rem - len c, s') =
        Some ((d, if len (rest s') \<le> rem - len c then None else Some (SourceTooLarge limit)), st')"
      using less.hyps [of s' "rem - len c" "b @ c" ?cap] 2 less.prems by auto
    moreover have "len (rest s') \<le> rem - len c \<longleftrightarrow> len (rest s) \<le> rem" using c(2) by auto
    ultimately show ?thesis
      using r fits 2 by (subst read_all_loop.simps) (simp add: Let_def)
  qed
qed

lemma ReadAll_limited:
  assumes "source rd rest" and "calm_ctx ctx" and "aside ctx rest" and "growing grow"
    and "0 \<le> limit" and "limit < 2 ^ 63 - 1"
  shows "\<exists>st. ReadAll grow (lift_ctx ctx) (limit_read limit rd) (limit, s) =
    Some (if len (rest s) \<le> limit then Inr (rest s) else Inl (ReadSource (SourceTooLarge limit)), st)"
proof -
  obtain s1 where c: "ctx s = (None, s1)" "rest s1 = rest s"
    using assms(2,3) unfolding calm_ctx_def aside_def by (metis prod.collapse)
  let ?R = "ctx_read (lift_ctx ctx) (limit_read limit rd)"
  obtain d st where l: "io_ReadAll grow ?R (limit, s1) =
      Some ((d, if len (rest s) \<le> limit then None else Some (SourceTooLarge limit)), st)"
    using limited_loop [OF assms(1-6), of "[]" 512 limit s1] c by (auto simp: io_ReadAll_def)
  have "d = rest s" if "len (rest s) \<le> limit"
  proof -
    have "aside (lift_ctx ctx) (\<lambda>(rem, s). rest s)" using assms(3) by (auto simp: aside_def)
    from stream.read_all_content [OF ctx_read_stream
        [OF limit_read_stream(1) [OF source.axioms(1) [OF assms(1)]] this]]
    show ?thesis using l that c by fastforce
  qed
  then show ?thesis using c l by (auto simp: ReadAll_def)
qed

text \<open>
  Without cancellation, a well-behaved source is read completely when it is within the
  limit (exactly at the limit included) and refused when it is longer by even one byte.
\<close>

theorem ReadAll_limit_exact:
  assumes "source rd rest" and "calm_ctx ctx" and "aside ctx rest" and "growing grow"
    and "0 \<le> limit" and "limit < 2 ^ 63 - 1"
  shows "\<exists>st. ReadAll grow (lift_ctx ctx) (limit_read limit rd) (limit, s) =
    Some (if len (rest s) \<le> limit then Inr (rest s) else Inl (ReadSource (SourceTooLarge limit)), st)"
  using assms by (rule ReadAll_limited)

end
