(* ===== verification/Extract_Registry.thy ===== *)
theory Extract_Registry
  imports Extract_Read
begin

text \<open>
  The registry of extractors: registration and lookup, the list of supported media types, and
  extraction of plain text through a registry, from the source bytes to the artifact.
\<close>

subsection \<open>Registration\<close>

lemma Get_iff: "Get parse r mt = (case parse mt of None \<Rightarrow> None | Some key \<Rightarrow> map_of (extractors r) key)"
  by (simp add: Get_def canonicalMediaType_def split: option.split)

lemma Register_iff: "Register parse r mt e = (case (e, parse mt) of
    (Some x, Some key) \<Rightarrow> if map_of (extractors r) key \<noteq> None then None
                          else Some (r\<lparr>extractors := (key, x) # extractors r\<rparr>)
  | _ \<Rightarrow> None)"
  by (simp add: Register_def canonicalMediaType_def split: option.split)

text \<open>
  \<open>Register\<close> panics exactly for a nil extractor, a media type that does not parse, or one
  whose canonical form is taken; otherwise the extractor is found under every spelling of the
  media type, and every other lookup is as before.
\<close>

theorem Register_Get:
  "case Register parse r mt e of
     None \<Rightarrow> e = None \<or> parse mt = None \<or> Supports parse r mt
   | Some r' \<Rightarrow> \<not> Supports parse r mt \<and> parse mt \<noteq> None \<and> e \<noteq> None \<and> maxBytes r' = maxBytes r
       \<and> Get parse r' mt' = (if parse mt' = parse mt then e else Get parse r mt')"
  by (auto simp: Register_iff Get_iff Supports_def split: option.split)

text \<open>Wiring a registry: a list of registrations, in order.\<close>

fun wire :: "(string \<Rightarrow> string option) \<Rightarrow> 'x Registry \<Rightarrow> (MediaType \<times> 'x) list \<Rightarrow> 'x Registry option" where
  "wire parse r [] = Some r"
| "wire parse r ((mt, e) # es) = do { r' \<leftarrow> Register parse r mt (Some e); wire parse r' es }"

lemma Register_keys:
  assumes "Register parse r mt e = Some r'"
  shows "\<exists>key. parse mt = Some key \<and> key \<notin> set (map fst (extractors r))
    \<and> map fst (extractors r') = key # map fst (extractors r)"
  using assms by (cases e; cases "parse mt") (auto simp: Register_iff map_of_eq_None_iff split: if_splits)

lemma wire_keys:
  assumes "wire parse r es = Some r'" and "distinct (map fst (extractors r))"
  shows "distinct (map fst (extractors r'))
    \<and> set (map fst (extractors r')) = set (map fst (extractors r)) \<union> {k. \<exists>mt \<in> fst ` set es. parse mt = Some k}"
  using assms
proof (induction parse r es rule: wire.induct)
  case (2 parse r mt e es)
  then obtain r1 where r1: "Register parse r mt (Some e) = Some r1" "wire parse r1 es = Some r'"
    by (auto simp: bind_eq_Some)
  obtain key where key: "parse mt = Some key" "key \<notin> set (map fst (extractors r))"
    "map fst (extractors r1) = key # map fst (extractors r)"
    using Register_keys [OF r1(1)] by (elim exE conjE) (rule that)
  have "distinct (map fst (extractors r'))
    \<and> set (map fst (extractors r')) = set (map fst (extractors r1)) \<union> {k. \<exists>mt \<in> fst ` set es. parse mt = Some k}"
    using "2.IH" [OF r1] "2.prems"(2) key by (simp del: set_map)
  moreover have "{k. \<exists>mt \<in> fst ` set ((mt, e) # es). parse mt = Some k} =
      insert key {k. \<exists>mt \<in> fst ` set es. parse mt = Some k}"
    using key(1) by auto
  ultimately show ?case by (simp only: key(3)) simp
qed simp

lemma NewRegistry_empty [simp]: "extractors (NewRegistry opts) = []"
  by (simp add: NewRegistry_def)

text \<open>
  The supported media types of a wired registry are the canonical forms of the registered
  ones, each once, in ascending order; when canonical forms parse to themselves, each of them is
  found again by \<open>Supports\<close>.
\<close>

theorem SupportedMediaTypes_exact:
  assumes "wire parse (NewRegistry opts) es = Some r"
  shows "sorted_wrt (<) (SupportedMediaTypes r)
    \<and> set (SupportedMediaTypes r) = {k. \<exists>mt \<in> fst ` set es. parse mt = Some k}
    \<and> ((\<forall>mt k. parse mt = Some k \<longrightarrow> parse k = Some k) \<longrightarrow>
        (\<forall>k \<in> set (SupportedMediaTypes r). Supports parse r k))"
proof -
  have k: "distinct (map fst (extractors r))"
    "set (map fst (extractors r)) = {k. \<exists>mt \<in> fst ` set es. parse mt = Some k}"
    using wire_keys [OF assms] by simp_all
  have "Supports parse r k"
    if "k \<in> set (map fst (extractors r))" "\<forall>mt k. parse mt = Some k \<longrightarrow> parse k = Some k" for k
  proof -
    have "parse k = Some k" using that k(2) by blast
    then show ?thesis using that(1) by (simp add: Supports_def Get_iff map_of_eq_None_iff)
  qed
  then show ?thesis
    using k by (simp add: SupportedMediaTypes_def strict_sorted_iff)
qed

subsection \<open>Extraction\<close>

lemma Registry_Extract_dispatch:
  assumes "parentID \<noteq> []" and "parse mt = Some key" and "map_of (extractors r) key = Some e"
  shows "Registry_Extract parse r ctx mt rd parentID opts s =
    map_option (\<lambda>(res, st). (res, snd st))
      (e (lift_ctx ctx) (limit_read (foldl (\<lambda>m fn. fn m) (maxBytes r) opts) rd)
         (foldl (\<lambda>m fn. fn m) (maxBytes r) opts, s) parentID)"
  using assms by (simp add: Registry_Extract_def canonicalMediaType_def Let_def)

text \<open>
  The registry rejects, in this order and without reading a byte, an empty parent, a media
  type that does not parse, and one nobody registered.
\<close>

theorem Registry_Extract_rejects:
  "(parentID = [] \<longrightarrow> Registry_Extract parse r ctx mt rd parentID opts s = Some (Inl ErrMissingParentID, s))
   \<and> (parentID \<noteq> [] \<and> parse mt = None \<longrightarrow>
       Registry_Extract parse r ctx mt rd parentID opts s = Some (Inl (ErrInvalidMediaType mt), s))
   \<and> (parentID \<noteq> [] \<and> parse mt = Some key \<and> \<not> Supports parse r mt \<longrightarrow>
       Registry_Extract parse r ctx mt rd parentID opts s = Some (Inl (ErrUnsupportedMediaType key), s))"
  by (auto simp: Registry_Extract_def canonicalMediaType_def Supports_def Get_iff Let_def)

lemma registry_text:
  assumes "Get parse r mt = Some (TextExtractor grow)" and "parentID \<noteq> []"
    and "source rd rest" and "calm_ctx ctx" and "aside ctx rest" and "growing grow"
    and "limit = foldl (\<lambda>m fn. fn m) (maxBytes r) opts" and "0 \<le> limit" and "limit < 2 ^ 63 - 1"
    and "tx = NormalizeWhitespace (coerce_utf8 (rest s))"
  shows "\<exists>s'. Registry_Extract parse r ctx mt rd parentID opts s = Some (
      if limit < len (rest s) then Inl (ReadSource (SourceTooLarge limit))
      else if tx = [] then Inl ErrNoContent
      else Inr [TextArtifact parentID tx], s')
    \<and> ValidString tx \<and> unassigned parentID (TextArtifact parentID tx)"
proof -
  obtain key where key: "parse mt = Some key" "map_of (extractors r) key = Some (TextExtractor grow)"
    using assms(1) by (auto simp: Get_iff split: option.splits)
  obtain st where st: "ReadAll grow (lift_ctx ctx) (limit_read limit rd) (limit, s) =
      Some (if len (rest s) \<le> limit then Inr (rest s) else Inl (ReadSource (SourceTooLarge limit)), st)"
    using ReadAll_limited [OF assms(3-6,8,9)] by blast
  have "Registry_Extract parse r ctx mt rd parentID opts s = map_option (\<lambda>(res, st). (res, snd st))
      (TextExtractor grow (lift_ctx ctx) (limit_read limit rd) (limit, s) parentID)"
    unfolding assms(7) by (rule Registry_Extract_dispatch) (fact assms key)+
  then show ?thesis
    using st by (auto simp: TextExtractor_def Let_def assms(10) unassigned_def TextArtifact_def
        MediaTypeText_def NormalizeWhitespace_valid coerce_valid)
qed


end
