(* ===== verification/Extract_Examples.thy ===== *)
theory Extract_Examples
  imports Extract_Registry
begin

text \<open>
  The properties of reading and of the registry at work on concrete readers and registries, and
  the limit at which the limit reader overflows.
\<close>

subsection \<open>The largest limit\<close>

text \<open>
  With the largest limit \<open>WithMaxBytes\<close> accepts, \<open>math.MaxInt64\<close>, extraction panics
  on the first read whatever the source: \<open>remaining + 1\<close> wraps around and the buffer is sliced
  with a negative length.
\<close>

theorem WithMaxBytes_maxint_panics:
  assumes "WithMaxBytes (2 ^ 63 - 1) = Some opt" and "Get parse r mt = Some (TextExtractor grow)"
    and "parentID \<noteq> []" and "calm_ctx ctx"
  shows "Registry_Extract parse r ctx mt rd parentID [opt] s = None"
proof -
  obtain key where key: "parse mt = Some key" "map_of (extractors r) key = Some (TextExtractor grow)"
    using assms(2) by (auto simp: Get_iff split: option.splits)
  have opt: "opt m = 2 ^ 63 - 1" for m using assms(1) by (auto simp: WithMaxBytes_def)
  have ctx: "fst (ctx s) = None" for s using assms(4) by (simp add: calm_ctx_def)
  have "limit_read (2 ^ 63 - 1) rd 512 (2 ^ 63 - 1, s) = None" for s
    by (simp add: limit_read_def add64_def wrap64_def)
  then have "io_ReadAll grow (ctx_read (lift_ctx ctx) (limit_read (2 ^ 63 - 1) rd)) (2 ^ 63 - 1, s) = None" for s
    using ctx by (simp add: io_ReadAll_def ctx_read_def read_all_loop.simps split: prod.split)
  then have "ReadAll grow (lift_ctx ctx) (limit_read (2 ^ 63 - 1) rd) (2 ^ 63 - 1, s) = None"
    using ctx by (simp add: ReadAll_def)
  moreover have "Registry_Extract parse r ctx mt rd parentID [opt] s =
      map_option (\<lambda>(res, st). (res, snd st))
        (TextExtractor grow (lift_ctx ctx) (limit_read (2 ^ 63 - 1) rd) (2 ^ 63 - 1, s) parentID)"
    using Registry_Extract_dispatch [where opts = "[opt]" and parse = parse and mt = mt and r = r
        and e = "TextExtractor grow" and ctx = ctx and rd = rd and s = s] assms(3) key opt by simp
  ultimately show ?thesis by (simp add: TextExtractor_def)
qed

subsection \<open>Concrete readers\<close>

text \<open>A reader of two bytes at a time, and a context that never ends.\<close>

definition drip :: "(string, 'e) reader" where
  "drip n d = bytes_read (min n 2) d"

definition quiet :: "('s, 'e) ctx" where
  "quiet s = (None, s)"

lemma drip_source: "source drip (\<lambda>d. d)"
proof (unfold_locales, goal_cases)
  case (5 n d b d')
  then show ?case by (auto simp: drip_def bytes_read_def split: if_splits)
qed (auto simp: drip_def bytes_read_def split: if_splits)

lemma quiet_calm: "calm_ctx quiet" "aside quiet rest"
  by (simp_all add: calm_ctx_def aside_def quiet_def)

definition quarter :: "nat \<Rightarrow> nat" where
  "quarter c = c + c div 4 + 1"

lemma growing_quarter: "growing quarter"
  by (simp add: quarter_def)

theorem ReadAll_limit_exact_witness:
  "\<exists>st. ReadAll quarter (lift_ctx quiet) (limit_read 5 drip) (5, ''hello!'') =
    Some (Inl (ReadSource (SourceTooLarge 5)) :: nat ExtractError + string, st)"
  using ReadAll_limit_exact [OF drip_source quiet_calm growing_quarter, of 5 "''hello!''", where 'b = nat]
  by simp

theorem ReadAll_never_truncates_witness:
  "\<exists>st. ReadAll quarter (lift_ctx quiet) (limit_read 5 drip) (5, ''hello'') =
      Some (Inr ''hello'' :: nat ExtractError + string, st) \<and> len ''hello'' \<le> 5"
proof -
  obtain st where st: "ReadAll quarter (lift_ctx quiet) (limit_read 5 drip) (5, ''hello'') =
      Some (Inr ''hello'' :: nat ExtractError + string, st)"
    using ReadAll_limited [OF drip_source quiet_calm growing_quarter, of 5 "''hello''", where 'b = nat]
    by auto
  from ReadAll_never_truncates [OF source.axioms(1) [OF drip_source] quiet_calm(2) st] st
  show ?thesis by auto
qed

subsection \<open>A registry\<close>

definition demo_parse :: "string \<Rightarrow> string option" where
  "demo_parse s = (let m = takeWhile (\<lambda>c. c \<noteq> CHR '';'') s in if m = [] then None else Some m)"

definition demo_wiring :: "(MediaType \<times> (int \<times> string, nat) Extractor) list" where
  "demo_wiring = [(''text/plain;charset=utf-8'', TextExtractor quarter), (''text/csv'', TextExtractor quarter)]"

definition demo_registry :: "(int \<times> string, nat) Extractor Registry" where
  "demo_registry = \<lparr>extractors = [(''text/csv'', TextExtractor quarter), (''text/plain'', TextExtractor quarter)],
     maxBytes = DefaultMaxBytes\<rparr>"

lemma demo_wired: "wire demo_parse (NewRegistry []) demo_wiring = Some demo_registry"
  by (simp add: demo_wiring_def demo_registry_def demo_parse_def Register_iff NewRegistry_def Let_def)

theorem SupportedMediaTypes_exact_witness:
  "set (SupportedMediaTypes demo_registry) = {k. \<exists>mt \<in> fst ` set demo_wiring. demo_parse mt = Some k}"
  using SupportedMediaTypes_exact [OF demo_wired] by simp


theorem WithMaxBytes_maxint_panics_witness:
  "Registry_Extract demo_parse demo_registry quiet ''text/csv'' drip ''src'' [\<lambda>_. 2 ^ 63 - 1] ''x'' = None"
  by (rule WithMaxBytes_maxint_panics [OF _ _ _ quiet_calm(1)])
    (simp_all add: WithMaxBytes_def Get_iff demo_parse_def demo_registry_def Let_def)

end
