(* ===== verification/Ooxml.thy ===== *)
theory Ooxml
  imports Extract_Examples
begin

text \<open>
  What \<^verbatim>\<open>extract/docx/docx.go\<close> and \<^verbatim>\<open>extract/pptx/pptx.go\<close> share: the reader
  that caps the decompressed bytes, and the loop that turns the tokens of a part into text. The
  zip reader, the decompressor and the XML decoder are arguments (the record \<open>Ooxml\<close>). A
  decoder is a state \<open>'d\<close> that pulls its bytes from the reader it is given, whose state is the
  remaining budget and the state \<open>'z\<close> of the decompressor; a result \<open>None\<close> is a panic or a
  loop that does not end.
\<close>

subsection \<open>The world outside\<close>

text \<open>The causes a malformed source can carry, those of the libraries being \<open>Lib\<close>.\<close>

datatype 'x Cause =
    Lib 'x
  | NoDocumentPart
  | NoSlides
  | NotesNotFound string string
  | DecompressedTooLarge

datatype XmlToken = StartElement string | EndElement string | CharData string | OtherToken

record ('z, 'x) ZipFile =
  zf_Name :: string
  zf_Open :: "'x Cause + 'z"

record Relationship =
  rel_ID :: string
  rel_Type :: string
  rel_Target :: string

record ('z, 'd, 'x) Ooxml =
  zip_NewReader :: "string \<Rightarrow> 'x Cause + ('z, 'x) ZipFile list"
  inflate :: "('z, 'x Cause) reader"
  xml_NewDecoder :: 'd
  xml_Token :: "(int \<times> 'z, 'x Cause) reader \<Rightarrow> 'd \<Rightarrow> int \<times> 'z \<Rightarrow>
    (('x Cause option + XmlToken) \<times> 'd \<times> int \<times> 'z) option"
  xml_presentation :: "string \<Rightarrow> 'x Cause + string list"
  xml_relationships :: "string \<Rightarrow> 'x Cause + Relationship list"
  sort_slides :: "(int \<times> ('z, 'x) ZipFile) list \<Rightarrow> (int \<times> ('z, 'x) ZipFile) list"

subsection \<open>The capped reader\<close>

definition capped_read :: "('z, 'x Cause) reader \<Rightarrow> (int \<times> 'z, 'x Cause) reader" where
  "capped_read rd n st =
     (let (remaining, z) = st in
      if remaining < 0 then Some (([], Failed DecompressedTooLarge), st)
      else do {
        p \<leftarrow> (if add64 remaining 1 < int n
               then (if add64 remaining 1 < 0 then None else Some (nat (add64 remaining 1)))
               else Some n);
        r \<leftarrow> rd p z;
        let remaining' = remaining - len (fst (fst r)) in
        Some (if remaining' < 0
              then ((fst (fst r), Failed DecompressedTooLarge), (remaining', snd r))
              else (fst r, (remaining', snd r))) })"

subsection \<open>Tokens to text\<close>

text \<open>One token: the flag \<open>inText\<close> and the text so far.\<close>

fun token_step :: "XmlToken \<Rightarrow> bool \<times> string \<Rightarrow> bool \<times> string" where
  "token_step (StartElement name) (inText, b) = (if name = ''t'' then (True, b) else (inText, b))"
| "token_step (EndElement name) (inText, b) =
     (if name = ''t'' then (False, b)
      else if name = ''p'' then (inText, b @ [LF, LF])
      else (inText, b))"
| "token_step (CharData d) (inText, b) = (inText, if inText then b @ d else b)"
| "token_step OtherToken (inText, b) = (inText, b)"

text \<open>
  The loop over the tokens: it looks at the context before each one. The result is an aborted
  read (\<open>Inl (Inl err)\<close>), a cause (\<open>Inl (Inr c)\<close>) or the text, with the reader's state.
\<close>

partial_function (option) token_loop ::
  "('w, 'x Cause) ctx \<Rightarrow> ('d \<Rightarrow> int \<times> 'z \<Rightarrow> (('x Cause option + XmlToken) \<times> 'd \<times> int \<times> 'z) option) \<Rightarrow>
   'd \<Rightarrow> bool \<times> string \<Rightarrow> int \<times> 'z \<Rightarrow> 'w \<Rightarrow>
   ((('x Cause + 'x Cause) + string) \<times> (int \<times> 'z) \<times> 'w) option" where
  "token_loop ctx tok d acc st w =
     (case ctx w of
        (Some err, w') \<Rightarrow> Some (Inl (Inl err), st, w')
      | (None, w') \<Rightarrow>
          do { r \<leftarrow> tok d st;
               (case fst r of
                  Inl None \<Rightarrow> Some (Inr (snd acc), snd (snd r), w')
                | Inl (Some c) \<Rightarrow> Some (Inl (Inr c), snd (snd r), w')
                | Inr t \<Rightarrow> token_loop ctx tok (fst (snd r)) (token_step t acc) (snd (snd r)) w') })"

declare token_loop.simps [code, go_eval]
declare capped_read_def [go_eval] token_step.simps [go_eval]

subsection \<open>A decoder that delivers a list of tokens\<close>

fun delivers ::
  "('d \<Rightarrow> int \<times> 'z \<Rightarrow> (('x Cause option + XmlToken) \<times> 'd \<times> int \<times> 'z) option) \<Rightarrow> 'd \<Rightarrow> int \<times> 'z \<Rightarrow>
   XmlToken list \<Rightarrow> bool" where
  "delivers tok d st [] \<longleftrightarrow> (\<exists>d' st'. tok d st = Some (Inl None, d', st'))"
| "delivers tok d st (t # ts) \<longleftrightarrow>
     (\<exists>d' st'. tok d st = Some (Inr t, d', st') \<and> delivers tok d' st' ts)"

lemma token_loop_delivers:
  assumes "calm_ctx ctx" and "delivers tok d st ts"
  shows "\<exists>st' w'. token_loop ctx tok d acc st w =
    Some (Inr (snd (foldl (\<lambda>a t. token_step t a) acc ts)), st', w')"
  using assms(2)
proof (induction ts arbitrary: d st acc w)
  case Nil
  obtain w1 where w: "ctx w = (None, w1)" using assms(1) unfolding calm_ctx_def by (metis prod.collapse)
  then show ?case using Nil by (subst token_loop.simps) auto
next
  case (Cons t ts)
  then obtain d' st' where t: "tok d st = Some (Inr t, d', st')" "delivers tok d' st' ts" by auto
  obtain w1 where w: "ctx w = (None, w1)" using assms(1) unfolding calm_ctx_def by (metis prod.collapse)
  show ?case using Cons.IH [OF t(2)] t(1) w by (subst token_loop.simps) auto
qed

text \<open>
  Paragraphs as the two formats write them: runs of text, and markup that is no text element and
  ends no paragraph, character data between elements included.
\<close>

datatype Item = Run string | Markup XmlToken

fun neutral :: "XmlToken \<Rightarrow> bool" where
  "neutral (StartElement name) \<longleftrightarrow> name \<noteq> ''t''"
| "neutral (EndElement name) \<longleftrightarrow> name \<notin> {''t'', ''p''}"
| "neutral _ \<longleftrightarrow> True"

fun item_tokens :: "Item \<Rightarrow> XmlToken list" where
  "item_tokens (Run s) =
     [StartElement ''r'', StartElement ''t'', CharData s, EndElement ''t'', EndElement ''r'']"
| "item_tokens (Markup t) = [t]"

fun item_text :: "Item \<Rightarrow> string" where
  "item_text (Run s) = s"
| "item_text (Markup t) = []"

definition para_text :: "Item list \<Rightarrow> string" where
  "para_text p = concat (map item_text p)"

definition part_tokens :: "Item list list \<Rightarrow> XmlToken list" where
  "part_tokens ps = StartElement ''body'' #
     concat (map (\<lambda>p. StartElement ''p'' # concat (map item_tokens p) @ [EndElement ''p'']) ps) @
     [EndElement ''body'']"

definition well_formed :: "Item list list \<Rightarrow> bool" where
  "well_formed ps \<longleftrightarrow> (\<forall>p \<in> set ps. \<forall>t. Markup t \<in> set p \<longrightarrow> neutral t)"

abbreviation read_tokens :: "bool \<times> string \<Rightarrow> XmlToken list \<Rightarrow> bool \<times> string" where
  "read_tokens \<equiv> foldl (\<lambda>a t. token_step t a)"

lemma read_item:
  "(\<forall>t. i = Markup t \<longrightarrow> neutral t) \<Longrightarrow> read_tokens (False, b) (item_tokens i) = (False, b @ item_text i)"
  by (cases i rule: item_tokens.cases) (auto elim!: neutral.elims split: if_splits)

lemma read_items:
  "\<forall>t. Markup t \<in> set p \<longrightarrow> neutral t \<Longrightarrow>
     read_tokens (False, b) (concat (map item_tokens p)) = (False, b @ para_text p)"
  by (induction p arbitrary: b) (auto simp: read_item para_text_def)

lemma read_part:
  assumes "well_formed ps"
  shows "read_tokens (False, b) (part_tokens ps) =
    (False, b @ concat (map (\<lambda>p. para_text p @ [LF, LF]) ps))"
proof -
  have "read_tokens (False, b)
      (concat (map (\<lambda>p. StartElement ''p'' # concat (map item_tokens p) @ [EndElement ''p'']) ps)) =
    (False, b @ concat (map (\<lambda>p. para_text p @ [LF, LF]) ps))"
    using assms by (induction ps arbitrary: b) (auto simp: well_formed_def read_items)
  then show ?thesis by (simp add: part_tokens_def)
qed

text \<open>One-line paragraphs that are trimmed and not blank survive normalization as they are.\<close>

definition plain_line :: "string \<Rightarrow> bool" where
  "plain_line t \<longleftrightarrow> t \<noteq> [] \<and> LF \<notin> set t \<and> TrimSpace t = t"

lemma normalize_plain:
  assumes "list_all plain_line ts"
  shows "NormalizeWhitespace (concat (map (\<lambda>t. t @ [LF, LF]) ts)) = join_string [LF, LF] ts"
proof -
  have split: "split_byte LF (concat (map (\<lambda>t. t @ [LF, LF]) ts)) = concat (map (\<lambda>t. [t, []]) ts) @ [[]]"
    using assms by (induction ts) (auto simp: plain_line_def split_byte_append)
  have trim: "map TrimSpace (concat (map (\<lambda>t. [t, []]) ts) @ [[]]) = concat (map (\<lambda>t. [t, []]) ts) @ [[]]"
    using assms by (induction ts) (auto simp: plain_line_def)
  have "paras (concat (map (\<lambda>t. [t, []]) ts) @ [[]]) = map (\<lambda>t. [t]) ts"
    using assms by (induction ts) (auto simp: plain_line_def)
  moreover have "proper (map (\<lambda>t. [t]) ts)"
    using assms by (auto simp: proper_def plain_line_def list_all_iff)
  ultimately show ?thesis
    by (simp only: NormalizeWhitespace_body split trim) (simp add: join_body comp_def)
qed

subsection \<open>The cap\<close>

lemma capped_read_Some:
  assumes "capped_read rd n (rem, z) = Some ((b, st), (rem', z'))"
  shows "rem < 0 \<and> b = [] \<and> st = Failed DecompressedTooLarge \<and> rem' = rem \<and> z' = z
    \<or> 0 \<le> rem \<and> rem' = rem - len b
      \<and> (\<exists>p st'. p \<le> n \<and> (rem < 2 ^ 63 - 1 \<longrightarrow> int p \<le> rem + 1) \<and> rd p z = Some ((b, st'), z')
           \<and> st = (if rem' < 0 then Failed DecompressedTooLarge else st'))"
proof (cases "rem < 0")
  case False
  define p where "p = (if add64 rem 1 < int n then nat (add64 rem 1) else n)"
  have "p \<le> n" by (auto simp: p_def)
  moreover have "int p \<le> rem + 1" if "rem < 2 ^ 63 - 1"
    using that False add64_id [of rem 1] by (auto simp: p_def)
  moreover obtain st' where "rd p z = Some ((b, st'), z')" "rem' = rem - len b"
    "st = (if rem' < 0 then Failed DecompressedTooLarge else st')"
    using assms False
    by (auto simp: capped_read_def Let_def bind_eq_Some p_def split: if_splits)
  ultimately show ?thesis using False by auto
qed (use assms in \<open>auto simp: capped_read_def\<close>)

text \<open>Any sequence of reads a decoder may make, and the bytes it gets.\<close>

fun read_seq :: "('s, 'e) reader \<Rightarrow> nat list \<Rightarrow> 's \<Rightarrow> (string \<times> 's) option" where
  "read_seq rd [] s = Some ([], s)"
| "read_seq rd (n # ns) s =
     do { r \<leftarrow> rd n s; q \<leftarrow> read_seq rd ns (snd r); Some (fst (fst r) @ fst q, snd q) }"

lemma capped_seq:
  assumes "stream rd rest" and "0 \<le> rem" and "rem < 2 ^ 63 - 1"
    and "read_seq (capped_read rd) ns (rem, z) = Some (b, (rem', z'))"
  shows "rem' = rem - len b \<and> - 1 \<le> rem'"
proof -
  have "rem' = rem - len b \<and> - 1 \<le> rem'" if "-1 \<le> rem" "rem < 2 ^ 63 - 1"
    "read_seq (capped_read rd) ns (rem, z) = Some (b, (rem', z'))" for rem b z
    using that
  proof (induction ns arbitrary: rem z b)
    case (Cons n ns)
    obtain c st rem1 z1 b' where r: "capped_read rd n (rem, z) = Some ((c, st), (rem1, z1))"
      "read_seq (capped_read rd) ns (rem1, z1) = Some (b', (rem', z'))" "b = c @ b'"
      using Cons.prems(3) by (auto simp: bind_eq_Some)
    have "rem1 = rem - len c \<and> - 1 \<le> rem1"
      using capped_read_Some [OF r(1)] Cons.prems(1,2) stream.read_fits [OF assms(1)]
      by (auto, force)
    then show ?case using Cons.IH [OF _ _ r(2)] Cons.prems(2) r(3) by auto
  qed simp
  from this [OF _ assms(3,4)] assms(2) show ?thesis by simp
qed

text \<open>
  The zip-bomb guard. Whatever reads a decoder makes, and however much the part expands, it
  is handed at most one byte more than the budget; a budget that went below zero is refused from
  then on without reading.
\<close>

theorem capped_read_bounds:
  assumes "stream rd rest" and "0 \<le> budget" and "budget < 2 ^ 63 - 1"
    and "read_seq (capped_read rd) ns (budget, z) = Some (b, (remaining, z'))"
  shows "len b \<le> budget + 1 \<and> remaining = budget - len b
    \<and> (budget < len b \<longrightarrow> capped_read rd n (remaining, z') =
         Some (([], Failed DecompressedTooLarge), (remaining, z')))"
  using capped_seq [OF assms] by (simp add: capped_read_def)

theorem capped_read_bounds_witness:
  "\<exists>b z rem. read_seq (capped_read bytes_read) [2, 9, 9] (3, ''abcdefgh'') =
      Some (b, (rem, z)) \<and> len b \<le> 3 + 1 \<and> rem = 3 - len b \<and>
    capped_read bytes_read 5 (rem, z) = Some (([], Failed DecompressedTooLarge), (rem, z))"
proof -
  have seq: "read_seq (capped_read bytes_read) [2, 9, 9] (3, ''abcdefgh'') = Some (''abcd'', (- 1, ''efgh''))"
    by (simp add: capped_read_def bytes_read_def add64_def wrap64_def)
  show ?thesis
    by (rule exI [of _ "''abcd''"], rule exI [of _ "''efgh''"], rule exI [of _ "- 1"])
      (use capped_read_bounds [OF bytes.stream_axioms _ _ seq, of 5] seq in \<open>simp del: read_seq.simps\<close>)
qed

end
