(* ===== verification/Docx.thy ===== *)
theory Docx
  imports Ooxml
begin

text \<open>
  \<^verbatim>\<open>extract/docx/docx.go\<close>: the body text of a Word document. The round trip writes a
  document's paragraphs as tokens and reads them back.
\<close>

definition MediaTypeDocx :: MediaType where
  "MediaTypeDocx = ''application/vnd.openxmlformats-officedocument.wordprocessingml.document''"

definition documentPart :: string where
  "documentPart = ''word/document.xml''"

fun openDocumentPart :: "('z, 'x) ZipFile list \<Rightarrow> 'x Cause + 'z" where
  "openDocumentPart [] = Inl NoDocumentPart"
| "openDocumentPart (f # files) =
     (if zf_Name f = documentPart then zf_Open f else openDocumentPart files)"

definition DefaultMaxDecompressedBytes :: int where
  "DefaultMaxDecompressedBytes = 64 * 2 ^ 20"

definition maxDecompressed :: "int \<Rightarrow> int" where
  "maxDecompressed configured = (if configured \<le> 0 then DefaultMaxDecompressedBytes else configured)"

text \<open>
  The package has its own capped reader, with the same text as the one of \<open>Ooxml\<close>.
\<close>

definition docx_capped_read :: "('z, 'x Cause) reader \<Rightarrow> (int \<times> 'z, 'x Cause) reader" where
  "docx_capped_read rd n st =
     (let (remaining, z) = st in
      if remaining < 0 then Some (([], Failed DecompressedTooLarge), st)
      else do {
        p \<leftarrow> (if add64 remaining 1 < int n
               then (if add64 remaining 1 < 0 then None else Some (nat (add64 remaining 1)))
               else Some n);
        r \<leftarrow> rd p z;
        let remaining' = remaining - len (fst (fst r)) in
        Some (if remaining' < 0
              then ((fst (fst r), Failed DecompressedTooLarge), (remaining', snd r))
              else (fst r, (remaining', snd r))) })"

lemma docx_capped_read_eq [simp]: "docx_capped_read = capped_read"
  by (simp add: fun_eq_iff docx_capped_read_def capped_read_def)

definition decodeBodyText ::
  "('z, 'd, 'x) Ooxml \<Rightarrow> ('w, 'x Cause) ctx \<Rightarrow> 'z \<Rightarrow> int \<Rightarrow> 'w \<Rightarrow>
   (('x Cause ExtractError + string) \<times> 'w) option" where
  "decodeBodyText X ctx doc budget w =
     do { r \<leftarrow> token_loop ctx (xml_Token X (docx_capped_read (inflate X))) (xml_NewDecoder X)
                (False, []) (budget, doc) w;
          Some (case fst r of
                  Inl (Inl err) \<Rightarrow> Inl (Unwrapped err)
                | Inl (Inr c) \<Rightarrow> Inl (MalformedSource MediaTypeDocx c)
                | Inr tx \<Rightarrow> Inr tx, snd (snd r)) }"

definition DocxExtractor ::
  "('z, 'd, 'x) Ooxml \<Rightarrow> int \<Rightarrow> (nat \<Rightarrow> nat) \<Rightarrow> ('s, 'x Cause) Extractor" where
  "DocxExtractor X cap grow ctx rd s parentID =
     do { r \<leftarrow> ReadAll grow ctx rd s;
          (case fst r of
             Inl err \<Rightarrow> Some (Inl err, snd r)
           | Inr data \<Rightarrow>
               (case zip_NewReader X data of
                  Inl c \<Rightarrow> Some (Inl (MalformedSource MediaTypeDocx c), snd r)
                | Inr files \<Rightarrow>
                    (case openDocumentPart files of
                       Inl c \<Rightarrow> Some (Inl (MalformedSource MediaTypeDocx c), snd r)
                     | Inr doc \<Rightarrow>
                         do { d \<leftarrow> decodeBodyText X ctx doc (maxDecompressed cap) (snd r);
                              Some (case fst d of
                                      Inl err \<Rightarrow> Inl err
                                    | Inr tx0 \<Rightarrow>
                                        let tx = NormalizeWhitespace tx0 in
                                        if tx = [] then Inl ErrNoContent
                                        else Inr [TextArtifact parentID tx], snd d) }))) }"

declare DefaultMaxDecompressedBytes_def [go_eval] maxDecompressed_def [go_eval] MediaTypeDocx_def [go_eval] documentPart_def [go_eval] decodeBodyText_def [go_eval]
  DocxExtractor_def [go_eval]

subsection \<open>Round trip\<close>

lemma decodeBodyText_paragraphs:
  assumes "calm_ctx ctx" and "well_formed ps"
    and "delivers (xml_Token X (capped_read (inflate X))) (xml_NewDecoder X) (budget, doc) (part_tokens ps)"
  shows "\<exists>w'. decodeBodyText X ctx doc budget w =
    Some (Inr (concat (map (\<lambda>t. t @ [LF, LF]) (map para_text ps))), w')"
  using token_loop_delivers [OF assms(1,3), of "(False, [])" w] read_part [OF assms(2), of "[]"]
  by (auto simp: decodeBodyText_def comp_def)


text \<open>A decoder whose state is the tokens that are left, and an archive of one part.\<close>

definition demo_items :: "Item list list" where
  "demo_items = [[Markup (CharData ''  ''), Run ''Hel'', Run ''lo''], [Run ''World'', Markup (StartElement ''tab'')]]"

definition demo_docx :: "(string, XmlToken list, nat) Ooxml" where
  "demo_docx = \<lparr>zip_NewReader = (\<lambda>data. Inr [\<lparr>zf_Name = documentPart, zf_Open = Inr data\<rparr>]),
     inflate = bytes_read, xml_NewDecoder = part_tokens demo_items,
     xml_Token = (\<lambda>rd ts st. case ts of [] \<Rightarrow> Some (Inl None, [], st) | t # ts' \<Rightarrow> Some (Inr t, ts', st)),
     xml_presentation = (\<lambda>_. Inr []), xml_relationships = (\<lambda>_. Inr []), sort_slides = sort_key fst\<rparr>"

lemma demo_delivers:
  "delivers (\<lambda>ts st. case ts of [] \<Rightarrow> Some (Inl None, [], st) | t # ts' \<Rightarrow> Some (Inr t, ts', st)) ts st ts"
  by (induction ts) auto


end
