(* ===== verification/Pptx.thy ===== *)
theory Pptx
  imports Ooxml
begin

text \<open>
  \<^verbatim>\<open>extract/pptx/pptx.go\<close>: slides and speaker notes in presentation order, under one
  budget of decompressed bytes. The names of parts are handled with package \<^verbatim>\<open>path\<close>
  and \<^verbatim>\<open>strconv\<close>, which come first.
\<close>

subsection \<open>Paths and numbers\<close>

text \<open>
  \<open>path.Clean\<close>, by elements: empty elements and \<open>.\<close> go, \<open>..\<close> takes back the
  element before it, or goes in a rooted path, or stays in front of a relative one. The elements
  kept so far are in reverse.
\<close>

abbreviation SLASH :: char where "SLASH \<equiv> CHR ''/''"

fun clean_elems :: "bool \<Rightarrow> string list \<Rightarrow> string list \<Rightarrow> string list" where
  "clean_elems rooted [] out = rev out"
| "clean_elems rooted (e # es) out =
     (if e = [] \<or> e = ''.'' then clean_elems rooted es out
      else if e = ''..'' then
        (case out of
           x # xs \<Rightarrow> if x = ''..'' then clean_elems rooted es (e # out) else clean_elems rooted es xs
         | [] \<Rightarrow> clean_elems rooted es (if rooted then [] else [e]))
      else clean_elems rooted es (e # out))"

definition path_Clean :: "string \<Rightarrow> string" where
  "path_Clean p =
     (let rooted = (p \<noteq> [] \<and> hd p = SLASH);
          q = (if rooted then [SLASH] else []) @ join_byte SLASH (clean_elems rooted (split_byte SLASH p) [])
      in if q = [] then ''.'' else q)"

definition path_Join :: "string \<Rightarrow> string \<Rightarrow> string" where
  "path_Join a b =
     (if a = [] \<and> b = [] then []
      else path_Clean (if a = [] then b else if b = [] then a else a @ SLASH # b))"

text \<open>\<open>path.Dir\<close> and \<open>path.Base\<close>: before and after the last slash.\<close>

definition path_Dir :: "string \<Rightarrow> string" where
  "path_Dir p = path_Clean (rev (dropWhile (\<lambda>c. c \<noteq> SLASH) (rev p)))"

definition path_Base :: "string \<Rightarrow> string" where
  "path_Base p =
     (if p = [] then ''.''
      else let q = TrimRight p [SLASH]; b = rev (takeWhile (\<lambda>c. c \<noteq> SLASH) (rev q)) in
           if b = [] then [SLASH] else b)"

text \<open>\<open>strconv.Atoi\<close>: an optional sign and decimal digits within 64 bits, \<open>None\<close> otherwise.\<close>

definition digit :: "char \<Rightarrow> bool" where
  "digit c \<longleftrightarrow> 48 \<le> (byte_val c :: nat) \<and> byte_val c \<le> (57 :: nat)"

definition digits_val :: "string \<Rightarrow> int" where
  "digits_val = foldl (\<lambda>n c. 10 * n + int (byte_val c - 48)) 0"

definition Atoi :: "string \<Rightarrow> int option" where
  "Atoi s =
     (let neg = (s \<noteq> [] \<and> hd s = CHR ''-'');
          ds = (if s \<noteq> [] \<and> hd s \<in> {CHR ''-'', CHR ''+''} then tl s else s) in
      if ds = [] \<or> \<not> list_all digit ds then None
      else let n = (if neg then - digits_val ds else digits_val ds) in
           if int64_ok n then Some n else None)"

subsection \<open>Names of parts\<close>

definition MediaTypePptx :: MediaType where
  "MediaTypePptx = ''application/vnd.openxmlformats-officedocument.presentationml.presentation''"

definition pptx_DefaultMaxDecompressedBytes :: int where
  "pptx_DefaultMaxDecompressedBytes = 64 * 2 ^ 20"

definition pptx_maxDecompressed :: "int \<Rightarrow> int" where
  "pptx_maxDecompressed configured =
     (if configured \<le> 0 then pptx_DefaultMaxDecompressedBytes else configured)"

definition presentationDir :: string where "presentationDir = ''ppt''"
definition slidesDir :: string where "slidesDir = ''ppt/slides/''"
definition slidePrefix :: string where "slidePrefix = slidesDir @ ''slide''"
definition xmlSuffix :: string where "xmlSuffix = ''.xml''"
definition presentationPart :: string where "presentationPart = ''ppt/presentation.xml''"
definition presentationRelsPart :: string where
  "presentationRelsPart = ''ppt/_rels/presentation.xml.rels''"
definition notesRelType :: string where
  "notesRelType = ''http://schemas.openxmlformats.org/officeDocument/2006/relationships/notesSlide''"

definition isSlidePart :: "string \<Rightarrow> bool" where
  "isSlidePart name \<longleftrightarrow> prefix slidePrefix name \<and> suffix xmlSuffix name"

text \<open>
  The slice between prefix and suffix; \<open>None\<close> is a panic, when the two overlap in the name.
  The order of slides with equal numbers is the sorting function's.
\<close>

fun slide_list :: "('z, 'x) ZipFile list \<Rightarrow> (int \<times> ('z, 'x) ZipFile) list option" where
  "slide_list [] = Some []"
| "slide_list (f # files) =
     (if \<not> isSlidePart (zf_Name f) then slide_list files
      else do { mid \<leftarrow> slice (zf_Name f) (len slidePrefix) (len (zf_Name f) - len xmlSuffix);
                rest \<leftarrow> slide_list files;
                Some (case Atoi mid of None \<Rightarrow> rest | Some n \<Rightarrow> (n, f) # rest) })"

definition sortedSlides ::
  "('z, 'd, 'x) Ooxml \<Rightarrow> ('z, 'x) ZipFile list \<Rightarrow> (int \<times> ('z, 'x) ZipFile) list option" where
  "sortedSlides X files = map_option (sort_slides X) (slide_list files)"

text \<open>\<open>byName\<close>: for a name that occurs twice in the archive, the last file wins.\<close>

definition byName :: "('z, 'x) ZipFile list \<Rightarrow> string \<rightharpoonup> ('z, 'x) ZipFile" where
  "byName files = foldl (\<lambda>m f. m(zf_Name f \<mapsto> f)) Map.empty files"

fun resolve_ordered ::
  "string list \<Rightarrow> (string \<rightharpoonup> ('z, 'x) ZipFile) \<Rightarrow> string set \<Rightarrow> ('z, 'x) ZipFile list \<Rightarrow>
   string set \<times> ('z, 'x) ZipFile list" where
  "resolve_ordered [] m seen out = (seen, out)"
| "resolve_ordered (name # names) m seen out =
     (if \<not> isSlidePart name \<or> name \<in> seen then resolve_ordered names m seen out
      else (case m name of
              Some f \<Rightarrow> resolve_ordered names m (insert name seen) (out @ [f])
            | None \<Rightarrow> resolve_ordered names m seen out))"

fun resolve_files ::
  "(int \<times> ('z, 'x) ZipFile) list \<Rightarrow> string set \<Rightarrow> ('z, 'x) ZipFile list \<Rightarrow> ('z, 'x) ZipFile list"
  where
  "resolve_files [] seen out = out"
| "resolve_files ((n, f) # fs) seen out =
     (if zf_Name f \<in> seen then resolve_files fs seen out
      else resolve_files fs (insert (zf_Name f) seen) (out @ [f]))"

definition resolveOrder ::
  "string list \<Rightarrow> (int \<times> ('z, 'x) ZipFile) list \<Rightarrow> (string \<rightharpoonup> ('z, 'x) ZipFile) \<Rightarrow>
   ('z, 'x) ZipFile list" where
  "resolveOrder ordered fileSlides m =
     (let (seen, out) = resolve_ordered ordered m {} [] in resolve_files fileSlides seen out)"

subsection \<open>Reading parts under the budget\<close>

text \<open>
  The state of \<open>partDecoder\<close> is the remaining budget; every operation returns what is left. The
  context acts on a state of its own, \<open>'w\<close>.
\<close>

type_synonym 'x PptxError = "'x Cause ExtractError"

definition malformed :: "'x Cause \<Rightarrow> 'x PptxError" where
  "malformed c = MalformedSource MediaTypePptx c"

definition readPart ::
  "('z, 'd, 'x) Ooxml \<Rightarrow> (nat \<Rightarrow> nat) \<Rightarrow> ('z, 'x) ZipFile \<Rightarrow> int \<Rightarrow>
   (('x PptxError + string) \<times> int) option" where
  "readPart X grow f remaining =
     (case zf_Open f of
        Inl c \<Rightarrow> Some (Inl (malformed c), remaining)
      | Inr z \<Rightarrow>
          do { r \<leftarrow> io_ReadAll grow (capped_read (inflate X)) (remaining, z);
               Some (case snd (fst r) of
                       Some c \<Rightarrow> Inl (malformed c)
                     | None \<Rightarrow> Inr (fst (fst r)), fst (snd r)) })"

definition decode ::
  "('z, 'd, 'x) Ooxml \<Rightarrow> ('w, 'x Cause) ctx \<Rightarrow> ('z, 'x) ZipFile \<Rightarrow> int \<Rightarrow> 'w \<Rightarrow>
   (('x PptxError + string) \<times> int \<times> 'w) option" where
  "decode X ctx f remaining w =
     (case zf_Open f of
        Inl c \<Rightarrow> Some (Inl (malformed c), remaining, w)
      | Inr z \<Rightarrow>
          do { r \<leftarrow> token_loop ctx (xml_Token X (capped_read (inflate X))) (xml_NewDecoder X)
                     (False, []) (remaining, z) w;
               Some (case fst r of
                       Inl (Inl err) \<Rightarrow> Inl (Unwrapped err)
                     | Inl (Inr c) \<Rightarrow> Inl (malformed c)
                     | Inr tx \<Rightarrow> Inr tx, fst (fst (snd r)), snd (snd r)) })"

text \<open>Targets by relationship: for an identifier that occurs twice, the last one wins.\<close>

definition relMap :: "Relationship list \<Rightarrow> string \<rightharpoonup> string" where
  "relMap rels = foldl (\<lambda>m r. m(rel_ID r \<mapsto> rel_Target r)) Map.empty rels"

definition presentationOrder ::
  "('z, 'd, 'x) Ooxml \<Rightarrow> (nat \<Rightarrow> nat) \<Rightarrow> (string \<rightharpoonup> ('z, 'x) ZipFile) \<Rightarrow> int \<Rightarrow>
   (('x PptxError + string list) \<times> int) option" where
  "presentationOrder X grow m remaining =
     (case (m presentationPart, m presentationRelsPart) of
        (Some pres, Some relsF) \<Rightarrow>
          do { p \<leftarrow> readPart X grow pres remaining;
               (case fst p of
                  Inl err \<Rightarrow> Some (Inl err, snd p)
                | Inr presData \<Rightarrow>
                    do { q \<leftarrow> readPart X grow relsF (snd p);
                         Some (case fst q of
                                 Inl err \<Rightarrow> Inl err
                               | Inr relsData \<Rightarrow>
                                   Inr (case (xml_presentation X presData, xml_relationships X relsData) of
                                          (Inr rids, Inr rels) \<Rightarrow>
                                            map (path_Join presentationDir)
                                              (List.map_filter (relMap rels) rids)
                                        | _ \<Rightarrow> []), snd q) }) }
      | _ \<Rightarrow> Some (Inr [], remaining))"

fun notes_target :: "Relationship list \<Rightarrow> string option" where
  "notes_target [] = None"
| "notes_target (r # rels) =
     (if rel_Type r = notesRelType then Some (rel_Target r) else notes_target rels)"

definition notesFor ::
  "('z, 'd, 'x) Ooxml \<Rightarrow> (nat \<Rightarrow> nat) \<Rightarrow> (string \<rightharpoonup> ('z, 'x) ZipFile) \<Rightarrow> string \<Rightarrow> int \<Rightarrow>
   (('x PptxError + ('z, 'x) ZipFile option) \<times> int) option" where
  "notesFor X grow m slideName remaining =
     (let dir = path_Dir slideName; relsName = dir @ ''/_rels/'' @ path_Base slideName @ ''.rels'' in
      case m relsName of
        None \<Rightarrow> Some (Inr None, remaining)
      | Some relsF \<Rightarrow>
          do { p \<leftarrow> readPart X grow relsF remaining;
               Some (case fst p of
                       Inl err \<Rightarrow> Inl err
                     | Inr data \<Rightarrow>
                         (case xml_relationships X data of
                            Inl c \<Rightarrow> Inl (malformed c)
                          | Inr rels \<Rightarrow>
                              (case notes_target rels of
                                 None \<Rightarrow> Inr None
                               | Some t \<Rightarrow>
                                   (case m (path_Join dir t) of
                                      None \<Rightarrow> Inl (malformed (NotesNotFound (path_Join dir t) slideName))
                                    | Some nf \<Rightarrow> Inr (Some nf)))), snd p) })"

text \<open>The slides in turn, each followed by its notes.\<close>

fun slides_loop ::
  "('z, 'd, 'x) Ooxml \<Rightarrow> (nat \<Rightarrow> nat) \<Rightarrow> ('w, 'x Cause) ctx \<Rightarrow> (string \<rightharpoonup> ('z, 'x) ZipFile) \<Rightarrow>
   ('z, 'x) ZipFile list \<Rightarrow> string \<Rightarrow> int \<Rightarrow> 'w \<Rightarrow> (('x PptxError + string) \<times> int \<times> 'w) option" where
  "slides_loop X grow ctx m [] b remaining w = Some (Inr b, remaining, w)"
| "slides_loop X grow ctx m (sf # slides) b remaining w =
     (case ctx w of
        (Some err, w') \<Rightarrow> Some (Inl (Unwrapped err), remaining, w')
      | (None, w') \<Rightarrow>
          do { s \<leftarrow> decode X ctx sf remaining w';
               (case fst s of
                  Inl err \<Rightarrow> Some (Inl err, snd s)
                | Inr slideText \<Rightarrow>
                    do { n \<leftarrow> notesFor X grow m (zf_Name sf) (fst (snd s));
                         (case fst n of
                            Inl err \<Rightarrow> Some (Inl err, snd n, snd (snd s))
                          | Inr None \<Rightarrow>
                              slides_loop X grow ctx m slides (b @ slideText) (snd n) (snd (snd s))
                          | Inr (Some nf) \<Rightarrow>
                              do { t \<leftarrow> decode X ctx nf (snd n) (snd (snd s));
                                   (case fst t of
                                      Inl err \<Rightarrow> Some (Inl err, snd t)
                                    | Inr notesText \<Rightarrow>
                                        slides_loop X grow ctx m slides (b @ slideText @ notesText)
                                          (fst (snd t)) (snd (snd t))) }) }) })"

definition PptxExtractor ::
  "('z, 'd, 'x) Ooxml \<Rightarrow> int \<Rightarrow> (nat \<Rightarrow> nat) \<Rightarrow> ('s, 'x Cause) Extractor" where
  "PptxExtractor X cap grow ctx rd s parentID =
     do { r \<leftarrow> ReadAll grow ctx rd s;
          (case fst r of
             Inl err \<Rightarrow> Some (Inl err, snd r)
           | Inr data \<Rightarrow>
               (case zip_NewReader X data of
                  Inl c \<Rightarrow> Some (Inl (malformed c), snd r)
                | Inr files \<Rightarrow>
                    do { p \<leftarrow> presentationOrder X grow (byName files) (pptx_maxDecompressed cap);
                         (case fst p of
                            Inl err \<Rightarrow> Some (Inl err, snd r)
                          | Inr ordered \<Rightarrow>
                              do { sorted \<leftarrow> sortedSlides X files;
                                   let slides = resolveOrder ordered sorted (byName files);
                                   if slides = [] then Some (Inl (malformed NoSlides), snd r)
                                   else do {
                                     t \<leftarrow> slides_loop X grow ctx (byName files) slides [] (snd p) (snd r);
                                     Some (case fst t of
                                             Inl err \<Rightarrow> Inl err
                                           | Inr b \<Rightarrow>
                                               let tx = NormalizeWhitespace b in
                                               if tx = [] then Inl ErrNoContent
                                               else Inr [TextArtifact parentID tx], snd (snd t)) } }) })) }"

end
