(* ===== verification/Pdf.thy ===== *)
theory Pdf
  imports Extract_Examples
begin

text \<open>
  \<^verbatim>\<open>extract/pdf/pdf.go\<close> and \<^verbatim>\<open>extract/pdf/pdftotext/pdftotext.go\<close>: one
  artifact per page through a pluggable engine, and the engine that runs the \<open>pdftotext\<close>
  process. The process and the clock are the argument \<open>Process\<close>: what it writes to its output
  and its diagnostics, in the pieces the copying goroutines see, how it ended, and whether the
  engine's own timeout fired.
\<close>

subsection \<open>Pages and engines\<close>

definition MediaTypePdf :: MediaType where "MediaTypePdf = ''application/pdf''"
definition MetaPage :: string where "MetaPage = ''pdf.page''"
definition MetaEngine :: string where "MetaEngine = ''pdf.engine''"

datatype 'x PdfCause =
    ErrNoEngine
  | ErrEngineUnavailable string
  | ErrOutputTooLarge int
  | Canceled 'x
  | TimedOut
  | Exited int string
  | ExecFailed 'x
  | PdfLib 'x
  | ParserPanic 'x

record Page =
  Number :: int
  pg_Text :: string

record ('w, 'x) Engine =
  eng_Name :: string
  eng_Pages :: "('w, 'x PdfCause) ctx \<Rightarrow> string \<Rightarrow> 'w \<Rightarrow>
    (('x PdfCause ExtractError + Page list) \<times> 'w) option"

fun page_artifacts :: "string \<Rightarrow> string \<Rightarrow> Page list \<Rightarrow> Artifact list" where
  "page_artifacts parentID name [] = []"
| "page_artifacts parentID name (p # pages) =
     (let tx = NormalizeWhitespace (pg_Text p) in
      if tx = [] then page_artifacts parentID name pages
      else \<lparr>art_ID = [], art_MediaType = MediaTypeText, DerivedFrom = parentID, art_Text = tx,
             Blob = None, art_Metadata = [MetaPage \<mapsto> Itoa (Number p), MetaEngine \<mapsto> name]\<rparr> #
           page_artifacts parentID name pages)"

text \<open>
  The constructor: an option writes the engine into an extractor that starts without one. The
  engine is of a type \<open>'g\<close>, since all that matters is which one is there.
\<close>

definition WithEngine :: "'g \<Rightarrow> 'g option \<Rightarrow> 'g option" where
  "WithEngine e x = Some e"

definition pdf_New :: "('g option \<Rightarrow> 'g option) list \<Rightarrow> 'g option" where
  "pdf_New opts = foldl (\<lambda>x opt. opt x) None opts"

text \<open>Without an option there is no engine; the last one given wins.\<close>

lemma pdf_New_Nil [simp]: "pdf_New [] = None"
  by (simp add: pdf_New_def)

lemma pdf_New_snoc [simp]: "pdf_New (opts @ [WithEngine e]) = Some e"
  by (simp add: pdf_New_def WithEngine_def)

lemma pdf_New_single [simp]: "pdf_New [WithEngine e] = Some e"
  using pdf_New_snoc [of "[]" e] by simp

definition PdfExtractor ::
  "('s, 'x) Engine option \<Rightarrow> (nat \<Rightarrow> nat) \<Rightarrow> ('s, 'x PdfCause) Extractor" where
  "PdfExtractor engine grow ctx rd s parentID =
     (case engine of
        None \<Rightarrow> Some (Inl (Unwrapped ErrNoEngine), s)
      | Some e \<Rightarrow>
          do { r \<leftarrow> ReadAll grow ctx rd s;
               (case fst r of
                  Inl err \<Rightarrow> Some (Inl err, snd r)
                | Inr data \<Rightarrow>
                    do { p \<leftarrow> eng_Pages e ctx data (snd r);
                         Some (case fst p of
                                 Inl err \<Rightarrow> Inl err
                               | Inr pages \<Rightarrow>
                                   let arts = page_artifacts parentID (eng_Name e) pages in
                                   if arts = [] then Inl ErrNoContent else Inr arts, snd p) }) })"

subsection \<open>The pdftotext engine\<close>

definition DefaultBinary :: string where "DefaultBinary = ''pdftotext''"
definition DefaultMaxOutputBytes :: int where "DefaultMaxOutputBytes = 64 * 2 ^ 20"
definition stderrCapBytes :: int where "stderrCapBytes = 64 * 2 ^ 10"

text \<open>Seconds; the engine's zero values mean the defaults.\<close>

definition DefaultTimeout :: int where "DefaultTimeout = 30"

record PdftotextEngine =
  binary :: string
  timeout :: int
  maxOutput :: int

definition WithBinary :: "string \<Rightarrow> PdftotextEngine \<Rightarrow> PdftotextEngine" where
  "WithBinary path e = e\<lparr>binary := path\<rparr>"

definition WithTimeout :: "int \<Rightarrow> PdftotextEngine \<Rightarrow> PdftotextEngine" where
  "WithTimeout d e = e\<lparr>timeout := d\<rparr>"

definition WithMaxOutputBytes :: "int \<Rightarrow> PdftotextEngine \<Rightarrow> PdftotextEngine" where
  "WithMaxOutputBytes n e = e\<lparr>maxOutput := n\<rparr>"

definition pdftotext_New :: "(PdftotextEngine \<Rightarrow> PdftotextEngine) list \<Rightarrow> PdftotextEngine" where
  "pdftotext_New opts = foldl (\<lambda>e opt. opt e) \<lparr>binary = [], timeout = 0, maxOutput = 0\<rparr> opts"

definition bin :: "PdftotextEngine \<Rightarrow> string" where
  "bin e = (if binary e \<noteq> [] then binary e else DefaultBinary)"

definition engine_to :: "PdftotextEngine \<Rightarrow> int" where
  "engine_to e = (if timeout e \<le> 0 then DefaultTimeout else timeout e)"

definition maxOut :: "PdftotextEngine \<Rightarrow> int" where
  "maxOut e = (if maxOutput e \<le> 0 then DefaultMaxOutputBytes else maxOutput e)"

record capWriter =
  cw_buf :: string
  cw_n :: int
  cw_limit :: int
  exceeded :: bool

text \<open>The flag is whether the write was accepted; a refused one has killed the process.\<close>

definition cap_Write :: "capWriter \<Rightarrow> string \<Rightarrow> capWriter \<times> bool" where
  "cap_Write w p =
     (if exceeded w \<or> cw_limit w < add64 (cw_n w) (len p) then (w\<lparr>exceeded := True\<rparr>, False)
      else (w\<lparr>cw_buf := cw_buf w @ p, cw_n := add64 (cw_n w) (len p)\<rparr>, True))"

text \<open>The copying goroutine of \<open>os/exec\<close> stops at the first write error.\<close>

fun copy_out :: "capWriter \<Rightarrow> string list \<Rightarrow> capWriter" where
  "copy_out w [] = w"
| "copy_out w (p # ps) = (case cap_Write w p of (w', ok) \<Rightarrow> if ok then copy_out w' ps else w')"

record truncWriter =
  tw_buf :: string
  tw_limit :: int

definition trunc_Write :: "truncWriter \<Rightarrow> string \<Rightarrow> truncWriter" where
  "trunc_Write w p =
     (let rem = tw_limit w - len (tw_buf w) in
      if 0 < rem then w\<lparr>tw_buf := tw_buf w @ (if len p \<le> rem then p else take (nat rem) p)\<rparr>
      else w)"

definition FF :: char where "FF = CHR 0x0C"

fun number_pages :: "int \<Rightarrow> string list \<Rightarrow> Page list" where
  "number_pages i [] = []"
| "number_pages i (blk # blocks) = \<lparr>Number = i + 1, pg_Text = blk\<rparr> # number_pages (i + 1) blocks"

definition splitPages :: "string \<Rightarrow> Page list" where
  "splitPages out =
     (if out = [] then []
      else let blocks = split_byte FF out;
               blocks' = (if last blocks = [] then butlast blocks else blocks) in
           number_pages 0 blocks')"

datatype 'x RunError = ExitError int | StartError 'x

record ('w, 'x) Process =
  LookPath :: "string \<Rightarrow> bool"
  cmd_Run :: "string \<Rightarrow> string \<Rightarrow> int \<Rightarrow> int \<Rightarrow> 'w \<Rightarrow>
    ((string list \<times> string list) \<times> 'x RunError option \<times> bool) \<times> 'w"

definition PdftotextPages ::
  "('w, 'x) Process \<Rightarrow> PdftotextEngine \<Rightarrow> ('w, 'x PdfCause) ctx \<Rightarrow> string \<Rightarrow> 'w \<Rightarrow>
   (('x PdfCause ExtractError + Page list) \<times> 'w) option" where
  "PdftotextPages P e ctx data w =
     (if \<not> LookPath P (bin e) then Some (Inl (Unwrapped (ErrEngineUnavailable (bin e))), w)
      else case cmd_Run P (bin e) data (engine_to e) (maxOut e) w of
        (((out, diag), runErr, timed_out), w1) \<Rightarrow>
          let stdout = copy_out \<lparr>cw_buf = [], cw_n = 0, cw_limit = maxOut e, exceeded = False\<rparr> out;
              stderr = foldl trunc_Write \<lparr>tw_buf = [], tw_limit = stderrCapBytes\<rparr> diag in
          if exceeded stdout then Some (Inl (Unwrapped (ErrOutputTooLarge (maxOut e))), w1)
          else (case ctx w1 of
                  (Some err, w2) \<Rightarrow> Some (Inl (Unwrapped err), w2)
                | (None, w2) \<Rightarrow>
                    if timed_out then Some (Inl (MalformedSource MediaTypePdf TimedOut), w2)
                    else Some (case runErr of
                                 Some (ExitError code) \<Rightarrow>
                                   Inl (MalformedSource MediaTypePdf (Exited code (TrimSpace (tw_buf stderr))))
                               | Some (StartError x) \<Rightarrow> Inl (Unwrapped (ExecFailed x))
                               | None \<Rightarrow> Inr (splitPages (cw_buf stdout)), w2)))"

definition pdftotext_engine :: "('w, 'x) Process \<Rightarrow> PdftotextEngine \<Rightarrow> ('w, 'x) Engine" where
  "pdftotext_engine P e = \<lparr>eng_Name = ''pdftotext'', eng_Pages = PdftotextPages P e\<rparr>"

declare MediaTypePdf_def [go_eval] MetaPage_def [go_eval] MetaEngine_def [go_eval]
  page_artifacts.simps [go_eval] PdfExtractor_def [go_eval] DefaultBinary_def [go_eval]
  DefaultMaxOutputBytes_def [go_eval] stderrCapBytes_def [go_eval] DefaultTimeout_def [go_eval]
  bin_def [go_eval] engine_to_def [go_eval] maxOut_def [go_eval] cap_Write_def [go_eval]
  trunc_Write_def [go_eval] FF_def [go_eval] splitPages_def [go_eval] PdftotextPages_def [go_eval]

subsection \<open>Bounded output\<close>

text \<open>The diagnostics keep the first bytes, however they arrive.\<close>

lemma trunc_Write_take:
  assumes "len (tw_buf w) \<le> tw_limit w"
  shows "tw_buf (foldl trunc_Write w ps) = take (nat (tw_limit w)) (tw_buf w @ concat ps)"
  using assms
proof (induction ps arbitrary: w)
  case Nil
  then show ?case by simp
next
  case (Cons p ps)
  let ?w = "trunc_Write w p"
  have w: "tw_limit ?w = tw_limit w" "tw_buf ?w = take (nat (tw_limit w)) (tw_buf w @ p)"
    "len (tw_buf ?w) \<le> tw_limit w"
    using Cons.prems by (auto simp: trunc_Write_def Let_def nat_diff_distrib)
  have "length (tw_buf w) \<le> nat (tw_limit w)" using Cons.prems by linarith
  have "take (nat (tw_limit w)) (take (nat (tw_limit w)) (tw_buf w @ p) @ concat ps) =
      take (nat (tw_limit w)) ((tw_buf w @ p) @ concat ps)"
    using \<open>length (tw_buf w) \<le> nat (tw_limit w)\<close>
    by (cases "length (tw_buf w @ p) \<le> nat (tw_limit w)") (auto simp: min_absorb1)
  moreover have "tw_buf (foldl trunc_Write ?w ps) = take (nat (tw_limit w)) (tw_buf ?w @ concat ps)"
    using Cons.IH [of ?w] w(1,3) by simp
  ultimately show ?case by (simp only: w(2) foldl.simps concat.simps append_assoc)
qed

text \<open>The output is kept whole, or the writer has refused a write and stays that way.\<close>

lemma copy_out_whole:
  assumes "cw_n w = len (cw_buf w)" and "len (cw_buf w @ concat ps) < 2 ^ 63"
    and "\<not> exceeded w" and "len (cw_buf w) \<le> cw_limit w"
  shows "(exceeded (copy_out w ps) \<longrightarrow> cw_limit w < len (cw_buf w @ concat ps))
    \<and> (\<not> exceeded (copy_out w ps) \<longrightarrow>
        cw_buf (copy_out w ps) = cw_buf w @ concat ps \<and> len (cw_buf w @ concat ps) \<le> cw_limit w)"
  using assms
proof (induction ps arbitrary: w)
  case (Cons p ps)
  have add: "add64 (cw_n w) (len p) = len (cw_buf w @ p)"
    using Cons.prems by (subst add64_id) auto
  show ?case
  proof (cases "cw_limit w < len (cw_buf w @ p)")
    case True
    then have "copy_out w (p # ps) = w\<lparr>exceeded := True\<rparr>"
      using add by (simp add: cap_Write_def)
    then show ?thesis using True by simp
  next
    case False
    let ?w = "w\<lparr>cw_buf := cw_buf w @ p, cw_n := len (cw_buf w @ p)\<rparr>"
    have "copy_out w (p # ps) = copy_out ?w ps"
      using add False Cons.prems by (simp add: cap_Write_def)
    then show ?thesis using Cons.IH [of ?w] Cons.prems False by simp
  qed
qed simp

text \<open>
  C36: the engine returns pages only when the process ended well, in time, with the caller's
  context alive, and its complete output was within the cap; the pages are those of the complete
  output, never of a truncated one. Output over the cap is \<open>ErrOutputTooLarge\<close>.
\<close>

theorem PdftotextPages_complete:
  assumes "cmd_Run P (bin e) data (engine_to e) (maxOut e) w = (((out, diag), runErr, timed_out), w1)"
    and "LookPath P (bin e)" and "len (concat out) < 2 ^ 63"
    and "PdftotextPages P e ctx data w = Some (r, w2)"
  shows "case r of
      Inr pages \<Rightarrow> pages = splitPages (concat out) \<and> len (concat out) \<le> maxOut e
        \<and> runErr = None \<and> \<not> timed_out \<and> fst (ctx w1) = None
    | Inl err \<Rightarrow> err = Unwrapped (ErrOutputTooLarge (maxOut e)) \<and> maxOut e < len (concat out)
        \<or> len (concat out) \<le> maxOut e \<and> (fst (ctx w1) \<noteq> None \<or> timed_out \<or> runErr \<noteq> None)"
proof -
  let ?w = "\<lparr>cw_buf = [], cw_n = 0, cw_limit = maxOut e, exceeded = False\<rparr>"
  have "0 \<le> maxOut e" by (simp add: maxOut_def DefaultMaxOutputBytes_def)
  then have c: "if exceeded (copy_out ?w out) then maxOut e < len (concat out)
      else cw_buf (copy_out ?w out) = concat out \<and> len (concat out) \<le> maxOut e"
    using copy_out_whole [of ?w out] assms(3) by simp
  show ?thesis
  proof (cases "exceeded (copy_out ?w out)")
    case True
    then show ?thesis using c assms by (auto simp: PdftotextPages_def Let_def)
  next
    case False
    then show ?thesis
      using c assms
      by (auto simp: PdftotextPages_def Let_def split: prod.splits option.splits RunError.splits if_splits)
  qed
qed

subsection \<open>Pages\<close>

lemma number_pages_texts: "map pg_Text (number_pages i ts) = ts"
  and number_pages_numbers: "map Number (number_pages i ts) = map (\<lambda>k. i + int k) [1..<Suc (length ts)]"
proof -
  show "map pg_Text (number_pages i ts) = ts" by (induction ts arbitrary: i) auto
  show "map Number (number_pages i ts) = map (\<lambda>k. i + int k) [1..<Suc (length ts)]"
  proof (induction ts arbitrary: i)
    case (Cons t ts)
    have "[1..<Suc (Suc (length ts))] = 1 # map Suc [1..<Suc (length ts)]"
      by (simp add: map_Suc_upt upt_conv_Cons del: upt_Suc)
    then show ?case using Cons by (simp del: upt_Suc)
  qed simp
qed

text \<open>
  What \<open>pdftotext\<close> writes, every page followed by a form feed, is split back into exactly
  these pages, blank ones included, so page numbers are the positions in the document; a last page
  without its form feed is not lost either.
\<close>

theorem splitPages_roundtrip:
  assumes "\<forall>t \<in> set ts. FF \<notin> set t" and "FF \<notin> set u"
  shows "map pg_Text (splitPages (concat (map (\<lambda>t. t @ [FF]) ts) @ u)) = ts @ (if u = [] then [] else [u])
    \<and> (\<forall>k < length (splitPages (concat (map (\<lambda>t. t @ [FF]) ts) @ u)).
         Number (splitPages (concat (map (\<lambda>t. t @ [FF]) ts) @ u) ! k) = int k + 1)"
proof -
  let ?out = "concat (map (\<lambda>t. t @ [FF]) ts) @ u"
  have s: "split_byte FF ?out = ts @ [u]"
    using assms by (induction ts) (auto simp: split_byte_append split_byte_single)
  have sp: "splitPages ?out = number_pages 0 (ts @ (if u = [] then [] else [u]))"
  proof (cases "?out = []")
    case True
    then have "ts = []" "u = []" by (auto simp: concat_eq_Nil_conv)
    then show ?thesis by (simp add: splitPages_def)
  next
    case False
    then show ?thesis by (simp add: splitPages_def s Let_def)
  qed
  have "Number (number_pages 0 bs ! k) = int k + 1" if "k < length (number_pages 0 bs)" for bs k
  proof -
    have l: "length (number_pages 0 bs) = length bs"
      using arg_cong [OF number_pages_texts [of 0 bs], of length] by simp
    have "map Number (number_pages 0 bs) ! k = int k + 1"
      using that l by (simp add: number_pages_numbers nth_append del: upt_Suc)
    then show ?thesis using that by simp
  qed
  then show ?thesis by (simp add: sp number_pages_texts)
qed

text \<open>
  An extracted PDF has one artifact per page that is not blank, in page order, each valid but
  for the identifier, not blank, and labelled with the number of the page its text came from and
  with the engine.
\<close>

theorem PdfExtractor_pages:
  assumes "source rd rest" and "calm_ctx ctx" and "aside ctx rest" and "growing grow"
    and "\<forall>w. \<exists>w'. eng_Pages e ctx (rest s) w = Some (Inr pages, w')"
  shows "\<exists>s'. PdfExtractor (Some e) grow ctx rd s parentID = Some (
      let kept = filter (\<lambda>p. NormalizeWhitespace (pg_Text p) \<noteq> []) pages in
      if kept = [] then Inl ErrNoContent
      else Inr (map (\<lambda>p. (TextArtifact parentID (NormalizeWhitespace (pg_Text p)))
        \<lparr>art_Metadata := [MetaPage \<mapsto> Itoa (Number p), MetaEngine \<mapsto> eng_Name e]\<rparr>) kept), s')"
proof -
  obtain s1 where r: "ReadAll grow ctx rd s = Some (Inr (rest s), s1)"
    using ReadAll_source [OF assms(1-4)] by blast
  obtain s2 where p: "eng_Pages e ctx (rest s) s1 = Some (Inr pages, s2)"
    using assms(5) by blast
  have "page_artifacts parentID name pages = map (\<lambda>p. (TextArtifact parentID (NormalizeWhitespace (pg_Text p)))
        \<lparr>art_Metadata := [MetaPage \<mapsto> Itoa (Number p), MetaEngine \<mapsto> name]\<rparr>)
      (filter (\<lambda>p. NormalizeWhitespace (pg_Text p) \<noteq> []) pages)" for name
    by (induction pages) (auto simp: Let_def TextArtifact_def)
  then show ?thesis using r p by (simp add: PdfExtractor_def Let_def)
qed

end
