(* ===== verification/Markdown.thy ===== *)
theory Markdown
  imports Extract_Examples
begin

text \<open>
  \<^verbatim>\<open>extract/markdown/markdown.go\<close>: the verbatim Markdown extractor. The reference for
  \<open>stripFrontMatter\<close> works on lines.
\<close>

subsection \<open>Definitions\<close>

definition MediaTypeMarkdown :: MediaType where "MediaTypeMarkdown = ''text/markdown''"
definition MediaTypeX :: MediaType where "MediaTypeX = ''text/x-markdown''"

text \<open>U+FEFF in UTF-8, and the cut set of a delimiter line.\<close>

definition byte_order_mark :: string where
  "byte_order_mark = [CHR 0xEF, CHR 0xBB, CHR 0xBF]"

definition line_end_space :: string where
  "line_end_space = [CHR '' '', TAB, CR]"

definition TrimPrefix :: "string \<Rightarrow> string \<Rightarrow> string" where
  "TrimPrefix s p = (if prefix p s then drop (length p) s else s)"

text \<open>The scan for the closing delimiter line: \<open>s\<close> is the whole text, \<open>rest\<close> what is left.\<close>

function closing_loop :: "string \<Rightarrow> string \<Rightarrow> string \<Rightarrow> string" where
  "closing_loop s delim rest =
     (let n = IndexByte rest LF;
          line = (if 0 \<le> n then take (nat n) rest else rest) in
      if TrimRight line line_end_space = delim
      then (if n < 0 then [] else drop (nat (n + 1)) rest)
      else if n < 0 then s
      else closing_loop s delim (drop (nat (n + 1)) rest))"
  by pat_completeness auto
termination
proof (relation "measure (\<lambda>(s, delim, rest). length rest)", goal_cases)
  case (2 s delim rest n line)
  then show ?case using IndexByte_bounds(1) [of rest LF] by auto
qed simp

declare closing_loop.simps [simp del]

definition stripFrontMatter :: "string \<Rightarrow> string" where
  "stripFrontMatter s =
     (case (if prefix ''---'' s then Some ''---'' else if prefix ''+++'' s then Some ''+++'' else None) of
        None \<Rightarrow> s
      | Some delim \<Rightarrow>
          let nl = IndexByte s LF in
          if nl < 0 then s
          else if TrimRight (take (nat nl) s) line_end_space \<noteq> delim then s
          else closing_loop s delim (drop (nat (nl + 1)) s))"

definition MarkdownExtractor :: "(nat \<Rightarrow> nat) \<Rightarrow> ('s, 'e) Extractor" where
  "MarkdownExtractor grow ctx rd s parentID =
     do { r \<leftarrow> ReadAll grow ctx rd s;
          Some (case fst r of
                  Inl err \<Rightarrow> (Inl err, snd r)
                | Inr data \<Rightarrow>
                    let tx = stripFrontMatter (coerce_utf8 (TrimPrefix data byte_order_mark)) in
                    if TrimSpace tx = [] then (Inl ErrNoContent, snd r)
                    else (Inr [\<lparr>art_ID = [], art_MediaType = MediaTypeMarkdown, DerivedFrom = parentID,
                                art_Text = tx, Blob = None, art_Metadata = Map.empty\<rparr>], snd r)) }"

declare MediaTypeMarkdown_def [go_eval] MediaTypeX_def [go_eval] byte_order_mark_def [go_eval]
  line_end_space_def [go_eval] TrimPrefix_def [go_eval] closing_loop.simps [go_eval]
  stripFrontMatter_def [go_eval] MarkdownExtractor_def [go_eval]

subsection \<open>Front matter, by lines\<close>

lemma split_first_line:
  "split_byte LF s =
     (if LF \<in> set s then take (nat (IndexByte s LF)) s # split_byte LF (drop (nat (IndexByte s LF + 1)) s)
      else [s])"
proof (cases "LF \<in> set s")
  case True
  let ?n = "nat (IndexByte s LF)"
  have n: "0 \<le> IndexByte s LF" using True IndexByte_neg [of s LF] by linarith
  then have "s ! ?n = LF" "LF \<notin> set (take ?n s)" "?n < length s"
    using IndexByte_hit [OF n] IndexByte_bounds(1) [of s LF] by auto
  then have "s = take ?n s @ LF # drop (Suc ?n) s" by (metis id_take_nth_drop)
  then have "split_byte LF s = take ?n s # split_byte LF (drop (Suc ?n) s)"
    using split_byte_append [OF \<open>LF \<notin> set (take ?n s)\<close>, of "drop (Suc ?n) s"] by simp
  moreover have "nat (IndexByte s LF + 1) = Suc ?n" using n by simp
  ultimately show ?thesis using True by simp
qed (simp add: split_byte_single)

definition delimiter :: "string \<Rightarrow> string \<Rightarrow> bool" where
  "delimiter delim line \<longleftrightarrow> TrimRight line line_end_space = delim"

lemma closing_loop_lines:
  "closing_loop s delim rest =
     (case dropWhile (\<lambda>l. \<not> delimiter delim l) (split_byte LF rest) of
        [] \<Rightarrow> s | _ # ls \<Rightarrow> join_byte LF ls)"
proof (induction s delim rest rule: closing_loop.induct)
  case (1 s delim rest)
  have neg: "IndexByte rest LF < 0 \<longleftrightarrow> LF \<notin> set rest" by (rule IndexByte_neg)
  show ?case
  proof (cases "LF \<in> set rest")
    case True
    then have "\<not> IndexByte rest LF < 0" using neg by simp
    then show ?thesis
      using 1 [OF refl refl] True
      by (subst closing_loop.simps, subst split_first_line)
        (simp add: Let_def delimiter_def join_split_byte)
  next
    case False
    then show ?thesis
      using neg by (subst closing_loop.simps, subst split_first_line) (simp add: Let_def delimiter_def)
  qed
qed

lemma TrimRight_prefix: "prefix (TrimRight s cs) s"
proof -
  have "s = rev (dropWhile (\<lambda>c. c \<in> set cs) (rev s)) @ rev (takeWhile (\<lambda>c. c \<in> set cs) (rev s))"
    by (metis rev_append rev_rev_ident takeWhile_dropWhile_id)
  then show ?thesis unfolding TrimRight_def by (metis prefixI)
qed

text \<open>
  C34: front matter goes exactly when the first line is a delimiter line (\<open>---\<close> or \<open>+++\<close>, with
  trailing blanks at most) and a later line is the same delimiter; then what is left are the
  lines after the first such line, unchanged. Otherwise the text is returned as it is.
\<close>

theorem stripFrontMatter_lines:
  "stripFrontMatter s =
     (case split_byte LF s of
        [] \<Rightarrow> s
      | l # ls \<Rightarrow>
          let delim = TrimRight l line_end_space in
          if delim \<notin> {''---'', ''+++''} then s
          else (case dropWhile (\<lambda>l. \<not> delimiter delim l) ls of
                  [] \<Rightarrow> s | _ # after \<Rightarrow> join_byte LF after))"
proof (cases "LF \<in> set s")
  case True
  let ?l = "take (nat (IndexByte s LF)) s" and ?r = "drop (nat (IndexByte s LF + 1)) s"
  have n: "\<not> IndexByte s LF < 0" using True IndexByte_neg by blast
  have pre: "prefix (TrimRight ?l line_end_space) s"
    using TrimRight_prefix take_is_prefix by (rule prefix_order.trans)
  have excl: "\<not> (prefix ''---'' s \<and> prefix ''+++'' s)"
    by (auto simp: prefix_def)
  show ?thesis
    using True n pre excl
    by (subst split_first_line) (auto simp: stripFrontMatter_def Let_def closing_loop_lines)
next
  case False
  then show ?thesis
    using IndexByte_neg [of s LF]
    by (subst split_first_line) (auto simp: stripFrontMatter_def Let_def)
qed

subsection \<open>Verbatim\<close>

lemma at_newline:
  assumes "0 \<le> IndexByte s LF"
  shows "s = take (nat (IndexByte s LF)) s @ LF # drop (nat (IndexByte s LF + 1)) s"
proof -
  have "LF \<in> set s" using assms IndexByte_neg [of s LF] by linarith
  then have "s ! nat (IndexByte s LF) = LF" "nat (IndexByte s LF) < length s"
    using IndexByte_hit [OF assms] IndexByte_bounds(1) [of s LF] assms by (simp_all add: nat_less_iff)
  moreover have "nat (IndexByte s LF + 1) = Suc (nat (IndexByte s LF))" using assms by simp
  ultimately show ?thesis by (metis id_take_nth_drop)
qed

lemma closing_loop_suffix:
  "suffix rest s \<Longrightarrow> ValidString s \<Longrightarrow> ValidString rest \<Longrightarrow>
     suffix (closing_loop s delim rest) s \<and> ValidString (closing_loop s delim rest)"
proof (induction s delim rest rule: closing_loop.induct)
  case (1 s delim rest)
  let ?r = "drop (nat (IndexByte rest LF + 1)) rest"
  have s: "suffix ?r s"
    using "1.prems"(1) suffix_drop suffix_order.trans by blast
  have v: "ValidString ?r" if "\<not> IndexByte rest LF < 0"
    using ValidString_cut_LF(2) [of "take (nat (IndexByte rest LF)) rest" ?r] at_newline [of rest]
      "1.prems"(3) that by simp
  show ?case
    using "1.IH" [OF refl refl] "1.prems" s v by (subst (1 2) closing_loop.simps) (auto simp: Let_def)
qed

lemma stripFrontMatter_suffix:
  assumes "ValidString s"
  shows "suffix (stripFrontMatter s) s \<and> ValidString (stripFrontMatter s)"
proof -
  have "suffix (closing_loop s delim (drop (nat (IndexByte s LF + 1)) s)) s
      \<and> ValidString (closing_loop s delim (drop (nat (IndexByte s LF + 1)) s))"
    if "\<not> IndexByte s LF < 0" for delim
  proof (rule closing_loop_suffix [OF suffix_drop assms])
    show "ValidString (drop (nat (IndexByte s LF + 1)) s)"
      using ValidString_cut_LF(2) [of "take (nat (IndexByte s LF)) s"] at_newline [of s] assms that
      by simp
  qed
  then show ?thesis using assms by (auto simp: stripFrontMatter_def Let_def)
qed

text \<open>
  The Markdown extractor returns one artifact whose text is a suffix of the source's text
  (invalid UTF-8 replaced), valid, not blank, and derived from the parent; a valid source without
  a byte-order mark whose first line is no delimiter comes out byte for byte.
\<close>

theorem MarkdownExtractor_verbatim:
  assumes "source rd rest" and "calm_ctx ctx" and "aside ctx rest" and "growing grow"
    and "src = coerce_utf8 (TrimPrefix (rest s) byte_order_mark)"
  shows "\<exists>tx s'. MarkdownExtractor grow ctx rd s parentID = Some (
      if TrimSpace tx = [] then Inl ErrNoContent
      else Inr [\<lparr>art_ID = [], art_MediaType = MediaTypeMarkdown, DerivedFrom = parentID,
                art_Text = tx, Blob = None, art_Metadata = Map.empty\<rparr>], s')
    \<and> suffix tx src \<and> ValidString tx
    \<and> (ValidString (rest s) \<and> \<not> prefix byte_order_mark (rest s)
        \<and> TrimRight (hd (split_byte LF (rest s))) line_end_space \<notin> {''---'', ''+++''}
        \<longrightarrow> tx = rest s)"
proof -
  obtain s' where r: "ReadAll grow ctx rd s = Some (Inr (rest s), s')"
    using ReadAll_source [OF assms(1-4)] by blast
  have v: "ValidString src" by (simp add: assms(5) coerce_valid)
  have same: "stripFrontMatter src = rest s"
    if "ValidString (rest s)" "\<not> prefix byte_order_mark (rest s)"
      "TrimRight (hd (split_byte LF (rest s))) line_end_space \<notin> {''---'', ''+++''}"
  proof -
    have "src = rest s" using that(1,2) by (simp add: assms(5) TrimPrefix_def coerce_id)
    then show ?thesis
      using that(3) by (auto simp: stripFrontMatter_lines Let_def split: list.split)
  qed
  show ?thesis
    by (rule exI [of _ "stripFrontMatter src"], rule exI [of _ s'])
      (use r stripFrontMatter_suffix [OF v] same in \<open>simp add: MarkdownExtractor_def Let_def assms(5)\<close>)
qed

theorem MarkdownExtractor_verbatim_witness:
  "\<exists>s'. MarkdownExtractor quarter quiet drip ''# T\<newline>---'' ''p'' = Some (Inr [\<lparr>art_ID = [],
      art_MediaType = MediaTypeMarkdown, DerivedFrom = ''p'', art_Text = ''# T\<newline>---'', Blob = None,
      art_Metadata = Map.empty\<rparr>] :: nat ExtractError + Artifact list, s')"
proof -
  have "ValidString ''# T\<newline>---''" "TrimSpace ''# T\<newline>---'' \<noteq> []"
    "TrimRight (hd (split_byte LF ''# T\<newline>---'')) line_end_space \<notin> {''---'', ''+++''}"
    by (simp_all add: go_eval ValidString.simps rune_ok_def rune_size_eq cong: eval_congs)
  then show ?thesis
    using MarkdownExtractor_verbatim [OF drip_source quiet_calm growing_quarter refl,
        of "''# T\<newline>---''" "''p''", where 'b = nat]
    by (auto simp: byte_order_mark_def)
qed

end
