(* ===== verification/Preset.thy ===== *)
theory Preset
  imports Docx Pptx Pdf Markdown
begin

text \<open>
  \<^verbatim>\<open>extract/preset/preset.go\<close>: the bundle of document extractors. In the registry an
  extractor is represented by the concrete type that was registered, with its configuration.
\<close>

definition mediaTypeHTML :: MediaType where "mediaTypeHTML = ''text/html''"

datatype DocumentExtractor =
    TextDoc
  | HtmlDoc
  | PdfDoc "PdftotextEngine option"
  | DocxDoc int
  | PptxDoc int
  | MarkdownDoc

definition RegisterDocuments ::
  "(string \<Rightarrow> string option) \<Rightarrow> DocumentExtractor Registry \<Rightarrow> DocumentExtractor Registry option" where
  "RegisterDocuments parse r0 =
     do { r1 \<leftarrow> Register parse r0 MediaTypeText (Some TextDoc);
          r2 \<leftarrow> Register parse r1 mediaTypeHTML (Some HtmlDoc);
          r3 \<leftarrow> Register parse r2 MediaTypePdf (Some (PdfDoc (pdf_New [WithEngine (pdftotext_New [])])));
          r4 \<leftarrow> Register parse r3 MediaTypeDocx (Some (DocxDoc 0));
          r5 \<leftarrow> Register parse r4 MediaTypePptx (Some (PptxDoc 0));
          r6 \<leftarrow> Register parse r5 MediaTypeMarkdown (Some MarkdownDoc);
          Register parse r6 MediaTypeX (Some MarkdownDoc) }"

definition NewDocumentRegistry ::
  "(string \<Rightarrow> string option) \<Rightarrow> Option list \<Rightarrow> DocumentExtractor Registry option" where
  "NewDocumentRegistry parse opts = RegisterDocuments parse (NewRegistry opts)"

definition SupportedDocumentMediaTypes :: "(string \<Rightarrow> string option) \<Rightarrow> MediaType list option" where
  "SupportedDocumentMediaTypes parse = map_option SupportedMediaTypes (NewDocumentRegistry parse [])"

text \<open>The bundle's media types in ascending order, as \<open>SupportedDocumentMediaTypes\<close> documents them.\<close>

definition document_types :: "MediaType list" where
  "document_types = [MediaTypePdf, MediaTypePptx, MediaTypeDocx, mediaTypeHTML, MediaTypeMarkdown,
     MediaTypeText, MediaTypeX]"

lemmas media_types = MediaTypeText_def mediaTypeHTML_def MediaTypePdf_def MediaTypeDocx_def
  MediaTypePptx_def MediaTypeMarkdown_def MediaTypeX_def

text \<open>
  Wiring the bundle never panics on a new registry, whatever its options: the seven media
  types have distinct canonical forms, each is served by its extractor, PDF by the out-of-process
  engine, and the published list is exactly these types in ascending order. Wiring the bundle into
  a registry that already holds one of them panics.
\<close>

theorem NewDocumentRegistry_wires:
  assumes "\<forall>mt \<in> set document_types. parse mt = Some mt"
  shows "\<exists>r. NewDocumentRegistry parse opts = Some r
    \<and> SupportedMediaTypes r = document_types
    \<and> SupportedDocumentMediaTypes parse = Some document_types
    \<and> map (Get parse r) document_types = map Some [PdfDoc (Some (pdftotext_New [])), PptxDoc 0, DocxDoc 0,
        HtmlDoc, MarkdownDoc, TextDoc, MarkdownDoc]
    \<and> RegisterDocuments parse r = None"
proof -
  have p: "parse MediaTypeText = Some MediaTypeText" "parse mediaTypeHTML = Some mediaTypeHTML"
    "parse MediaTypePdf = Some MediaTypePdf" "parse MediaTypeDocx = Some MediaTypeDocx"
    "parse MediaTypePptx = Some MediaTypePptx" "parse MediaTypeMarkdown = Some MediaTypeMarkdown"
    "parse MediaTypeX = Some MediaTypeX"
    using assms by (simp_all add: document_types_def)
  let ?es = "[(MediaTypeX, MarkdownDoc), (MediaTypeMarkdown, MarkdownDoc), (MediaTypePptx, PptxDoc 0),
    (MediaTypeDocx, DocxDoc 0), (MediaTypePdf, PdfDoc (Some (pdftotext_New []))), (mediaTypeHTML, HtmlDoc),
    (MediaTypeText, TextDoc)]"
  have d: "distinct [MediaTypeText, mediaTypeHTML, MediaTypePdf, MediaTypeDocx, MediaTypePptx,
      MediaTypeMarkdown, MediaTypeX]"
    "distinct [MediaTypeX, MediaTypeMarkdown, MediaTypePptx, MediaTypeDocx, MediaTypePdf, mediaTypeHTML,
      MediaTypeText]"
    by (simp_all add: media_types)
  have reg: "NewDocumentRegistry parse opts = Some ((NewRegistry opts)\<lparr>extractors := ?es\<rparr>)" for opts
    using d by (simp add: NewDocumentRegistry_def RegisterDocuments_def Register_iff p)
  have sorted: "sort (map fst ?es) = document_types"
    by (simp add: document_types_def media_types)
  have "Register parse ((NewRegistry opts)\<lparr>extractors := ?es\<rparr>) MediaTypeText (Some TextDoc) = None"
    using d by (simp add: Register_iff p)
  then have again: "RegisterDocuments parse ((NewRegistry opts)\<lparr>extractors := ?es\<rparr>) = None"
    by (simp only: RegisterDocuments_def bind.bind_lzero)
  have get: "map (Get parse ((NewRegistry opts)\<lparr>extractors := ?es\<rparr>)) document_types = map Some
      [PdfDoc (Some (pdftotext_New [])), PptxDoc 0, DocxDoc 0, HtmlDoc, MarkdownDoc, TextDoc, MarkdownDoc]"
    using d by (simp add: document_types_def Get_iff p)
  have supported: "SupportedMediaTypes ((NewRegistry opts)\<lparr>extractors := ?es\<rparr>) = document_types" for opts
    unfolding SupportedMediaTypes_def using sorted by simp
  then have "SupportedDocumentMediaTypes parse = Some document_types"
    unfolding SupportedDocumentMediaTypes_def reg by simp
  then show ?thesis using reg supported get again by blast
qed

theorem NewDocumentRegistry_wires_witness:
  "SupportedDocumentMediaTypes demo_parse = Some document_types"
proof -
  have "\<forall>mt \<in> set document_types. demo_parse mt = Some mt"
    by (simp add: document_types_def media_types demo_parse_def Let_def)
  from NewDocumentRegistry_wires [OF this] show ?thesis by blast
qed

declare mediaTypeHTML_def [go_eval] pdftotext_New_def [go_eval] pdf_New_def [go_eval] WithEngine_def [go_eval] RegisterDocuments_def [go_eval]
  NewDocumentRegistry_def [go_eval] SupportedDocumentMediaTypes_def [go_eval]

end
