(* ===== verification/Html.thy ===== *)
theory Html
  imports Extract_Examples
begin

text \<open>
  \<^verbatim>\<open>extract/html/html.go\<close>: visible text of a parsed page. The parser of
  \<^verbatim>\<open>golang.org/x/net/html\<close> is an argument: it turns bytes into a tree of nodes, of which
  the code reads the type, the atom, the data and the chain of children.
\<close>

subsection \<open>Definitions\<close>

datatype NodeType = ElementNode | TextNode | OtherNode

datatype Atom =
    Head | Script | Style | Noscript | Template | Br
  | P | Div | Section | Article | Header | Footer | Main | Aside | Nav | Figure | Figcaption
  | Blockquote | Pre | Hr | Ul | Ol | Li | Dl | Dt | Dd | Table | Caption | Tr
  | H1 | H2 | H3 | H4 | H5 | H6
  | OtherAtom string

datatype Node = Node (n_Type: NodeType) (DataAtom: Atom) (n_Data: string) (n_children: "Node list")

definition skipSubtree :: "Atom \<Rightarrow> bool" where
  "skipSubtree a \<longleftrightarrow> a \<in> {Head, Script, Style, Noscript, Template}"

definition isBlock :: "Atom \<Rightarrow> bool" where
  "isBlock a \<longleftrightarrow> a \<in> {P, Div, Section, Article, Header, Footer, Main, Aside, Nav, Figure, Figcaption,
     Blockquote, Pre, Hr, Ul, Ol, Li, Dl, Dt, Dd, Table, Caption, Tr, H1, H2, H3, H4, H5, H6}"

text \<open>The builder is passed along; the loop over the siblings is \<open>collectChildren\<close>.\<close>

fun collectText :: "Node \<Rightarrow> string \<Rightarrow> string" and collectChildren :: "Node list \<Rightarrow> string \<Rightarrow> string" where
  "collectText (Node ty a data children) b =
     (if ty = ElementNode \<and> skipSubtree a then b
      else if ty = ElementNode \<and> a = Br then b @ [LF]
      else let b1 = (if ty = TextNode then b @ data @ '' '' else b);
               block = (ty = ElementNode \<and> isBlock a);
               b2 = (if block then b1 @ [LF, LF] else b1);
               b3 = collectChildren children b2 in
           if block then b3 @ [LF, LF] else b3)"
| "collectChildren [] b = b"
| "collectChildren (c # cs) b = collectChildren cs (collectText c b)"

definition HtmlExtractor :: "(string \<Rightarrow> 'e + Node) \<Rightarrow> (nat \<Rightarrow> nat) \<Rightarrow> ('s, 'e) Extractor" where
  "HtmlExtractor parse grow ctx rd s parentID =
     do { r \<leftarrow> ReadAll grow ctx rd s;
          Some (case fst r of
                  Inl err \<Rightarrow> (Inl err, snd r)
                | Inr data \<Rightarrow>
                    (case parse data of
                       Inl err \<Rightarrow> (Inl (MalformedSource ''text/html'' err), snd r)
                     | Inr doc \<Rightarrow>
                         let tx = NormalizeWhitespace (collectText doc []) in
                         if tx = [] then (Inl ErrNoContent, snd r)
                         else (Inr [TextArtifact parentID tx], snd r))) }"

declare skipSubtree_def [go_eval] isBlock_def [go_eval] HtmlExtractor_def [go_eval]

subsection \<open>Visible text\<close>

text \<open>The texts of the page outside the subtrees that are not rendered, in document order.\<close>

fun visible :: "Node \<Rightarrow> string list" where
  "visible (Node ty a data children) =
     (if ty = ElementNode \<and> (skipSubtree a \<or> a = Br) then []
      else (if ty = TextNode then [data] else []) @ concat (map visible children))"

abbreviation ink :: "string \<Rightarrow> string" where
  "ink \<equiv> filter (\<lambda>c. c \<noteq> LF \<and> c \<noteq> CHR '' '')"

lemma collect_ink:
  "ink (collectText n b) = ink b @ ink (concat (visible n))"
  "ink (collectChildren ns b) = ink b @ ink (concat (concat (map visible ns)))"
  by (induction n b and ns b rule: collectText_collectChildren.induct) (auto simp: Let_def)

lemma collect_extends:
  "\<exists>t. collectText n b = b @ t" "\<exists>t. collectChildren ns b = b @ t"
  by (induction n b and ns b rule: collectText_collectChildren.induct) (force simp: Let_def)+


text \<open>A block element stands between blank lines, so its text shares no line with the text outside.\<close>

lemma collectText_block:
  assumes "isBlock a" and "\<not> skipSubtree a"
  shows "\<exists>t. collectText (Node ElementNode a data cs) b = b @ [LF, LF] @ t @ [LF, LF]"
  using assms collect_extends(2) [of cs "b @ [LF, LF]"]
  by (auto simp: Let_def isBlock_def)

end
