(* ===== verification/Extract_Contract.thy ===== *)
theory Extract_Contract
  imports Preset Html
begin

text \<open>
  The contract of \<open>Extractor\<close> in \<^verbatim>\<open>extract/extract.go\<close>, as a locale: what the registry's
  callers can rely on for any extractor that keeps it, and the extractors of this repository as
  the models that do.
\<close>

definition fresh_text :: "string \<Rightarrow> Artifact \<Rightarrow> bool" where
  "fresh_text parentID a \<longleftrightarrow> unassigned parentID a \<and> Blob a = None \<and> TrimSpace (art_Text a) \<noteq> []"

text \<open>Extraction without an error means at least one artifact, each of them text that is not blank.\<close>

locale extractor =
  fixes doc :: "(int \<times> 's, 'e) Extractor"
  assumes doc_fresh: "doc ctx rd s parentID = Some (Inr arts, s') \<Longrightarrow>
    arts \<noteq> [] \<and> list_all (fresh_text parentID) arts"
begin

text \<open>Through a registry, and after the caller has assigned identifiers.\<close>

lemma registry_fresh:
  assumes "Get parse r mt = Some doc"
    and "Registry_Extract parse r ctx mt rd parentID opts s = Some (Inr arts, s')"
  shows "parentID \<noteq> []" "arts \<noteq> []" "list_all (fresh_text parentID) arts"
proof -
  show p: "parentID \<noteq> []" using assms(2) by (auto simp: Registry_Extract_def)
  obtain key where key: "parse mt = Some key" "map_of (extractors r) key = Some doc"
    using assms(1) by (auto simp: Get_iff split: option.splits)
  obtain st where "doc (lift_ctx ctx) (limit_read (foldl (\<lambda>m fn. fn m) (maxBytes r) opts) rd)
      (foldl (\<lambda>m fn. fn m) (maxBytes r) opts, s) parentID = Some (Inr arts, st)"
    using assms(2) by (auto simp: Registry_Extract_dispatch [where parse = parse and mt = mt and e = doc, OF p key])
  from doc_fresh [OF this] show "arts \<noteq> []" "list_all (fresh_text parentID) arts" by auto
qed

lemma registry_validates:
  assumes "Get parse r mt = Some doc"
    and "Registry_Extract parse r ctx mt rd parentID opts s = Some (Inr arts, s')"
    and "a \<in> set arts" and "i \<noteq> []"
  shows "Artifact_Validate (a\<lparr>art_ID := i\<rparr>) = None" "TextArtifacts arts = arts"
proof -
  note fresh = registry_fresh [OF assms(1,2)]
  show "Artifact_Validate (a\<lparr>art_ID := i\<rparr>) = None"
    using fresh assms(3,4) by (auto simp: list_all_iff fresh_text_def intro: unassigned_validates)
  have "Blob a = None \<and> art_Text a \<noteq> []" if "a \<in> set arts" for a
    using fresh(3) that by (auto simp: list_all_iff fresh_text_def)
  then show "TextArtifacts arts = arts" by (simp add: TextArtifacts_def)
qed

end

lemmas outcome_eqs = bind_eq_Some case_sum_eq case_option_eq

lemma TrimSpace_normalized: "TrimSpace (NormalizeWhitespace s) = NormalizeWhitespace s"
  by (simp add: NormalizeWhitespace_def)

lemma fresh_TextArtifact:
  "NormalizeWhitespace s \<noteq> [] \<Longrightarrow> fresh_text parentID (TextArtifact parentID (NormalizeWhitespace s))"
  by (simp add: fresh_text_def unassigned_def TextArtifact_def MediaTypeText_def TrimSpace_normalized)

interpretation text_doc: extractor "TextExtractor grow" for grow
  by unfold_locales
    (auto simp: TextExtractor_def Let_def fresh_TextArtifact outcome_eqs split: if_splits)

interpretation html_doc: extractor "HtmlExtractor parse grow" for parse grow
  by unfold_locales
    (auto simp: HtmlExtractor_def Let_def fresh_TextArtifact outcome_eqs split: if_splits)

interpretation docx_doc: extractor "DocxExtractor X cap grow" for X cap grow
  by unfold_locales
    (auto simp: DocxExtractor_def Let_def fresh_TextArtifact outcome_eqs split: if_splits)

interpretation pptx_doc: extractor "PptxExtractor X cap grow" for X cap grow
  by unfold_locales
    (auto simp: PptxExtractor_def Let_def fresh_TextArtifact outcome_eqs split: if_splits)

interpretation markdown_doc: extractor "MarkdownExtractor grow" for grow
  by unfold_locales
    (auto simp: MarkdownExtractor_def Let_def fresh_text_def unassigned_def MediaTypeMarkdown_def
      outcome_eqs split: if_splits)

lemma page_artifacts_fresh: "list_all (fresh_text parentID) (page_artifacts parentID name pages)"
  by (induction pages)
    (auto simp: Let_def fresh_text_def unassigned_def MediaTypeText_def TrimSpace_normalized)

interpretation pdf_doc: extractor "PdfExtractor engine grow" for engine grow
  by unfold_locales
    (auto simp: PdfExtractor_def Let_def page_artifacts_fresh outcome_eqs
      split: if_splits)

text \<open>
  C28: every extractor of the repository keeps the contract its callers rely on. What a registry
  returns without an error is at least one artifact; each is text that is not blank, derived from
  the given parent, and validates as soon as the caller has assigned an identifier.
\<close>

theorem Registry_artifacts_validate:
  fixes X :: "(int \<times> 's, 'x Cause) Extractor"
  assumes "Get parse r mt = Some X"
    and "X \<in> {TextExtractor grow, MarkdownExtractor grow, HtmlExtractor html grow,
      DocxExtractor ox cap grow, PptxExtractor ox cap grow}"
    and "Registry_Extract parse r ctx mt rd parentID opts s = Some (Inr arts, s')"
  shows "parentID \<noteq> [] \<and> arts \<noteq> [] \<and> TextArtifacts arts = arts
    \<and> (\<forall>a \<in> set arts. DerivedFrom a = parentID \<and> TrimSpace (art_Text a) \<noteq> []
        \<and> (\<forall>i. i \<noteq> [] \<longrightarrow> Artifact_Validate (a\<lparr>art_ID := i\<rparr>) = None))"
proof -
  have contract: "extractor X"
    using assms(2) text_doc.extractor_axioms markdown_doc.extractor_axioms html_doc.extractor_axioms
      docx_doc.extractor_axioms pptx_doc.extractor_axioms by blast
  note fresh = extractor.registry_fresh [OF contract assms(1,3)]
  obtain a where "a \<in> set arts" using fresh(2) by (cases arts) auto
  then have "TextArtifacts arts = arts"
    using extractor.registry_validates(2) [OF contract assms(1,3), of a "''id''"] by simp
  then show ?thesis
    using fresh extractor.registry_validates(1) [OF contract assms(1,3)]
    by (auto simp: list_all_iff fresh_text_def unassigned_def)
qed

definition one_doc :: "(int \<times> string, nat Cause) Extractor Registry" where
  "one_doc = \<lparr>extractors = [(''text/plain'', TextExtractor quarter)], maxBytes = 100\<rparr>"

theorem Registry_artifacts_validate_witness:
  "\<exists>s'. Registry_Extract demo_parse one_doc quiet ''text/plain'' drip ''src'' [] ''hello'' =
      Some (Inr [TextArtifact ''src'' ''hello''], s')
    \<and> TextArtifacts [TextArtifact ''src'' ''hello''] = [TextArtifact ''src'' ''hello'']
    \<and> Artifact_Validate ((TextArtifact ''src'' ''hello'')\<lparr>art_ID := ''id''\<rparr>) = None"
proof -
  have get: "Get demo_parse one_doc ''text/plain'' = Some (TextExtractor quarter)"
    by (simp add: Get_iff demo_parse_def one_doc_def Let_def)
  have norm: "NormalizeWhitespace (coerce_utf8 ''hello'') = ''hello''"
    by (simp add: go_eval upt_rec cong: eval_congs)
  obtain s' where run: "Registry_Extract demo_parse one_doc quiet ''text/plain'' drip ''src'' [] ''hello'' =
      Some (Inr [TextArtifact ''src'' ''hello''], s')"
    using registry_text [OF get _ drip_source quiet_calm growing_quarter refl _ _ refl,
        where parentID = "''src''" and opts = "[]" and s = "''hello''"]
    by (auto simp: norm one_doc_def)
  have "TextArtifacts [TextArtifact ''src'' ''hello''] = [TextArtifact ''src'' ''hello'']"
    "\<forall>i. i \<noteq> [] \<longrightarrow> Artifact_Validate ((TextArtifact ''src'' ''hello'')\<lparr>art_ID := i\<rparr>) = None"
    using Registry_artifacts_validate [OF get insertI1 run] by simp_all
  then show ?thesis using run by blast
qed

end
