(* ===== verification/Extract_Errors.thy ===== *)
theory Extract_Errors
  imports Extract_Contract
begin

text \<open>
  The error values of \<^verbatim>\<open>extract/extract.go\<close> as the callers see them, through
  \<^verbatim>\<open>errors.Is\<close>: the chain of wrapped errors behind each constructor of \<open>ExtractError\<close>,
  what a read over the limit can fail with, and the classification of every error an extraction
  through a registry can end in.
\<close>

subsection \<open>Chains of errors\<close>

datatype Sentinel =
    MissingParentID
  | InvalidMediaType
  | UnsupportedMediaType
  | NoContent
  | TooLarge
  | Malformed

text \<open>
  \<open>Sentinel\<close>: an \<open>errors.New\<close> of the package. \<open>Wrapf\<close>: \<open>fmt.Errorf\<close> with the errors of its \<open>%w\<close>
  verbs. \<open>Foreign\<close>: an error value from elsewhere; \<open>Unnamed\<close> is one the model has no value for.
\<close>

datatype 'e GoError =
    Sentinel Sentinel
  | Foreign 'e
  | Unnamed
  | Wrapf "'e GoError list"
  | MalformedSourceError MediaType "'e GoError"
  | SourceTooLargeError int

definition MalformedSourceError_Is :: "'e GoError \<Rightarrow> bool" where
  "MalformedSourceError_Is target \<longleftrightarrow> target = Sentinel Malformed"

definition SourceTooLargeError_Is :: "'e GoError \<Rightarrow> bool" where
  "SourceTooLargeError_Is target \<longleftrightarrow> target = Sentinel TooLarge"

text \<open>
  \<open>errors.Is\<close>: an error matches a target it equals, or that its \<open>Is\<close> method accepts, or that an
  error it unwraps to matches. Targets are sentinels of the package or foreign values, so a node
  of another kind equals none; \<open>ext\<close> is what the chain of a foreign error matches besides itself.
\<close>

fun errors_Is :: "('e \<Rightarrow> 'e GoError \<Rightarrow> bool) \<Rightarrow> 'e GoError \<Rightarrow> 'e GoError \<Rightarrow> bool" where
  "errors_Is ext (Sentinel s) target \<longleftrightarrow> target = Sentinel s"
| "errors_Is ext (Foreign x) target \<longleftrightarrow> target = Foreign x \<or> ext x target"
| "errors_Is ext Unnamed target \<longleftrightarrow> False"
| "errors_Is ext (Wrapf es) target \<longleftrightarrow> (\<exists>e \<in> set es. errors_Is ext e target)"
| "errors_Is ext (MalformedSourceError mt e) target \<longleftrightarrow>
     MalformedSourceError_Is target \<or> errors_Is ext e target"
| "errors_Is ext (SourceTooLargeError limit) target \<longleftrightarrow> SourceTooLargeError_Is target"

text \<open>How the package builds its errors; \<open>read aborted\<close> and \<open>read source\<close> wrap what they got.\<close>

fun io_chain :: "'e IOError \<Rightarrow> 'e GoError" where
  "io_chain (SourceFailed e) = Foreign e"
| "io_chain (SourceTooLarge limit) = SourceTooLargeError limit"
| "io_chain (ContextDone e) = Foreign e"

fun error_chain :: "'e ExtractError \<Rightarrow> 'e GoError" where
  "error_chain ErrMissingParentID = Sentinel MissingParentID"
| "error_chain (ErrInvalidMediaType mt) = Wrapf [Sentinel InvalidMediaType, Unnamed]"
| "error_chain (ErrUnsupportedMediaType key) = Wrapf [Sentinel UnsupportedMediaType]"
| "error_chain ErrNoContent = Sentinel NoContent"
| "error_chain (ReadAborted e) = Wrapf [Foreign e]"
| "error_chain (ReadSource e) = Wrapf [io_chain e]"
| "error_chain (MalformedSource mt c) = MalformedSourceError mt (Foreign c)"
| "error_chain (Unwrapped e) = Foreign e"

declare MalformedSourceError_Is_def [simp] SourceTooLargeError_Is_def [simp]

text \<open>Foreign errors do not pass for those of the package.\<close>

definition honest :: "('e \<Rightarrow> 'e GoError \<Rightarrow> bool) \<Rightarrow> bool" where
  "honest ext \<longleftrightarrow> (\<forall>x s. \<not> ext x (Sentinel s))"

fun sentinel_of :: "'e ExtractError \<Rightarrow> Sentinel option" where
  "sentinel_of ErrMissingParentID = Some MissingParentID"
| "sentinel_of (ErrInvalidMediaType mt) = Some InvalidMediaType"
| "sentinel_of (ErrUnsupportedMediaType key) = Some UnsupportedMediaType"
| "sentinel_of ErrNoContent = Some NoContent"
| "sentinel_of (ReadSource (SourceTooLarge limit)) = Some TooLarge"
| "sentinel_of (MalformedSource mt c) = Some Malformed"
| "sentinel_of _ = None"

lemma errors_Is_sentinel:
  "honest ext \<Longrightarrow> errors_Is ext (error_chain err) (Sentinel s) \<longleftrightarrow> sentinel_of err = Some s"
  by (induction err rule: sentinel_of.induct) (auto simp: honest_def)

subsection \<open>How a read can fail\<close>

text \<open>The context has said so, at some moment.\<close>

definition says :: "('s, 'e) ctx \<Rightarrow> 'e \<Rightarrow> bool" where
  "says ctx e \<longleftrightarrow> (\<exists>w w'. ctx w = (Some e, w'))"

lemma says_lift: "says (lift_ctx ctx) e \<longleftrightarrow> says ctx e"
  by (auto simp: says_def prod_eq_iff)

lemma limited_read_step:
  assumes src: "source rd rest" and aside: "aside ctx rest" and "0 \<le> rem"
    and "ctx_read (lift_ctx ctx) (limit_read limit rd) n (rem, s) = Some ((c, st), (rem', s'))"
  shows "case st of
      Failed err \<Rightarrow> err = SourceTooLarge limit \<and> rem < len (rest s)
        \<or> (\<exists>e. err = ContextDone e \<and> says ctx e)
    | _ \<Rightarrow> 0 \<le> rem' \<and> rem' = rem - len c \<and> rest s = c @ rest s'"
proof (cases "ctx s")
  case (Pair ce s1)
  have said: "says ctx e" if "ce = Some e" for e unfolding says_def using Pair that by blast
  have s1: "rest s1 = rest s" using aside Pair unfolding aside_def by (metis snd_conv)
  show ?thesis
  proof (cases ce)
    case (Some e)
    then show ?thesis using assms(4) Pair said by (auto simp: ctx_read_def)
  next
    case None
    then have "limit_read limit rd n (rem, s1) = Some ((c, st), (rem', s'))"
      using assms(4) Pair by (simp add: ctx_read_def)
    then obtain p st' where r: "rd p s1 = Some ((c, st'), s')" "rem' = rem - len c"
      "st = (if rem' < 0 then Failed (SourceTooLarge limit) else st')"
      using limit_read_Some assms(3) by fastforce
    have fine: "st' \<noteq> Failed e" for e using source.read_no_error [OF src] r(1) by fastforce
    then have "rest s1 = c @ rest s'"
      using stream.read_prefix [OF source.axioms(1) [OF src] r(1)] by blast
    then have "rest s = c @ rest s'" using s1 by simp
    then show ?thesis using r fine by (cases st') auto
  qed
qed

lemma limited_loop_error:
  assumes src: "source rd rest" and aside: "aside ctx rest" and "0 \<le> rem"
    and "read_all_loop grow (ctx_read (lift_ctx ctx) (limit_read limit rd)) cap b (rem, s) =
      Some ((d, Some err), st)"
  shows "err = SourceTooLarge limit \<and> rem < len (rest s) \<or> (\<exists>e. err = ContextDone e \<and> says ctx e)"
proof -
  let ?R = "ctx_read (lift_ctx ctx) (limit_read limit rd)"
  let ?P = "\<lambda>grow (R :: (int \<times> _, _) reader) cap b (q :: int \<times> _) (y :: (string \<times> _ option) \<times> _).
    R = ?R \<longrightarrow> 0 \<le> fst q \<longrightarrow> (\<forall>err. snd (fst y) = Some err \<longrightarrow>
      err = SourceTooLarge limit \<and> fst q < len (rest (snd q)) \<or> (\<exists>e. err = ContextDone e \<and> says ctx e))"
  have "?P grow ?R cap b (rem, s) ((d, Some err), st)"
  proof (rule read_all_loop.raw_induct [where P = ?P, OF _ assms(4)])
    fix loop grow R cap b q y
    assume IH: "\<And>grow R cap b q y. loop grow R cap b q = Some y \<Longrightarrow> ?P grow R cap b q y"
      and eq: "do { r \<leftarrow> R (cap - length b) q;
          let b' = b @ fst (fst r) in
          if cap < length b' then None
          else (case snd (fst r) of
                  EOF \<Rightarrow> Some ((b', None), snd r)
                | Failed e \<Rightarrow> Some ((b', Some e), snd r)
                | More \<Rightarrow> loop grow R (if length b' = cap then grow cap else cap) b' (snd r)) } = Some y"
    obtain c st q1 where r: "R (cap - length b) q = Some ((c, st), q1)"
      using eq by (cases "R (cap - length b) q") auto
    show "?P grow R cap b q y"
    proof (intro impI allI)
      fix err assume R: "R = ?R" and rem: "0 \<le> fst q" and err: "snd (fst y) = Some err"
      note step = limited_read_step [OF src aside rem, where s = "snd q" and c = c and st = st
          and rem' = "fst q1" and s' = "snd q1" and limit = limit and n = "cap - length b"]
      show "err = SourceTooLarge limit \<and> fst q < len (rest (snd q)) \<or> (\<exists>e. err = ContextDone e \<and> says ctx e)"
      proof (cases st)
        case More
        then have "loop grow R (if length (b @ c) = cap then grow cap else cap) (b @ c) q1 = Some y"
          using eq r by (simp add: Let_def split: if_splits)
        from IH [OF this] show ?thesis using step r R err More by auto
      next
        case EOF
        then show ?thesis using eq r err by (auto simp: Let_def split: if_splits)
      next
        case (Failed e)
        then have "err = e" using eq r err by (auto simp: Let_def split: if_splits)
        then show ?thesis using step r R Failed by simp
      qed
    qed
  qed
  then show ?thesis using assms(3) by simp
qed

text \<open>
  Over a source that does not fail itself: only the limit, when the source exceeds it, and the
  context, when it is done.
\<close>

lemma ReadAll_limited_error:
  assumes "source rd rest" and "aside ctx rest" and "0 \<le> limit"
    and "ReadAll grow (lift_ctx ctx) (limit_read limit rd) (limit, s) = Some (Inl err, st)"
  shows "err = ReadSource (SourceTooLarge limit) \<and> limit < len (rest s)
    \<or> (\<exists>e. (err = ReadAborted e \<or> err = ReadSource (ContextDone e)) \<and> says ctx e)"
proof (cases "ctx s")
  case (Pair ce s1)
  have said: "says ctx e" if "ce = Some e" for e unfolding says_def using Pair that by blast
  have s1: "rest s1 = rest s" using assms(2) Pair unfolding aside_def by (metis snd_conv)
  show ?thesis
  proof (cases ce)
    case (Some e)
    then show ?thesis using assms(4) Pair said by (auto simp: ReadAll_def)
  next
    case None
    then obtain d x where x: "io_ReadAll grow (ctx_read (lift_ctx ctx) (limit_read limit rd)) (limit, s1) =
        Some ((d, Some x), st)" "err = ReadSource x"
      using assms(4) Pair by (auto simp: ReadAll_def bind_eq_Some split: option.splits)
    show ?thesis using limited_loop_error [OF assms(1-3) x(1) [unfolded io_ReadAll_def]] s1 x(2) by auto
  qed
qed

subsection \<open>How an extractor can fail\<close>

text \<open>
  With what the read failed; or, after a complete read, with \<open>ErrNoContent\<close>, as malformed in the
  extractor's own media type, with what the context says, or with an operational error.
\<close>

locale classified =
  fixes doc :: "(nat \<Rightarrow> nat) \<Rightarrow> ('s, 'e) Extractor" and mt :: MediaType and operational :: "'e \<Rightarrow> bool"
  assumes doc_error: "doc grow ctx rd s parentID = Some (Inl err, s') \<Longrightarrow>
    (\<exists>s1. ReadAll grow ctx rd s = Some (Inl err, s1))
    \<or> (\<exists>data s1. ReadAll grow ctx rd s = Some (Inr data, s1)
        \<and> (err = ErrNoContent \<or> (\<exists>c. err = MalformedSource mt c)
           \<or> (\<exists>e. err = Unwrapped e \<and> (says ctx e \<or> operational e))))"

text \<open>What the tokens' loop aborts with, the context has said.\<close>

lemma token_loop_aborted:
  fixes ctx :: "('w, 'x Cause) ctx"
    and tok :: "'d \<Rightarrow> int \<times> 'z \<Rightarrow> (('x Cause option + XmlToken) \<times> 'd \<times> int \<times> 'z) option"
  assumes "token_loop ctx tok d acc st w = Some (Inl (Inl err), q)"
  shows "says ctx err"
proof -
  let ?P = "\<lambda>(ctx :: ('w, 'x Cause) ctx)
    (tok :: 'd \<Rightarrow> int \<times> 'z \<Rightarrow> (('x Cause option + XmlToken) \<times> 'd \<times> int \<times> 'z) option)
    (d :: 'd) (acc :: bool \<times> string) (st :: int \<times> 'z) (w :: 'w)
    (y :: (('x Cause + 'x Cause) + string) \<times> (int \<times> 'z) \<times> 'w). \<forall>err. fst y = Inl (Inl err) \<longrightarrow> says ctx err"
  have "?P ctx tok d acc st w (Inl (Inl err), q)"
  proof (rule token_loop.raw_induct [where P = ?P, OF _ assms])
    fix loop and ctx :: "('w, 'x Cause) ctx"
      and tok :: "'d \<Rightarrow> int \<times> 'z \<Rightarrow> (('x Cause option + XmlToken) \<times> 'd \<times> int \<times> 'z) option"
      and d acc st w y
    assume IH: "\<And>ctx tok d acc st w y. loop ctx tok d acc st w = Some y \<Longrightarrow> ?P ctx tok d acc st w y"
      and eq: "(case ctx w of
        (None, w') \<Rightarrow>
          do { r \<leftarrow> tok d st;
               (case fst r of
                  Inl None \<Rightarrow> Some (Inr (snd acc), snd (snd r), w')
                | Inl (Some c) \<Rightarrow> Some (Inl (Inr c), snd (snd r), w')
                | Inr t \<Rightarrow> loop ctx tok (fst (snd r)) (token_step t acc) (snd (snd r)) w') }
      | (Some err, w') \<Rightarrow> Some (Inl (Inl err), st, w')) = Some y"
    obtain ce w1 where c: "ctx w = (ce, w1)" by (metis surj_pair)
    have said: "says ctx e" if "ce = Some e" for e unfolding says_def using c that by blast
    show "?P ctx tok d acc st w y"
    proof (cases ce)
      case (Some e)
      then show ?thesis using eq c said by auto
    next
      case None
      then obtain r d1 st1 where r: "tok d st = Some (r, d1, st1)"
        using eq c by (cases "tok d st") auto
      consider "r = Inl None" | x where "r = Inl (Some x)" | tk where "r = Inr tk"
        by (cases r) auto
      then show ?thesis
      proof cases
        case (3 tk)
        then have "loop ctx tok d1 (token_step tk acc) st1 w1 = Some y" using eq c None r by simp
        then show ?thesis by (rule IH)
      qed (use eq c None r in auto)
    qed
  qed
  then show ?thesis by simp
qed

lemma decode_error:
  "decode X ctx f remaining w = Some (Inl err, q) \<Longrightarrow>
     (\<exists>c. err = malformed c) \<or> (\<exists>e. err = Unwrapped e \<and> says ctx e)"
  by (auto simp: decode_def outcome_eqs dest!: token_loop_aborted)

lemma readPart_error: "readPart X grow f remaining = Some (Inl err, q) \<Longrightarrow> \<exists>c. err = malformed c"
  by (auto simp: readPart_def outcome_eqs)

lemma presentationOrder_error:
  "presentationOrder X grow m remaining = Some (Inl err, q) \<Longrightarrow> \<exists>c. err = malformed c"
  by (auto simp: presentationOrder_def outcome_eqs dest!: readPart_error)

lemma notesFor_error: "notesFor X grow m name remaining = Some (Inl err, q) \<Longrightarrow> \<exists>c. err = malformed c"
  by (auto simp: notesFor_def Let_def outcome_eqs dest!: readPart_error)

lemma slides_loop_error:
  "slides_loop X grow ctx m slides b remaining w = Some (Inl err, q) \<Longrightarrow>
     (\<exists>c. err = malformed c) \<or> (\<exists>e. err = Unwrapped e \<and> says ctx e)"
proof (induction slides arbitrary: b remaining w)
  case (Cons sf slides)
  obtain ce w1 where c: "ctx w = (ce, w1)" by (metis surj_pair)
  show ?case
  proof (cases ce)
    case (Some e)
    then have "says ctx e" unfolding says_def using c by blast
    then show ?thesis using Cons.prems c Some by auto
  next
    case None
    then show ?thesis using Cons.prems c Cons.IH
      by (auto simp: outcome_eqs dest!: decode_error notesFor_error)
  qed
qed simp

lemma decodeBodyText_error:
  "decodeBodyText X ctx doc budget w = Some (Inl err, q) \<Longrightarrow>
     (\<exists>c. err = MalformedSource MediaTypeDocx c) \<or> (\<exists>e. err = Unwrapped e \<and> says ctx e)"
  by (auto simp: decodeBodyText_def outcome_eqs dest!: token_loop_aborted)

interpretation text_err: classified TextExtractor MediaTypeText "\<lambda>_. False"
  by unfold_locales (auto simp: TextExtractor_def Let_def outcome_eqs split: if_splits)

interpretation markdown_err: classified MarkdownExtractor MediaTypeMarkdown "\<lambda>_. False"
  by unfold_locales (auto simp: MarkdownExtractor_def Let_def outcome_eqs split: if_splits)

interpretation html_err: classified "HtmlExtractor parse" "''text/html''" "\<lambda>_. False" for parse
  by unfold_locales (auto simp: HtmlExtractor_def Let_def outcome_eqs split: if_splits)

interpretation docx_err: classified "DocxExtractor X cap" MediaTypeDocx "\<lambda>_. False" for X cap
  by unfold_locales
    (auto simp: DocxExtractor_def Let_def outcome_eqs split: if_splits dest!: decodeBodyText_error)

interpretation pptx_err: classified "PptxExtractor X cap" MediaTypePptx "\<lambda>_. False" for X cap
  by unfold_locales
    (auto simp: PptxExtractor_def Let_def outcome_eqs malformed_def [symmetric] split: if_splits
      dest!: presentationOrder_error slides_loop_error)

text \<open>The engine that runs a process can also fail for reasons that are nobody's document.\<close>

fun exec_trouble :: "'x PdfCause \<Rightarrow> bool" where
  "exec_trouble (ErrEngineUnavailable b) = True"
| "exec_trouble (ErrOutputTooLarge n) = True"
| "exec_trouble (ExecFailed x) = True"
| "exec_trouble _ = False"

interpretation pdf_err: classified "PdfExtractor (Some (pdftotext_engine P e))" MediaTypePdf exec_trouble
  for P :: "('w, 'x) Process" and e
proof unfold_locales
  have engine: "(\<exists>c. err = MalformedSource MediaTypePdf c) \<or> (\<exists>x. err = Unwrapped x \<and> (says ctx x \<or> exec_trouble x))"
    if "PdftotextPages P e ctx data w = Some (Inl err, q)" for ctx data w err q
  proof -
    obtain out diag runErr late w1 where run: "cmd_Run P (bin e) data (engine_to e) (maxOut e) w = (((out, diag), runErr, late), w1)"
      by (metis surj_pair)
    obtain ce w2 where c: "ctx w1 = (ce, w2)" by (metis surj_pair)
    have "says ctx x" if "ce = Some x" for x unfolding says_def using c that by blast
    then show ?thesis
      using that run c by (cases runErr)
        (auto simp: PdftotextPages_def Let_def split: if_splits option.splits RunError.splits)
  qed
  fix grow ctx rd s parentID err s'
  assume "PdfExtractor (Some (pdftotext_engine P e)) grow ctx rd s parentID = Some (Inl err, s')"
  then obtain r where r: "ReadAll grow ctx rd s = Some r" and
    k: "(\<exists>s1. r = (Inl err, s1)) \<or> (\<exists>data s1. r = (Inr data, s1)
      \<and> (err = ErrNoContent \<or> (\<exists>q. PdftotextPages P e ctx data s1 = Some (Inl err, q))))"
    by (auto simp: PdfExtractor_def pdftotext_engine_def Let_def outcome_eqs split: if_splits)
  show "(\<exists>s1. ReadAll grow ctx rd s = Some (Inl err, s1)) \<or> (\<exists>data s1. ReadAll grow ctx rd s = Some (Inr data, s1)
      \<and> (err = ErrNoContent \<or> (\<exists>c. err = MalformedSource MediaTypePdf c)
         \<or> (\<exists>x. err = Unwrapped x \<and> (says ctx x \<or> exec_trouble x))))"
    using k unfolding r by (auto dest: engine)
qed

subsection \<open>Under a registry\<close>

text \<open>What a caller gets from an extractor under a registry.\<close>

lemma classified_registry:
  assumes doc: "classified doc mt operational"
    and get: "Get parse r m = Some (doc grow)"
    and run: "Registry_Extract parse r ctx m rd parentID opts s = Some (Inl err, s')"
    and env: "source rd rest" "aside ctx rest"
    and limit: "limit = foldl (\<lambda>m fn. fn m) (maxBytes r) opts" "0 \<le> limit"
  shows "parentID = [] \<and> err = ErrMissingParentID
    \<or> parentID \<noteq> [] \<and> (err = ReadSource (SourceTooLarge limit) \<and> limit < len (rest s)
      \<or> (err = ErrNoContent \<or> (\<exists>c. err = MalformedSource mt c)) \<and> len (rest s) \<le> limit
      \<or> (\<exists>e. (err = ReadAborted e \<or> err = ReadSource (ContextDone e) \<or> err = Unwrapped e) \<and> says ctx e)
      \<or> (\<exists>e. err = Unwrapped e \<and> operational e))"
proof (cases "parentID = []")
  case False
  obtain key where key: "parse m = Some key" "map_of (extractors r) key = Some (doc grow)"
    using get by (auto simp: Get_iff split: option.splits)
  obtain st where "doc grow (lift_ctx ctx) (limit_read limit rd) (limit, s) parentID = Some (Inl err, st)"
    using run unfolding limit(1)
    by (auto simp: Registry_Extract_dispatch [where parse = parse and mt = m and e = "doc grow", OF False key])
  from classified.doc_error [OF doc, OF this] show ?thesis
  proof (elim disjE exE conjE)
    fix s1 assume "ReadAll grow (lift_ctx ctx) (limit_read limit rd) (limit, s) = Some (Inl err, s1)"
    from ReadAll_limited_error [OF env limit(2) this] False show ?thesis by metis
  next
    fix data s1 assume "ReadAll grow (lift_ctx ctx) (limit_read limit rd) (limit, s) = Some (Inr data, s1)"
    from ReadAll_whole [OF source.axioms(1) [OF env(1)] env(2) this] limit(2)
    have whole: "len (rest s) \<le> limit" by auto
    { assume "err = ErrNoContent" then show ?thesis using whole False by blast }
    { fix c assume "err = MalformedSource mt c" then show ?thesis using whole False by blast }
    { fix e assume "err = Unwrapped e" "says (lift_ctx ctx) e"
      then show ?thesis using says_lift [of ctx e] False by blast }
    { fix e assume "err = Unwrapped e" "operational e" then show ?thesis using False by blast }
  qed
qed (use run in \<open>simp add: Registry_Extract_def\<close>)

text \<open>
  The PDF extractor over \<open>pdftotext\<close>: an error that matches no sentinel is what the context says or
  trouble with the process, so a missing binary or an oversize output is never malformed.
\<close>

theorem Registry_pdf_errors:
  assumes "Get parse r m = Some (PdfExtractor (Some (pdftotext_engine proc eng)) grow)"
    and "Registry_Extract parse r ctx m rd parentID opts s = Some (Inl err, s')"
    and "source rd rest" and "aside ctx rest"
    and "limit = foldl (\<lambda>m fn. fn m) (maxBytes r) opts" and "0 \<le> limit"
  shows "(sentinel_of err = Some Malformed \<or> sentinel_of err = Some NoContent \<longrightarrow> len (rest s) \<le> limit)
    \<and> (sentinel_of err = Some TooLarge \<longrightarrow> limit < len (rest s))
    \<and> (sentinel_of err = None \<longrightarrow> (\<exists>x. errors_Is (\<lambda>_ _. False) (error_chain err) (Foreign x)
          \<and> (says ctx x \<or> exec_trouble x)))"
  using classified_registry [OF pdf_err.classified_axioms assms] by auto

text \<open>
  C27: what a caller can conclude from an error of the registry, by \<open>errors.Is\<close>, when the reader
  itself does not fail. The error matches at most one sentinel of the package. A missing parent is reported exactly when it is missing; a
  source that is too large has more bytes than the limit, and one that is malformed or has no
  content was read completely within the limit, so that neither a cancellation nor an excess of
  bytes is ever taken for a fault of the document. An error that matches no sentinel is what the
  context said. And while the context says nothing, too large means exactly more than the limit.
\<close>

theorem Registry_errors_classified:
  fixes X :: "(int \<times> 's, 'x Cause) Extractor"
  assumes "Get parse r m = Some X"
    and "X \<in> {TextExtractor grow, MarkdownExtractor grow, HtmlExtractor html grow,
      DocxExtractor ox cap grow, PptxExtractor ox cap grow}"
    and "Registry_Extract parse r ctx m rd parentID opts s = Some (Inl err, s')"
    and "source rd rest" and "aside ctx rest" and "honest ext"
    and "limit = foldl (\<lambda>m fn. fn m) (maxBytes r) opts" and "0 \<le> limit"
    and "matches = (\<lambda>s. errors_Is ext (error_chain err) (Sentinel s))"
  shows "(\<forall>a b. matches a \<and> matches b \<longrightarrow> a = b)
    \<and> (matches MissingParentID \<longleftrightarrow> parentID = [])
    \<and> \<not> matches InvalidMediaType \<and> \<not> matches UnsupportedMediaType
    \<and> (matches TooLarge \<longrightarrow> limit < len (rest s))
    \<and> (matches Malformed \<or> matches NoContent \<longrightarrow> len (rest s) \<le> limit)
    \<and> ((\<forall>a. \<not> matches a) \<longrightarrow> (\<exists>e. errors_Is ext (error_chain err) (Foreign e) \<and> says ctx e))
    \<and> (parentID \<noteq> [] \<and> (\<forall>e. \<not> says ctx e) \<longrightarrow> (matches TooLarge \<longleftrightarrow> limit < len (rest s)))"
proof -
  obtain doc mt where doc: "X = doc grow" "classified doc mt (\<lambda>_. False)"
    using assms(2) text_err.classified_axioms markdown_err.classified_axioms html_err.classified_axioms
      docx_err.classified_axioms pptx_err.classified_axioms by blast
  have matches: "matches a \<longleftrightarrow> sentinel_of err = Some a" for a
    by (simp add: assms(9) errors_Is_sentinel [OF assms(6)])
  from classified_registry [OF doc(2) assms(1) [unfolded doc(1)] assms(3,4,5,7,8)]
  show ?thesis by (auto simp: matches)
qed

theorem Registry_errors_classified_witness:
  "errors_Is (\<lambda>_ _. False) (error_chain (ReadSource (SourceTooLarge 3) :: nat Cause ExtractError)) (Sentinel TooLarge)
    \<and> 3 < len ''hello''
    \<and> \<not> errors_Is (\<lambda>_ _. False) (error_chain (ReadSource (SourceTooLarge 3) :: nat Cause ExtractError)) (Sentinel Malformed)"
proof -
  have get: "Get demo_parse one_doc ''text/plain'' = Some (TextExtractor quarter)"
    by (simp add: Get_iff demo_parse_def one_doc_def Let_def)
  obtain s' where run: "Registry_Extract demo_parse one_doc quiet ''text/plain'' drip ''src'' [\<lambda>_. 3] ''hello'' =
      Some (Inl (ReadSource (SourceTooLarge 3)), s')"
    using registry_text [OF get _ drip_source quiet_calm growing_quarter refl _ _ refl,
        where parentID = "''src''" and opts = "[\<lambda>_. 3]" and s = "''hello''"] by auto
  have "honest (\<lambda>_ _. False)" by (simp add: honest_def)
  from Registry_errors_classified [OF get insertI1 run drip_source quiet_calm(2) this refl _ refl]
  show ?thesis by auto
qed

end
