(* ===== verification/Pptx_Correct.thy ===== *)
theory Pptx_Correct
  imports Pptx
begin

text \<open>
  The order of the slides, the absence of panics when part names are taken apart, the shared
  budget, and what happens to absolute relationship targets.
\<close>

subsection \<open>Part names\<close>

lemma names_def: "slidePrefix = ''ppt/slides/slide''" "xmlSuffix = ''.xml''"
  by (simp_all add: slidePrefix_def slidesDir_def xmlSuffix_def)

text \<open>Prefix and suffix do not overlap, so taking the middle of a slide name cannot panic.\<close>

lemma isSlidePart_length:
  assumes "isSlidePart name"
  shows "length slidePrefix + length xmlSuffix \<le> length name"
proof (rule ccontr)
  assume short: "\<not> length slidePrefix + length xmlSuffix \<le> length name"
  obtain r where r: "name = ''ppt/slides/slide'' @ r"
    using assms by (auto simp: isSlidePart_def names_def prefix_def)
  have "length r < 4" using short r by (simp add: names_def)
  then consider "r = []" | a where "r = [a]" | a b where "r = [a, b]" | a b c where "r = [a, b, c]"
    by (cases r; cases "tl r"; cases "tl (tl r)"; cases "tl (tl (tl r))") auto
  then show False
    using assms r by cases (simp_all add: isSlidePart_def names_def suffix_to_prefix)
qed

definition slide_number :: "string \<Rightarrow> int option" where
  "slide_number name =
     Atoi (take (length name - length slidePrefix - length xmlSuffix) (drop (length slidePrefix) name))"

lemma slide_list_Some:
  "\<exists>fs. slide_list files = Some fs \<and> (\<forall>n f. (n, f) \<in> set fs \<longleftrightarrow>
     f \<in> set files \<and> isSlidePart (zf_Name f) \<and> slide_number (zf_Name f) = Some n)"
proof (induction files)
  case (Cons f files)
  then obtain fs where fs: "slide_list files = Some fs"
    "\<forall>n f. (n, f) \<in> set fs \<longleftrightarrow>
       f \<in> set files \<and> isSlidePart (zf_Name f) \<and> slide_number (zf_Name f) = Some n" by blast
  have mid: "slice (zf_Name f) (len slidePrefix) (len (zf_Name f) - len xmlSuffix) =
      Some (take (length (zf_Name f) - length slidePrefix - length xmlSuffix)
              (drop (length slidePrefix) (zf_Name f)))" if "isSlidePart (zf_Name f)"
  proof -
    have l: "length slidePrefix + length xmlSuffix \<le> length (zf_Name f)"
      by (rule isSlidePart_length [OF that])
    then have "nat (len (zf_Name f) - len xmlSuffix - len slidePrefix) =
        length (zf_Name f) - length slidePrefix - length xmlSuffix" by linarith
    then show ?thesis using l by (simp add: slice_def)
  qed
  show ?case
  proof (cases "isSlidePart (zf_Name f)")
    case True
    then show ?thesis
      using fs mid [OF True] by (cases "slide_number (zf_Name f)") (auto simp: slide_number_def)
  next
    case False
    then show ?thesis using fs by auto
  qed
qed simp

subsection \<open>The order of the slides\<close>

text \<open>The elements of a list at their first occurrence, without those seen before.\<close>

fun fresh :: "'a set \<Rightarrow> 'a list \<Rightarrow> 'a list" where
  "fresh seen [] = []"
| "fresh seen (x # xs) = (if x \<in> seen then fresh seen xs else x # fresh (insert x seen) xs)"

lemma set_fresh: "set (fresh seen xs) = set xs - seen"
  by (induction seen xs rule: fresh.induct) auto

lemma distinct_fresh: "distinct (fresh seen xs)"
  by (induction seen xs rule: fresh.induct) (auto simp: set_fresh)

lemma fresh_append: "fresh seen (xs @ ys) = fresh seen xs @ fresh (seen \<union> set xs) ys"
  by (induction seen xs rule: fresh.induct) (auto simp: insert_absorb)

lemma byName_names: "byName files name = Some f \<Longrightarrow> zf_Name f = name \<and> f \<in> set files"
  and byName_dom: "byName files name \<noteq> None \<longleftrightarrow> name \<in> zf_Name ` set files"
proof -
  have "foldl (\<lambda>m f. m(zf_Name f \<mapsto> f)) m files name = Some f \<Longrightarrow>
      m name = Some f \<or> zf_Name f = name \<and> f \<in> set files"
    and "foldl (\<lambda>m f. m(zf_Name f \<mapsto> f)) m files name \<noteq> None \<longleftrightarrow>
      m name \<noteq> None \<or> name \<in> zf_Name ` set files" for m
    by (induction files arbitrary: m) (force split: if_splits)+
  from this [of Map.empty] show "byName files name = Some f \<Longrightarrow> zf_Name f = name \<and> f \<in> set files"
    "byName files name \<noteq> None \<longleftrightarrow> name \<in> zf_Name ` set files" by (auto simp: byName_def)
qed

lemma resolve_ordered_fresh:
  fixes m :: "string \<rightharpoonup> ('z, 'x) ZipFile"
  assumes "\<And>name f. m name = Some f \<Longrightarrow> zf_Name f = name"
  defines "there \<equiv> \<lambda>n. isSlidePart n \<and> m n \<noteq> None"
  shows "fst (resolve_ordered names m seen out) = seen \<union> set (filter there names)
    \<and> map zf_Name (snd (resolve_ordered names m seen out)) =
      map zf_Name out @ fresh seen (filter there names)"
proof (induction names arbitrary: seen out)
  case (Cons name names)
  consider "\<not> there name" | "there name" "name \<in> seen" | "there name" "name \<notin> seen" by blast
  then show ?case
  proof cases
    case 1
    then have "resolve_ordered (name # names) m seen out = resolve_ordered names m seen out"
      by (auto simp: there_def)
    then show ?thesis using Cons.IH [of seen out] 1 by simp
  next
    case 2
    then show ?thesis using Cons.IH [of seen out] by (simp add: insert_absorb)
  next
    case 3
    then obtain f where f: "m name = Some f" "isSlidePart name" by (auto simp: there_def)
    have "zf_Name f = name" by (rule assms(1) [OF f(1)])
    then show ?thesis using Cons.IH [of "insert name seen" "out @ [f]"] 3 f by simp
  qed
qed simp

lemma resolve_files_fresh:
  "map zf_Name (resolve_files fs seen out) = map zf_Name out @ fresh seen (map (\<lambda>x. zf_Name (snd x)) fs)"
  by (induction fs seen out rule: resolve_files.induct) auto

text \<open>
  C33: the slides of a deck are read in the order the presentation names them, followed by the
  slides it does not name, in the order of their numbers. Every numbered slide part of the
  archive is read, none is read twice, and nothing that is not a slide part of the archive is.
\<close>

theorem resolveOrder_complete:
  fixes X :: "('z, 'd, 'x) Ooxml"
  assumes "sortedSlides X files = Some fs"
    and "\<forall>xs. set (sort_slides X xs) = set xs \<and> sorted (map fst (sort_slides X xs))"
    and "slides = map zf_Name (resolveOrder ordered fs (byName files))"
    and "named = filter (\<lambda>n. isSlidePart n \<and> n \<in> zf_Name ` set files) ordered"
  shows "distinct slides
    \<and> set slides = set named \<union> {n \<in> zf_Name ` set files. isSlidePart n \<and> slide_number n \<noteq> None}
    \<and> slides = fresh {} named @ fresh (set named) (map (\<lambda>x. zf_Name (snd x)) fs)
    \<and> sorted (map fst fs) \<and> (\<forall>(n, f) \<in> set fs. slide_number (zf_Name f) = Some n)"
proof -
  obtain ss where ss: "slide_list files = Some ss"
    "\<forall>n f. (n, f) \<in> set ss \<longleftrightarrow>
       f \<in> set files \<and> isSlidePart (zf_Name f) \<and> slide_number (zf_Name f) = Some n"
    using slide_list_Some by blast
  have fs: "set fs = set ss" "sorted (map fst fs)"
    using assms(1) assms(2) [rule_format, of ss] ss(1) by (auto simp: sortedSlides_def)
  have "isSlidePart n \<and> byName files n \<noteq> None \<longleftrightarrow> isSlidePart n \<and> n \<in> zf_Name ` set files" for n
    using byName_dom by blast
  then have o: "fst (resolve_ordered ordered (byName files) {} []) = set named"
    "map zf_Name (snd (resolve_ordered ordered (byName files) {} [])) = fresh {} named"
    using resolve_ordered_fresh [of "byName files" ordered "{}" "[]", OF conjunct1 [OF byName_names]]
    unfolding assms(4) by (simp_all only: Un_empty_left list.map(1) append_Nil)
  have slides: "slides = fresh {} named @ fresh (set named) (map (\<lambda>x. zf_Name (snd x)) fs)"
    by (simp only: assms(3) resolveOrder_def Let_def split_def resolve_files_fresh o)
  have mem: "(n, f) \<in> set fs \<longleftrightarrow>
      f \<in> set files \<and> isSlidePart (zf_Name f) \<and> slide_number (zf_Name f) = Some n" for n f
    unfolding fs(1) using ss(2) by blast
  have files: "(\<lambda>x. zf_Name (snd x)) ` set fs =
      {n \<in> zf_Name ` set files. isSlidePart n \<and> slide_number n \<noteq> None}"
  proof (intro set_eqI iffI)
    fix name assume "name \<in> (\<lambda>x. zf_Name (snd x)) ` set fs"
    then obtain n f where "(n, f) \<in> set fs" "name = zf_Name f" by auto
    then show "name \<in> {n \<in> zf_Name ` set files. isSlidePart n \<and> slide_number n \<noteq> None}"
      using mem by auto
  next
    fix name assume "name \<in> {n \<in> zf_Name ` set files. isSlidePart n \<and> slide_number n \<noteq> None}"
    then obtain n f where "f \<in> set files" "name = zf_Name f" "isSlidePart name" "slide_number name = Some n"
      by auto
    then have "(n, f) \<in> set fs" using mem by simp
    then show "name \<in> (\<lambda>x. zf_Name (snd x)) ` set fs" using \<open>name = _\<close> by force
  qed
  have "distinct slides" by (simp add: slides distinct_fresh set_fresh Int_Diff)
  moreover have "set slides = set named \<union> {n \<in> zf_Name ` set files. isSlidePart n \<and> slide_number n \<noteq> None}"
    by (simp only: slides set_append set_fresh set_map files Diff_empty Un_Diff_cancel)
  moreover have "\<forall>(n, f) \<in> set fs. slide_number (zf_Name f) = Some n" using mem by auto
  ultimately show ?thesis by (intro conjI slides fs(2))
qed

end
