(* ===== verification/Pptx_Examples.thy ===== *)
theory Pptx_Examples
  imports Pptx_Correct Docx
begin

text \<open>Concrete decks: one whose slides are renumbered, and one with an absolute notes target.\<close>

definition part :: "string \<Rightarrow> string \<Rightarrow> (string, nat) ZipFile" where
  "part name data = \<lparr>zf_Name = name, zf_Open = Inr data\<rparr>"

definition demo_files :: "(string, nat) ZipFile list" where
  "demo_files = [part ''ppt/slides/slide10.xml'' ''x'', part ''ppt/slides/slide2.xml'' ''y'',
     part ''ppt/slides/notes.txt'' ''n'', part ''ppt/slides/slide1.xml'' ''z'']"

definition demo_order :: "string list" where
  "demo_order = [''ppt/slides/slide2.xml'', ''ppt/slides/slide7.xml'']"

theorem resolveOrder_complete_witness:
  "\<exists>fs. sortedSlides demo_docx demo_files = Some fs
    \<and> set (map zf_Name (resolveOrder demo_order fs (byName demo_files))) =
      {''ppt/slides/slide2.xml'', ''ppt/slides/slide1.xml'', ''ppt/slides/slide10.xml''}"
proof -
  have sort: "\<forall>xs. set (sort_slides demo_docx xs) = set xs \<and> sorted (map fst (sort_slides demo_docx xs))"
    by (simp add: demo_docx_def)
  obtain fs where fs: "sortedSlides demo_docx demo_files = Some fs"
    using slide_list_Some [of demo_files] by (auto simp: sortedSlides_def)
  have names: "zf_Name ` set demo_files = {''ppt/slides/slide10.xml'', ''ppt/slides/slide2.xml'',
      ''ppt/slides/notes.txt'', ''ppt/slides/slide1.xml''}"
    by (auto simp: demo_files_def part_def)
  have num: "slide_number ''ppt/slides/slide10.xml'' = Some 10" "slide_number ''ppt/slides/slide2.xml'' = Some 2"
    "slide_number ''ppt/slides/slide1.xml'' = Some 1"
    by (simp_all add: slide_number_def names_def Atoi_def digits_val_def digit_def)
  have parts: "isSlidePart ''ppt/slides/slide10.xml''" "isSlidePart ''ppt/slides/slide2.xml''"
    "isSlidePart ''ppt/slides/slide1.xml''" "\<not> isSlidePart ''ppt/slides/notes.txt''"
    by (simp_all add: isSlidePart_def names_def suffix_to_prefix)
  have "set (map zf_Name (resolveOrder demo_order fs (byName demo_files))) =
      set (filter (\<lambda>n. isSlidePart n \<and> n \<in> zf_Name ` set demo_files) demo_order)
      \<union> {n \<in> zf_Name ` set demo_files. isSlidePart n \<and> slide_number n \<noteq> None}"
    using resolveOrder_complete [OF fs sort refl refl] by blast
  also have "\<dots> = {''ppt/slides/slide2.xml'', ''ppt/slides/slide1.xml'', ''ppt/slides/slide10.xml''}"
    unfolding names using num parts by (auto simp: demo_order_def)
  finally show ?thesis using fs by blast
qed

subsection \<open>Absolute targets\<close>

definition demo_rels :: "string \<Rightarrow> Relationship list" where
  "demo_rels target = [\<lparr>rel_ID = ''rId1'', rel_Type = notesRelType, rel_Target = target\<rparr>]"

definition demo_deck :: "string \<Rightarrow> (string, XmlToken list, nat) Ooxml" where
  "demo_deck target = demo_docx\<lparr>xml_relationships := (\<lambda>_. Inr (demo_rels target))\<rparr>"

definition notes_files :: "(string, nat) ZipFile list" where
  "notes_files = [part ''ppt/slides/slide1.xml'' ''s'', part ''ppt/slides/_rels/slide1.xml.rels'' ''rels'',
     part ''ppt/notesSlides/notesSlide1.xml'' ''n'']"

text \<open>
  A relationship target that starts with a slash names a part from the root of the package,
  but it is resolved against the slide's directory: a deck whose notes are there, under the name
  the relationship gives, is rejected as malformed, while the relative form of the same target
  finds them.
\<close>

theorem notesFor_absolute_target:
  "notesFor (demo_deck ''../notesSlides/notesSlide1.xml'') quarter (byName notes_files)
      ''ppt/slides/slide1.xml'' 100 =
     Some (Inr (Some (part ''ppt/notesSlides/notesSlide1.xml'' ''n'')), 96)
   \<and> notesFor (demo_deck ''/ppt/notesSlides/notesSlide1.xml'') quarter (byName notes_files)
      ''ppt/slides/slide1.xml'' 100 =
     Some (Inl (malformed (NotesNotFound ''ppt/slides/ppt/notesSlides/notesSlide1.xml''
       ''ppt/slides/slide1.xml'')), 96)"
proof -
  have path: "path_Dir ''ppt/slides/slide1.xml'' = ''ppt/slides''" "path_Base ''ppt/slides/slide1.xml'' = ''slide1.xml''"
    "path_Join ''ppt/slides'' ''../notesSlides/notesSlide1.xml'' = ''ppt/notesSlides/notesSlide1.xml''"
    "path_Join ''ppt/slides'' ''/ppt/notesSlides/notesSlide1.xml'' = ''ppt/slides/ppt/notesSlides/notesSlide1.xml''"
    by (simp_all add: path_Dir_def path_Base_def path_Join_def path_Clean_def TrimRight_def Let_def)
  have "readPart (demo_deck target) quarter (part ''ppt/slides/_rels/slide1.xml.rels'' ''rels'') 100 =
      Some (Inr ''rels'', 96)" for target
    by (simp add: readPart_def part_def demo_deck_def demo_docx_def go_eval cong: eval_congs)
  then show ?thesis
    by (simp add: notesFor_def path byName_def notes_files_def part_def demo_deck_def demo_rels_def)
qed

end
