(* ===== verification/Pptx_Deck.thy ===== *)
theory Pptx_Deck
  imports Pptx_Examples
begin

text \<open>
  The round trip of \<^verbatim>\<open>extract/pptx/pptx.go\<close>: a deck written as an archive of parts is
  read back slide by slide, notes after their slide, in the order of the presentation, and the
  one budget of decompressed bytes pays for every part that is read.
\<close>

subsection \<open>Reading a part that fits the budget\<close>

lemma capped_read_source:
  assumes src: "source rd rest" and fit: "len (rest z) \<le> rem" and big: "rem < 2 ^ 63 - 1"
  obtains c st z' where "capped_read rd n (rem, z) = Some ((c, st), (rem - len c, z'))"
    and "length c \<le> n" and "rest z = c @ rest z'" and "st = More \<Longrightarrow> 0 < n \<Longrightarrow> c \<noteq> []"
    and "st = EOF \<Longrightarrow> rest z' = []" and "\<And>e. st \<noteq> Failed e"
proof -
  have rem: "0 \<le> rem" using fit by linarith
  then have add: "add64 rem 1 = rem + 1" using big by (intro add64_id) auto
  define p where "p = (if rem + 1 < int n then nat (rem + 1) else n)"
  have p: "p \<le> n" "0 < n \<Longrightarrow> 0 < p" using rem by (auto simp: p_def)
  obtain c st z' where r: "rd p z = Some ((c, st), z')"
    using source.read_returns [OF src] by (metis prod.collapse)
  have ne: "st \<noteq> Failed e" for e using source.read_no_error [OF src] r by blast
  then have pre: "rest z = c @ rest z'"
    using stream.read_prefix [OF source.axioms(1) [OF src] r] by blast
  then have "len c \<le> rem" using fit by simp
  then have "capped_read rd n (rem, z) = Some ((c, st), (rem - len c, z'))"
    using r rem add by (auto simp: capped_read_def p_def Let_def)
  moreover have "length c \<le> n"
    using stream.read_fits [OF source.axioms(1) [OF src] r] p(1) by simp
  moreover have "st = More \<Longrightarrow> 0 < n \<Longrightarrow> c \<noteq> []"
    using source.read_progress [OF src] r p(2) by blast
  moreover have "st = EOF \<Longrightarrow> rest z' = []"
    using stream.read_end [OF source.axioms(1) [OF src]] r by blast
  ultimately show ?thesis using that pre ne by blast
qed

lemma capped_read_all:
  assumes src: "source rd rest" and grow: "growing grow"
    and fit: "len (rest z) \<le> rem" and big: "rem < 2 ^ 63 - 1"
  shows "\<exists>z'. io_ReadAll grow (capped_read rd) (rem, z) = Some ((rest z, None), (rem - len (rest z), z'))"
proof -
  have "\<exists>z'. read_all_loop grow (capped_read rd) cap b (rem, z) =
      Some ((b @ rest z, None), (rem - len (rest z), z'))"
    if "length b < cap" "len (rest z) \<le> rem" "rem < 2 ^ 63 - 1" for cap b z rem
    using that
  proof (induction "length (rest z)" arbitrary: cap b z rem rule: less_induct)
    case less
    obtain c st z' where r: "capped_read rd (cap - length b) (rem, z) = Some ((c, st), (rem - len c, z'))"
      "length c \<le> cap - length b" "rest z = c @ rest z'" "st = More \<Longrightarrow> 0 < cap - length b \<Longrightarrow> c \<noteq> []"
      "st = EOF \<Longrightarrow> rest z' = []" "\<And>e. st \<noteq> Failed e"
      using capped_read_source [OF src less.prems(2,3)] by metis
    have small: "\<not> cap < length (b @ c)" using r(2) less.prems(1) by simp
    show ?case
    proof (cases st)
      case More
      have "c \<noteq> []" using r(4) More less.prems(1) by simp
      then have sh: "length (rest z') < length (rest z)" using r(3) by simp
      have room: "length (b @ c) < (if length (b @ c) = cap then grow cap else cap)"
        using small grow by auto
      have "len (rest z') \<le> rem - len c" "rem - len c < 2 ^ 63 - 1" using less.prems(2,3) r(3) by simp_all
      from less.hyps [OF sh room this] obtain z'' where
        "read_all_loop grow (capped_read rd) (if length (b @ c) = cap then grow cap else cap) (b @ c)
          (rem - len c, z') = Some (((b @ c) @ rest z', None), (rem - len c - len (rest z'), z''))"
        by blast
      then show ?thesis
        using r(1,3) More small by (subst read_all_loop.simps) (simp add: Let_def algebra_simps)
    next
      case EOF
      then show ?thesis
        using r(1,3) r(5) [OF EOF] small by (subst read_all_loop.simps) (simp add: Let_def)
    next
      case (Failed e)
      then show ?thesis using r(6) by blast
    qed
  qed
  from this [of "[]" 512 z rem, OF _ fit big] show ?thesis by (simp add: io_ReadAll_def)
qed

text \<open>A decoder that delivers a list of tokens and leaves the reader in a state.\<close>

fun delivers_to ::
  "('d \<Rightarrow> int \<times> 'z \<Rightarrow> (('x Cause option + XmlToken) \<times> 'd \<times> int \<times> 'z) option) \<Rightarrow> 'd \<Rightarrow> int \<times> 'z \<Rightarrow>
   XmlToken list \<Rightarrow> int \<times> 'z \<Rightarrow> bool" where
  "delivers_to tok d st [] st' \<longleftrightarrow> (\<exists>d'. tok d st = Some (Inl None, d', st'))"
| "delivers_to tok d st (t # ts) st' \<longleftrightarrow>
     (\<exists>d1 st1. tok d st = Some (Inr t, d1, st1) \<and> delivers_to tok d1 st1 ts st')"

lemma token_loop_delivers_to:
  assumes "calm_ctx ctx" and "delivers_to tok d st ts st'"
  shows "\<exists>w'. token_loop ctx tok d acc st w =
    Some (Inr (snd (foldl (\<lambda>a t. token_step t a) acc ts)), st', w')"
  using assms(2)
proof (induction ts arbitrary: d st acc w)
  case Nil
  obtain w1 where w: "ctx w = (None, w1)" using assms(1) unfolding calm_ctx_def by (metis prod.collapse)
  then show ?case using Nil by (subst token_loop.simps) auto
next
  case (Cons t ts)
  then obtain d' st1 where t: "tok d st = Some (Inr t, d', st1)" "delivers_to tok d' st1 ts st'" by auto
  obtain w1 where w: "ctx w = (None, w1)" using assms(1) unfolding calm_ctx_def by (metis prod.collapse)
  show ?case using Cons.IH [OF t(2)] t(1) w by (subst token_loop.simps) auto
qed

text \<open>
  What the libraries are taken to do with parts that fit the budget: the decompressor delivers
  \<open>unpacked z\<close>, and the XML decoder reads a part to its end and delivers the tokens \<open>xml\<close> finds in it.
\<close>

definition decodes_parts ::
  "('z, 'd, 'x) Ooxml \<Rightarrow> ('z \<Rightarrow> string) \<Rightarrow> (string \<Rightarrow> XmlToken list option) \<Rightarrow> bool" where
  "decodes_parts X unpacked xml \<longleftrightarrow> (\<forall>z r ts. xml (unpacked z) = Some ts \<longrightarrow> len (unpacked z) \<le> r \<longrightarrow>
     r < 2 ^ 63 - 1 \<longrightarrow>
     (\<exists>z'. delivers_to (xml_Token X (capped_read (inflate X))) (xml_NewDecoder X) (r, z) ts
        (r - len (unpacked z), z')))"

definition part_content :: "('z \<Rightarrow> string) \<Rightarrow> ('z, 'x) ZipFile \<Rightarrow> string option" where
  "part_content unpacked f = (case zf_Open f of Inl c \<Rightarrow> None | Inr z \<Rightarrow> Some (unpacked z))"

lemma readPart_fits:
  assumes "source (inflate X) unpacked" and "growing grow" and "part_content unpacked f = Some c"
    and "len c \<le> r" and "r < 2 ^ 63 - 1"
  shows "readPart X grow f r = Some (Inr c, r - len c)"
proof -
  obtain z where z: "zf_Open f = Inr z" "unpacked z = c"
    using assms(3) by (auto simp: part_content_def split: sum.splits)
  obtain z' where "io_ReadAll grow (capped_read (inflate X)) (r, z) = Some ((c, None), (r - len c, z'))"
    using capped_read_all [OF assms(1,2), of z r] assms(4,5) z(2) by auto
  then show ?thesis using z by (simp add: readPart_def)
qed

text \<open>The text of paragraphs before normalization.\<close>

abbreviation raw_text :: "Item list list \<Rightarrow> string" where
  "raw_text ps \<equiv> concat (map (\<lambda>p. para_text p @ [LF, LF]) ps)"

lemma decode_fits:
  assumes "decodes_parts X unpacked xml" and "calm_ctx ctx" and "part_content unpacked f = Some c"
    and "xml c = Some (part_tokens ps)" and "well_formed ps" and "len c \<le> r" and "r < 2 ^ 63 - 1"
  shows "\<exists>w'. decode X ctx f r w = Some (Inr (raw_text ps), r - len c, w')"
proof -
  obtain z where z: "zf_Open f = Inr z" "unpacked z = c"
    using assms(3) by (auto simp: part_content_def split: sum.splits)
  obtain z' where "delivers_to (xml_Token X (capped_read (inflate X))) (xml_NewDecoder X) (r, z)
      (part_tokens ps) (r - len c, z')"
    using assms(1,4,6,7) z(2) unfolding decodes_parts_def by blast
  from token_loop_delivers_to [OF assms(2) this, of "(False, [])" w]
  show ?thesis using read_part [OF assms(5), of "[]"] z(1) by (auto simp: decode_def)
qed

subsection \<open>The slides of a deck\<close>

definition rels_name :: "string \<Rightarrow> string" where
  "rels_name slide = path_Dir slide @ ''/_rels/'' @ path_Base slide @ ''.rels''"

text \<open>
  A slide with its paragraphs, those of its notes included, and the decompressed bytes that reading
  it takes: the slide alone, with a part of relationships that names no notes, or with notes.
\<close>

inductive slide_reads ::
  "('z, 'd, 'x) Ooxml \<Rightarrow> ('z \<Rightarrow> string) \<Rightarrow> (string \<Rightarrow> XmlToken list option) \<Rightarrow>
   (string \<rightharpoonup> ('z, 'x) ZipFile) \<Rightarrow> ('z, 'x) ZipFile \<Rightarrow> Item list list \<Rightarrow> int \<Rightarrow> bool"
  for X unpacked xml m where
  alone: "part_content unpacked sf = Some c \<Longrightarrow> xml c = Some (part_tokens ps) \<Longrightarrow> well_formed ps \<Longrightarrow>
    m (rels_name (zf_Name sf)) = None \<Longrightarrow> slide_reads X unpacked xml m sf ps (len c)"
| no_notes: "part_content unpacked sf = Some c \<Longrightarrow> xml c = Some (part_tokens ps) \<Longrightarrow> well_formed ps \<Longrightarrow>
    m (rels_name (zf_Name sf)) = Some rf \<Longrightarrow> part_content unpacked rf = Some rc \<Longrightarrow>
    xml_relationships X rc = Inr rels \<Longrightarrow> notes_target rels = None \<Longrightarrow>
    slide_reads X unpacked xml m sf ps (len c + len rc)"
| with_notes: "part_content unpacked sf = Some c \<Longrightarrow> xml c = Some (part_tokens ps) \<Longrightarrow> well_formed ps \<Longrightarrow>
    m (rels_name (zf_Name sf)) = Some rf \<Longrightarrow> part_content unpacked rf = Some rc \<Longrightarrow>
    xml_relationships X rc = Inr rels \<Longrightarrow> notes_target rels = Some t \<Longrightarrow>
    m (path_Join (path_Dir (zf_Name sf)) t) = Some nf \<Longrightarrow> part_content unpacked nf = Some nc \<Longrightarrow>
    xml nc = Some (part_tokens ns) \<Longrightarrow> well_formed ns \<Longrightarrow>
    slide_reads X unpacked xml m sf (ps @ ns) (len c + len rc + len nc)"

lemma slide_reads_size: "slide_reads X unpacked xml m sf ps k \<Longrightarrow> 0 \<le> k"
  by (induction rule: slide_reads.induct) auto

text \<open>One turn of the loop.\<close>

lemma slides_loop_one:
  assumes lib: "source (inflate X) unpacked" "decodes_parts X unpacked xml" "growing grow"
    and ctx: "calm_ctx ctx" and s: "slide_reads X unpacked xml m sf ps k" and fit: "k \<le> r" "r < 2 ^ 63 - 1"
  shows "\<exists>w'. slides_loop X grow ctx m (sf # slides) b r w =
    slides_loop X grow ctx m slides (b @ raw_text ps) (r - k) w'"
proof -
  obtain w1 where w: "ctx w = (None, w1)" using ctx unfolding calm_ctx_def by (metis prod.collapse)
  note read = readPart_fits [OF lib(1,3)] and dec = decode_fits [OF lib(2) ctx]
  from s show ?thesis
  proof cases
    case (alone c)
    then obtain w2 where "decode X ctx sf r w1 = Some (Inr (raw_text ps), r - len c, w2)"
      using dec [of sf c ps r w1] fit by auto
    then show ?thesis
      using w alone by (intro exI [of _ w2]) (simp add: notesFor_def Let_def rels_name_def)
  next
    case (no_notes c rf rc rels)
    then obtain w2 where "decode X ctx sf r w1 = Some (Inr (raw_text ps), r - len c, w2)"
      using dec [of sf c ps r w1] fit by auto
    moreover have "readPart X grow rf (r - len c) = Some (Inr rc, r - len c - len rc)"
      using no_notes fit by (intro read) auto
    ultimately show ?thesis
      using w no_notes by (intro exI [of _ w2]) (simp add: notesFor_def Let_def rels_name_def algebra_simps)
  next
    case (with_notes c qs rf rc rels t nf nc ns)
    then obtain w2 where "decode X ctx sf r w1 = Some (Inr (raw_text qs), r - len c, w2)"
      using dec [of sf c qs r w1] fit by auto
    moreover have "readPart X grow rf (r - len c) = Some (Inr rc, r - len c - len rc)"
      using with_notes fit by (intro read) auto
    moreover obtain w3 where "decode X ctx nf (r - len c - len rc) w2 =
        Some (Inr (raw_text ns), r - len c - len rc - len nc, w3)"
      using dec [of nf nc ns "r - len c - len rc" w2] with_notes fit by auto
    ultimately show ?thesis
      using w with_notes by (intro exI [of _ w3]) (simp add: notesFor_def Let_def rels_name_def algebra_simps)
  qed
qed

text \<open>A deck: its slides, their paragraphs and their sizes.\<close>

type_synonym ('z, 'x) deck = "(('z, 'x) ZipFile \<times> Item list list \<times> int) list"

abbreviation deck_paras :: "('z, 'x) deck \<Rightarrow> Item list list" where
  "deck_paras deck \<equiv> concat (map (\<lambda>(sf, ps, k). ps) deck)"

abbreviation deck_size :: "('z, 'x) deck \<Rightarrow> int" where
  "deck_size deck \<equiv> sum_list (map (\<lambda>(sf, ps, k). k) deck)"

definition deck_reads where
  "deck_reads X unpacked xml m deck \<longleftrightarrow>
     list_all (\<lambda>(sf, ps, k). slide_reads X unpacked xml m sf ps k) deck"

lemma deck_size_ge: "deck_reads X unpacked xml m deck \<Longrightarrow> 0 \<le> deck_size deck"
  by (induction deck) (auto simp: deck_reads_def dest: slide_reads_size)

lemma slides_loop_deck:
  assumes lib: "source (inflate X) unpacked" "decodes_parts X unpacked xml" "growing grow" "calm_ctx ctx"
    and "deck_reads X unpacked xml m deck" and "deck_size deck \<le> r" and "r < 2 ^ 63 - 1"
  shows "\<exists>w'. slides_loop X grow ctx m (map fst deck) b r w =
    Some (Inr (b @ raw_text (deck_paras deck)), r - deck_size deck, w')"
  using assms(5-7)
proof (induction deck arbitrary: b r w)
  case (Cons d deck)
  obtain sf ps k where d: "d = (sf, ps, k)" by (cases d)
  have s: "slide_reads X unpacked xml m sf ps k" and rest: "deck_reads X unpacked xml m deck"
    using Cons.prems(1) d by (auto simp: deck_reads_def)
  have k: "k \<le> r" "0 \<le> k" "deck_size deck \<le> r - k" "r - k < 2 ^ 63 - 1"
    using Cons.prems(2,3) deck_size_ge [OF rest] slide_reads_size [OF s] d by auto
  obtain w1 where "slides_loop X grow ctx m (sf # map fst deck) b r w =
      slides_loop X grow ctx m (map fst deck) (b @ raw_text ps) (r - k) w1"
    using slides_loop_one [OF lib s k(1) Cons.prems(3)] by blast
  then show ?case
    using Cons.IH [OF rest k(3,4), of "b @ raw_text ps" w1] d by (simp add: algebra_simps)
qed simp

subsection \<open>The order of the deck\<close>

abbreviation deck_names :: "('z, 'x) deck \<Rightarrow> string list" where
  "deck_names deck \<equiv> map (\<lambda>d. zf_Name (fst d)) deck"

text \<open>The archive holds the slides of the deck, under their names, and no other numbered slide.\<close>

definition deck_in :: "('z, 'x) ZipFile list \<Rightarrow> ('z, 'x) deck \<Rightarrow> bool" where
  "deck_in files deck \<longleftrightarrow> distinct (deck_names deck)
     \<and> list_all (\<lambda>d. isSlidePart (zf_Name (fst d)) \<and> byName files (zf_Name (fst d)) = Some (fst d)) deck
     \<and> (\<forall>f \<in> set files. isSlidePart (zf_Name f) \<longrightarrow> slide_number (zf_Name f) \<noteq> None \<longrightarrow>
          zf_Name f \<in> set (deck_names deck))"

text \<open>The presentation lists the slides in the order of the deck.\<close>

definition presents :: "('z, 'd, 'x) Ooxml \<Rightarrow> ('z \<Rightarrow> string) \<Rightarrow> ('z, 'x) ZipFile list \<Rightarrow>
    ('z, 'x) deck \<Rightarrow> int \<Rightarrow> bool" where
  "presents X unpacked files deck k \<longleftrightarrow>
     (\<exists>pf pc rf rc rids rels. byName files presentationPart = Some pf \<and> part_content unpacked pf = Some pc
        \<and> byName files presentationRelsPart = Some rf \<and> part_content unpacked rf = Some rc
        \<and> xml_presentation X pc = Inr rids \<and> xml_relationships X rc = Inr rels
        \<and> map (path_Join presentationDir) (List.map_filter (relMap rels) rids) = deck_names deck
        \<and> k = len pc + len rc)"

lemma presentationOrder_deck:
  assumes "source (inflate X) unpacked" and "growing grow" and "presents X unpacked files deck k"
    and "k \<le> r" and "r < 2 ^ 63 - 1"
  shows "presentationOrder X grow (byName files) r = Some (Inr (deck_names deck), r - k)"
proof -
  obtain pf pc rf rc rids rels where p: "byName files presentationPart = Some pf"
    "part_content unpacked pf = Some pc" "byName files presentationRelsPart = Some rf"
    "part_content unpacked rf = Some rc" "xml_presentation X pc = Inr rids"
    "xml_relationships X rc = Inr rels" "k = len pc + len rc"
    "map (path_Join presentationDir) (List.map_filter (relMap rels) rids) = deck_names deck"
    using assms(3) unfolding presents_def by blast
  have "readPart X grow pf r = Some (Inr pc, r - len pc)"
    using p assms(4,5) by (intro readPart_fits [OF assms(1,2)]) auto
  moreover have "readPart X grow rf (r - len pc) = Some (Inr rc, r - len pc - len rc)"
    using p assms(4,5) by (intro readPart_fits [OF assms(1,2)]) auto
  ultimately show ?thesis using p by (simp add: presentationOrder_def)
qed

lemma resolve_ordered_deck:
  "distinct (deck_names deck) \<Longrightarrow> set (deck_names deck) \<inter> seen = {} \<Longrightarrow>
     list_all (\<lambda>d. isSlidePart (zf_Name (fst d)) \<and> m (zf_Name (fst d)) = Some (fst d)) deck \<Longrightarrow>
     resolve_ordered (deck_names deck) m seen out = (seen \<union> set (deck_names deck), out @ map fst deck)"
  by (induction deck arbitrary: seen out) auto

lemma resolve_files_seen:
  "\<forall>(n, f) \<in> set fs. zf_Name f \<in> seen \<Longrightarrow> resolve_files fs seen out = out"
  by (induction fs seen out rule: resolve_files.induct) auto

lemma resolveOrder_deck:
  assumes "deck_in files deck" and "\<forall>xs. set (sort_slides X xs) = set xs"
  shows "\<exists>fs. sortedSlides X files = Some fs
    \<and> resolveOrder (deck_names deck) fs (byName files) = map fst deck"
proof -
  obtain ss where ss: "slide_list files = Some ss"
    "\<forall>n f. (n, f) \<in> set ss \<longleftrightarrow>
       f \<in> set files \<and> isSlidePart (zf_Name f) \<and> slide_number (zf_Name f) = Some n"
    using slide_list_Some by blast
  have "\<forall>(n, f) \<in> set (sort_slides X ss). zf_Name f \<in> set (deck_names deck)"
    using ss(2) assms(1) unfolding assms(2) [rule_format] deck_in_def by fast
  moreover have "resolve_ordered (deck_names deck) (byName files) {} [] =
      (set (deck_names deck), map fst deck)"
    using resolve_ordered_deck [of deck "{}" "byName files" "[]"] assms(1)
    by (simp add: deck_in_def)
  ultimately have "resolveOrder (deck_names deck) (sort_slides X ss) (byName files) = map fst deck"
    unfolding resolveOrder_def by (simp add: resolve_files_seen)
  then show ?thesis using ss(1) by (simp add: sortedSlides_def)
qed


subsection \<open>A deck of two slides, the first with notes, presented in reverse\<close>

definition two_slides_xml :: "string \<Rightarrow> XmlToken list option" where
  "two_slides_xml c =
     (if c = ''s1'' then Some (part_tokens [[Run ''One'']])
      else if c = ''s2'' then Some (part_tokens [[Run ''Two'']])
      else if c = ''n1'' then Some (part_tokens [[Run ''Note'']]) else None)"

text \<open>A decoder that reads its part in one go and then hands out the tokens.\<close>

fun two_slides_token :: "(int \<times> string, nat Cause) reader \<Rightarrow> XmlToken list option \<Rightarrow> int \<times> string \<Rightarrow>
    ((nat Cause option + XmlToken) \<times> XmlToken list option \<times> int \<times> string) option" where
  "two_slides_token rd None st =
     do { r \<leftarrow> rd 512 st;
          (case two_slides_xml (fst (fst r)) of
             Some (t # ts) \<Rightarrow> Some (Inr t, Some ts, snd r)
           | _ \<Rightarrow> Some (Inl (Some (Lib 0)), None, snd r)) }"
| "two_slides_token rd (Some []) st = Some (Inl None, Some [], st)"
| "two_slides_token rd (Some (t # ts)) st = Some (Inr t, Some ts, st)"

definition two_slides_files :: "(string, nat) ZipFile list" where
  "two_slides_files = [part ''ppt/presentation.xml'' ''p'', part ''ppt/_rels/presentation.xml.rels'' ''q'',
     part ''ppt/slides/slide1.xml'' ''s1'', part ''ppt/slides/_rels/slide1.xml.rels'' ''r1'',
     part ''ppt/notesSlides/notesSlide1.xml'' ''n1'', part ''ppt/slides/slide2.xml'' ''s2'']"

definition two_slides :: "(string, XmlToken list option, nat) Ooxml" where
  "two_slides = \<lparr>zip_NewReader = (\<lambda>_. Inr two_slides_files), inflate = bytes_read, xml_NewDecoder = None,
     xml_Token = two_slides_token, xml_presentation = (\<lambda>_. Inr [''rId2'', ''rId1'']),
     xml_relationships = (\<lambda>c. Inr (if c = ''q''
       then [\<lparr>rel_ID = ''rId1'', rel_Type = ''slide'', rel_Target = ''slides/slide1.xml''\<rparr>,
             \<lparr>rel_ID = ''rId2'', rel_Type = ''slide'', rel_Target = ''slides/slide2.xml''\<rparr>]
       else demo_rels ''../notesSlides/notesSlide1.xml'')),
     sort_slides = sort_key fst\<rparr>"

definition two_slides_deck :: "(string, nat) deck" where
  "two_slides_deck = [(part ''ppt/slides/slide2.xml'' ''s2'', [[Run ''Two'']], 2),
     (part ''ppt/slides/slide1.xml'' ''s1'', [[Run ''One'']] @ [[Run ''Note'']], 6)]"

lemma two_slides_delivers:
  "delivers_to (two_slides_token rd) (Some ts) st ts st"
  by (induction ts) auto

lemma two_slides_decodes: "decodes_parts two_slides (\<lambda>z. z) two_slides_xml"
  unfolding decodes_parts_def
proof (intro allI impI)
  fix z r ts
  assume z: "two_slides_xml z = Some ts" and r: "len z \<le> r" "r < 2 ^ 63 - 1"
  then have len: "length z = 2" and ts: "\<exists>t ts'. ts = t # ts'"
    by (auto simp: two_slides_xml_def part_tokens_def split: if_splits)
  obtain t ts' where t: "ts = t # ts'" using ts by blast
  have "add64 r 1 = r + 1" using r len by (intro add64_id) auto
  then have "(capped_read bytes_read :: (int \<times> string, nat Cause) reader) 512 (r, z) = Some ((z, More), (r - 2, []))"
    using r len by (auto simp: capped_read_def bytes_read_def Let_def)
  then have "two_slides_token (capped_read bytes_read) None (r, z) = Some (Inr t, Some ts', r - 2, [])"
    using z t by simp
  then show "\<exists>z'. delivers_to (xml_Token two_slides (capped_read (inflate two_slides)))
      (xml_NewDecoder two_slides) (r, z) ts (r - len z, z')"
    using t len two_slides_delivers [of "capped_read bytes_read" ts' "(r - 2, [])"]
    by (auto simp: two_slides_def)
qed

lemma two_slides_paths:
  "path_Join ''ppt/slides'' ''../notesSlides/notesSlide1.xml'' = ''ppt/notesSlides/notesSlide1.xml''"
  "path_Join ''ppt'' ''slides/slide1.xml'' = ''ppt/slides/slide1.xml''"
  "path_Join ''ppt'' ''slides/slide2.xml'' = ''ppt/slides/slide2.xml''"
  "path_Dir ''ppt/slides/slide1.xml'' = ''ppt/slides''"
  "rels_name ''ppt/slides/slide1.xml'' = ''ppt/slides/_rels/slide1.xml.rels''"
  "rels_name ''ppt/slides/slide2.xml'' = ''ppt/slides/_rels/slide2.xml.rels''"
  by (simp_all add: rels_name_def path_Dir_def path_Base_def path_Join_def path_Clean_def TrimRight_def Let_def)

lemma two_slides_reads:
  "deck_reads two_slides (\<lambda>z. z) two_slides_xml (byName two_slides_files) two_slides_deck"
proof -
  have wf: "well_formed [[Run s]]" for s by (simp add: well_formed_def)
  have "slide_reads two_slides (\<lambda>z. z) two_slides_xml (byName two_slides_files)
      (part ''ppt/slides/slide2.xml'' ''s2'') [[Run ''Two'']] (len ''s2'')"
    by (rule slide_reads.alone)
      (simp_all add: part_content_def part_def two_slides_xml_def wf two_slides_paths byName_def
        two_slides_files_def)
  moreover have "slide_reads two_slides (\<lambda>z. z) two_slides_xml (byName two_slides_files)
      (part ''ppt/slides/slide1.xml'' ''s1'') ([[Run ''One'']] @ [[Run ''Note'']])
      (len ''s1'' + len ''r1'' + len ''n1'')"
    by (rule slide_reads.with_notes [where t = "''../notesSlides/notesSlide1.xml''"
          and rf = "part ''ppt/slides/_rels/slide1.xml.rels'' ''r1''"
          and nf = "part ''ppt/notesSlides/notesSlide1.xml'' ''n1''"
          and rels = "demo_rels ''../notesSlides/notesSlide1.xml''"])
      (simp_all add: part_content_def part_def two_slides_xml_def wf two_slides_paths byName_def
        two_slides_files_def two_slides_def demo_rels_def)
  ultimately show ?thesis by (simp add: deck_reads_def two_slides_deck_def)
qed

lemma two_slides_in: "deck_in two_slides_files two_slides_deck"
  by (simp add: deck_in_def two_slides_deck_def two_slides_files_def part_def byName_def
      isSlidePart_def names_def suffix_to_prefix)

lemma two_slides_presented: "presents two_slides (\<lambda>z. z) two_slides_files two_slides_deck 2"
  unfolding presents_def
  by (rule exI [of _ "part ''ppt/presentation.xml'' ''p''"], rule exI [of _ "''p''"],
      rule exI [of _ "part ''ppt/_rels/presentation.xml.rels'' ''q''"], rule exI [of _ "''q''"])
    (simp add: byName_def two_slides_files_def part_def part_content_def presentationPart_def
      presentationRelsPart_def two_slides_def List.map_filter_def relMap_def presentationDir_def
      two_slides_paths two_slides_deck_def)


end
