(* ===== verification/Pptx_Budget.thy ===== *)
theory Pptx_Budget
  imports Pptx_Deck
begin

text \<open>
  The budget of decompressed bytes in \<^verbatim>\<open>extract/pptx/pptx.go\<close>: the guard against archives that
  expand without end. What is left in \<open>partDecoder\<close> is the ledger of all bytes that were inflated,
  in every part and on every path, and it is overdrawn by one byte at most.
\<close>

subsection \<open>Reading through the capped reader\<close>

text \<open>\<open>pulls rd q b q'\<close>: reads on \<open>rd\<close> took its state from \<open>q\<close> to \<open>q'\<close> and delivered \<open>b\<close>.\<close>

inductive pulls :: "('q, 'e) reader \<Rightarrow> 'q \<Rightarrow> string \<Rightarrow> 'q \<Rightarrow> bool" for rd where
  pulls_none: "pulls rd q [] q"
| pulls_more: "pulls rd q b q' \<Longrightarrow> rd n q' = Some ((c, st), q'') \<Longrightarrow> pulls rd q (b @ c) q''"

lemma pulls_one: "rd n q = Some ((c, st), q') \<Longrightarrow> pulls rd q c q'"
  using pulls_more [OF pulls_none] by fastforce

lemma pulls_trans: "pulls rd q' c q'' \<Longrightarrow> pulls rd q b q' \<Longrightarrow> pulls rd q (b @ c) q''"
proof (induction rule: pulls.induct)
  case (pulls_more q c1 q' n c2 st q'')
  then show ?case using pulls.pulls_more by (metis append_assoc)
qed simp

text \<open>
  What the code relies on: a decompressor returns no more than the buffer holds, and an XML
  decoder touches its source only by reading from it.
\<close>

definition fits_buffer :: "('q, 'e) reader \<Rightarrow> bool" where
  "fits_buffer rd \<longleftrightarrow> (\<forall>n q c st q'. rd n q = Some ((c, st), q') \<longrightarrow> length c \<le> n)"

definition only_reads :: "('z, 'd, 'x) Ooxml \<Rightarrow> bool" where
  "only_reads X \<longleftrightarrow> (\<forall>rd d q t d' q'. xml_Token X rd d q = Some (t, d', q') \<longrightarrow> (\<exists>b. pulls rd q b q'))"

text \<open>The balance after the bytes \<open>b\<close> have been delivered.\<close>

lemma capped_read_ledger:
  assumes "fits_buffer rd" and "capped_read rd n (rem, z) = Some ((c, st), (rem', z'))"
    and "- 1 \<le> rem" and "rem < 2 ^ 63"
  shows "rem' = rem - len c \<and> - 1 \<le> rem'"
proof (cases "rem < 0")
  case False
  define p where "p = (if add64 rem 1 < int n then nat (add64 rem 1) else n)"
  have r: "\<exists>st'. rd p z = Some ((c, st'), z')" "rem' = rem - len c" "add64 rem 1 < int n \<Longrightarrow> 0 \<le> add64 rem 1"
    using assms(2) False by (auto simp: capped_read_def Let_def bind_eq_Some p_def split: if_splits)
  have "len c \<le> int p" using r(1) assms(1) unfolding fits_buffer_def by (metis of_nat_mono)
  moreover have "int p \<le> rem + 1"
  proof (cases "rem = 2 ^ 63 - 1")
    case True
    then have "add64 rem 1 = - (2 ^ 63)" by (simp add: add64_def wrap64_def)
    then show ?thesis using r(3) by (auto simp: p_def)
  next
    case False
    then have "add64 rem 1 = rem + 1" using assms(3,4) \<open>\<not> rem < 0\<close> by (intro add64_id) auto
    then show ?thesis using \<open>\<not> rem < 0\<close> by (auto simp: p_def)
  qed
  ultimately show ?thesis using r(2) by simp
qed (use assms in \<open>auto simp: capped_read_def\<close>)

lemma pulls_ledger:
  assumes "pulls (capped_read rd) q b q'" and "fits_buffer rd" and "- 1 \<le> fst q" and "fst q < 2 ^ 63"
  shows "fst q' = fst q - len b \<and> - 1 \<le> fst q'"
  using assms(1,3,4)
proof (induction rule: pulls.induct)
  case (pulls_more q b q' n c st q'')
  then have q': "fst q' = fst q - len b" "- 1 \<le> fst q'" by simp_all
  have "capped_read rd n (fst q', snd q') = Some ((c, st), (fst q'', snd q''))"
    using pulls_more.hyps(2) by simp
  from capped_read_ledger [OF assms(2) this q'(2)] show ?case using q' pulls_more.prems(2) by simp
qed simp

subsection \<open>Loops only pull\<close>

lemma read_all_loop_pulls:
  fixes rd :: "('q, 'e) reader"
  assumes run: "read_all_loop grow rd cap b q = Some (y, q')"
  shows "\<exists>c. pulls rd q c q'"
proof -
  let ?P = "\<lambda>grow (rd :: ('q, 'e) reader) cap b q (y :: (string \<times> 'e option) \<times> 'q). \<exists>c. pulls rd q c (snd y)"
  have "?P grow rd cap b q (y, q')"
  proof (rule read_all_loop.raw_induct [where P = ?P, OF _ run])
    fix loop and grow :: "nat \<Rightarrow> nat" and rd :: "('q, 'e) reader" and cap b q y
    assume IH: "\<And>grow rd cap b q y. loop grow rd cap b q = Some y \<Longrightarrow> ?P grow rd cap b q y"
      and eq: "do { r \<leftarrow> rd (cap - length b) q;
          let b' = b @ fst (fst r) in
          if cap < length b' then None
          else (case snd (fst r) of
                  EOF \<Rightarrow> Some ((b', None), snd r)
                | Failed e \<Rightarrow> Some ((b', Some e), snd r)
                | More \<Rightarrow> loop grow rd (if length b' = cap then grow cap else cap) b' (snd r)) } = Some y"
    obtain c st q1 where r: "rd (cap - length b) q = Some ((c, st), q1)"
      using eq by (cases "rd (cap - length b) q") auto
    show "?P grow rd cap b q y"
    proof (cases st)
      case More
      then have "loop grow rd (if length (b @ c) = cap then grow cap else cap) (b @ c) q1 = Some y"
        using eq r by (simp add: Let_def split: if_splits)
      from IH [OF this] show ?thesis using pulls_trans [OF _ pulls_one [of rd, OF r]] by blast
    qed (use eq r pulls_one [of rd, OF r] in \<open>auto simp: Let_def split: if_splits\<close>)
  qed
  then show ?thesis by simp
qed

lemma token_loop_pulls:
  fixes ctx :: "('w, 'x Cause) ctx" and rd :: "(int \<times> 'z, 'x Cause) reader"
    and tok :: "'d \<Rightarrow> int \<times> 'z \<Rightarrow> (('x Cause option + XmlToken) \<times> 'd \<times> int \<times> 'z) option"
  assumes tok: "\<And>d q t d' q'. tok d q = Some (t, d', q') \<Longrightarrow> \<exists>b. pulls rd q b q'"
    and run: "token_loop ctx tok d acc q w = Some (res, q', w')"
  shows "\<exists>b. pulls rd q b q'"
proof -
  let ?P = "\<lambda>(ctx :: ('w, 'x Cause) ctx)
    (tok' :: 'd \<Rightarrow> int \<times> 'z \<Rightarrow> (('x Cause option + XmlToken) \<times> 'd \<times> int \<times> 'z) option)
    (d :: 'd) (acc :: bool \<times> string) (q :: int \<times> 'z) (w :: 'w)
    (y :: (('x Cause + 'x Cause) + string) \<times> (int \<times> 'z) \<times> 'w). tok' = tok \<longrightarrow> (\<exists>b. pulls rd q b (fst (snd y)))"
  have "?P ctx tok d acc q w (res, q', w')"
  proof (rule token_loop.raw_induct [where P = ?P, OF _ run])
    fix loop and ctx :: "('w, 'x Cause) ctx"
      and tok' :: "'d \<Rightarrow> int \<times> 'z \<Rightarrow> (('x Cause option + XmlToken) \<times> 'd \<times> int \<times> 'z) option"
      and d acc q w y
    assume IH: "\<And>ctx tok' d acc q w y. loop ctx tok' d acc q w = Some y \<Longrightarrow> ?P ctx tok' d acc q w y"
      and eq: "(case ctx w of
        (None, w') \<Rightarrow>
          do { r \<leftarrow> tok' d q;
               (case fst r of
                  Inl None \<Rightarrow> Some (Inr (snd acc), snd (snd r), w')
                | Inl (Some c) \<Rightarrow> Some (Inl (Inr c), snd (snd r), w')
                | Inr t \<Rightarrow> loop ctx tok' (fst (snd r)) (token_step t acc) (snd (snd r)) w') }
      | (Some err, w') \<Rightarrow> Some (Inl (Inl err), q, w')) = Some y"
    obtain ce w1 where c: "ctx w = (ce, w1)" by (metis surj_pair)
    show "?P ctx tok' d acc q w y"
    proof (cases ce)
      case (Some e)
      then have "fst (snd y) = q" using eq c by auto
      then show ?thesis using pulls_none by metis
    next
      case None
      then obtain r d1 q1 where r: "tok' d q = Some (r, d1, q1)"
        using eq c by (cases "tok' d q") auto
      consider "r = Inl None" | x where "r = Inl (Some x)" | tk where "r = Inr tk"
        by (cases r) auto
      then show ?thesis
      proof cases
        case (3 tk)
        then have "loop ctx tok' d1 (token_step tk acc) q1 w1 = Some y" using eq c None r by simp
        note rest = IH [OF this]
        show ?thesis
        proof
          assume same: "tok' = tok"
          obtain b where b: "pulls rd q b q1" using tok r unfolding same by blast
          obtain c where "pulls rd q1 c (fst (snd y))" using rest same by blast
          from pulls_trans [OF this b] show "\<exists>b. pulls rd q b (fst (snd y))" by blast
        qed
      next
        case 1
        then have "fst (snd y) = q1" using eq c None r by auto
        then show ?thesis using tok r by metis
      next
        case (2 x)
        then have "fst (snd y) = q1" using eq c None r by auto
        then show ?thesis using tok r by metis
      qed
    qed
  qed
  then show ?thesis by simp
qed

subsection \<open>The ledger of an extraction\<close>

text \<open>
  \<open>ledger X r log r'\<close>: the parts in \<open>log\<close> were opened and read in this order, each from the start,
  delivering the bytes that stand beside it, and the balance went from \<open>r\<close> to \<open>r'\<close>.
\<close>

inductive ledger ::
  "('z, 'd, 'x) Ooxml \<Rightarrow> int \<Rightarrow> (('z, 'x) ZipFile \<times> string) list \<Rightarrow> int \<Rightarrow> bool" for X
where
  ledger_none: "ledger X r [] r"
| ledger_part: "ledger X r log r' \<Longrightarrow> zf_Open f = Inr z \<Longrightarrow>
    pulls (capped_read (inflate X)) (r', z) b (r'', z') \<Longrightarrow> ledger X r (log @ [(f, b)]) r''"

abbreviation inflated :: "(('z, 'x) ZipFile \<times> string) list \<Rightarrow> int" where
  "inflated log \<equiv> sum_list (map (\<lambda>x. len (snd x)) log)"

lemma ledger_balance:
  assumes "ledger X r log r'" and "fits_buffer (inflate X)" and "- 1 \<le> r" and "r < 2 ^ 63"
  shows "r' = r - inflated log \<and> - 1 \<le> r'"
  using assms(1,3,4)
proof induction
  case (ledger_part r log r' f z b r'' z')
  have "0 \<le> inflated log" by (rule sum_list_nonneg) auto
  then show ?case
    using pulls_ledger [OF ledger_part.hyps(3) assms(2)] ledger_part.IH ledger_part.prems by auto
qed simp

lemma ledger_trans: "ledger X r' log' r'' \<Longrightarrow> ledger X r log r' \<Longrightarrow> ledger X r (log @ log') r''"
proof (induction rule: ledger.induct)
  case (ledger_part r1 log' r2 f z b r3 z')
  show ?case
    using ledger.ledger_part [OF ledger_part.IH [OF ledger_part.prems] ledger_part.hyps(2,3)] by simp
qed simp

lemma readPart_ledger:
  assumes "readPart X grow f r = Some (res, r')"
  shows "\<exists>log. ledger X r log r'"
proof (cases "zf_Open f")
  case (Inr z)
  then obtain y z' where "read_all_loop grow (capped_read (inflate X)) 512 [] (r, z) = Some (y, (r', z'))"
    using assms by (auto simp: readPart_def io_ReadAll_def bind_eq_Some)
  then obtain b where "pulls (capped_read (inflate X)) (r, z) b (r', z')"
    using read_all_loop_pulls [of grow "capped_read (inflate X)" 512 "[]" "(r, z)" y "(r', z')"] by auto
  then show ?thesis using ledger_part [OF ledger_none Inr] by fast
qed (use assms ledger_none in \<open>fastforce simp: readPart_def\<close>)

lemma decode_ledger:
  assumes "only_reads X" and "decode X ctx f r w = Some (res, r', w')"
  shows "\<exists>log. ledger X r log r'"
proof (cases "zf_Open f")
  case (Inr z)
  then obtain y z' where "token_loop ctx (xml_Token X (capped_read (inflate X))) (xml_NewDecoder X)
      (False, []) (r, z) w = Some (y, (r', z'), w')"
    using assms(2) by (auto simp: decode_def bind_eq_Some)
  then obtain b where "pulls (capped_read (inflate X)) (r, z) b (r', z')"
    using token_loop_pulls assms(1) unfolding only_reads_def by meson
  then show ?thesis using ledger_part [OF ledger_none Inr] by fast
qed (use assms(2) ledger_none in \<open>fastforce simp: decode_def\<close>)

lemma presentationOrder_ledger:
  assumes "presentationOrder X grow m r = Some (res, r')"
  shows "\<exists>log. ledger X r log r'"
proof (cases "m presentationPart = None \<or> m presentationRelsPart = None")
  case True
  then have "r' = r" using assms by (auto simp: presentationOrder_def split: option.splits)
  then show ?thesis using ledger_none by metis
next
  case False
  then obtain pres relsF where m: "m presentationPart = Some pres" "m presentationRelsPart = Some relsF"
    by auto
  then obtain p r1 where p: "readPart X grow pres r = Some (p, r1)"
    using assms by (auto simp: presentationOrder_def bind_eq_Some)
  obtain log where log: "ledger X r log r1" using readPart_ledger [OF p] ..
  show ?thesis
  proof (cases p)
    case (Inl err)
    then show ?thesis using assms m p log by (auto simp: presentationOrder_def)
  next
    case (Inr presData)
    then obtain q where "readPart X grow relsF r1 = Some (q, r')"
      using assms m p by (auto simp: presentationOrder_def bind_eq_Some)
    from readPart_ledger [OF this] show ?thesis using ledger_trans log by blast
  qed
qed

lemma notesFor_ledger:
  assumes "notesFor X grow m name r = Some (res, r')"
  shows "\<exists>log. ledger X r log r'"
proof (cases "m (path_Dir name @ ''/_rels/'' @ path_Base name @ ''.rels'')")
  case None
  then have "r' = r" using assms by (simp add: notesFor_def Let_def)
  then show ?thesis using ledger_none by metis
next
  case (Some relsF)
  then obtain p where "readPart X grow relsF r = Some (p, r')"
    using assms by (auto simp: notesFor_def Let_def bind_eq_Some)
  from readPart_ledger [OF this] show ?thesis .
qed

lemma slides_loop_ledger:
  assumes "only_reads X" and "slides_loop X grow ctx m slides b r w = Some (res, r', w')"
  shows "\<exists>log. ledger X r log r'"
  using assms(2)
proof (induction slides arbitrary: b r w)
  case Nil
  then show ?case using ledger_none by auto
next
  case (Cons sf slides)
  obtain ce w1 where c: "ctx w = (ce, w1)" by (metis surj_pair)
  show ?case
  proof (cases ce)
    case (Some e)
    then have "r' = r" using Cons.prems c by simp
    then show ?thesis using ledger_none by metis
  next
    case None
    then obtain d r1 w2 where d: "decode X ctx sf r w1 = Some (d, r1, w2)"
      using Cons.prems c by (auto simp: bind_eq_Some)
    obtain log1 where log1: "ledger X r log1 r1" using decode_ledger [OF assms(1) d] ..
    show ?thesis
    proof (cases d)
      case (Inl err)
      then show ?thesis using Cons.prems c None d log1 by auto
    next
      case (Inr slideText)
      then obtain n r2 where n: "notesFor X grow m (zf_Name sf) r1 = Some (n, r2)"
        using Cons.prems c None d by (auto simp: bind_eq_Some)
      obtain log2 where log2: "ledger X r log2 r2"
        using notesFor_ledger [OF n] ledger_trans [OF _ log1] by blast
      consider err where "n = Inl err" | "n = Inr None" | nf where "n = Inr (Some nf)"
        by (metis obj_sumE option.exhaust)
      then show ?thesis
      proof cases
        case (1 err)
        then show ?thesis using Cons.prems c None d Inr n log2 by auto
      next
        case 2
        then have "slides_loop X grow ctx m slides (b @ slideText) r2 w2 = Some (res, r', w')"
          using Cons.prems c None d Inr n by simp
        from Cons.IH [OF this] show ?thesis using ledger_trans [OF _ log2] by blast
      next
        case (3 nf)
        then obtain t r3 w3 where t: "decode X ctx nf r2 w2 = Some (t, r3, w3)"
          using Cons.prems c None d Inr n by (auto simp: bind_eq_Some)
        obtain log3 where log3: "ledger X r log3 r3"
          using decode_ledger [OF assms(1) t] ledger_trans [OF _ log2] by blast
        show ?thesis
        proof (cases t)
          case (Inl err)
          then show ?thesis using Cons.prems c None d Inr n 3 t log3 by auto
        next
          case found: (Inr notesText)
          then have "slides_loop X grow ctx m slides (b @ slideText @ notesText) r3 w3 = Some (res, r', w')"
            using Cons.prems c None d Inr n 3 t by simp
          from Cons.IH [OF this] show ?thesis using ledger_trans [OF _ log3] by blast
        qed
      qed
    qed
  qed
qed


lemma two_slides_only_reads: "only_reads two_slides"
  unfolding only_reads_def
proof (intro allI impI)
  fix rd d q t d' q'
  assume run: "xml_Token two_slides rd d q = Some (t, d', q')"
  show "\<exists>b. pulls rd q b q'"
  proof (cases d)
    case None
    have tok: "two_slides_token rd None q = Some (t, d', q')"
      using run None by (simp only: two_slides_def Ooxml.simps)
    then obtain r where r: "rd 512 q = Some r" by (cases "rd 512 q") simp_all
    have "q' = snd r"
    proof (cases "two_slides_xml (fst (fst r))")
      case (Some ts)
      then show ?thesis using tok r by (cases ts) simp_all
    qed (use tok r in simp)
    then have "rd 512 q = Some ((fst (fst r), snd (fst r)), q')" using r by simp
    from pulls_one [of rd, OF this] show ?thesis by blast
  next
    case (Some ts)
    then have "q' = q" using run by (cases ts) (auto simp: two_slides_def)
    then show ?thesis using pulls_none by metis
  qed
qed


end
