(* ===== verification/Pdf_Examples.thy ===== *)
theory Pdf_Examples
  imports Pdf
begin

text \<open>A \<open>pdftotext\<close> process that writes three pages, one of them blank, in two pieces.\<close>

definition demo_output :: "string list" where
  "demo_output = [''Hello'' @ [FF], [CHR '' '', FF] @ ''World'' @ [FF]]"

definition demo_process :: "(string, nat) Process" where
  "demo_process = \<lparr>LookPath = (\<lambda>b. b = ''pdftotext''),
     cmd_Run = (\<lambda>b data t m w. (((demo_output, []), None, False), w))\<rparr>"

definition demo_engine :: PdftotextEngine where
  "demo_engine = \<lparr>binary = [], timeout = 0, maxOutput = 100\<rparr>"

definition demo_pages :: "Page list" where
  "demo_pages = [\<lparr>Number = 1, pg_Text = ''Hello''\<rparr>, \<lparr>Number = 2, pg_Text = '' ''\<rparr>,
     \<lparr>Number = 3, pg_Text = ''World''\<rparr>]"

lemma demo_pages_split: "splitPages (concat demo_output) = demo_pages"
  by (simp add: demo_output_def demo_pages_def splitPages_def FF_def Let_def)

lemma demo_Pages: "PdftotextPages demo_process demo_engine quiet ''pdf'' w = Some (Inr demo_pages, w)"
  by (simp add: PdftotextPages_def demo_process_def demo_engine_def bin_def DefaultBinary_def maxOut_def
      demo_output_def cap_Write_def FF_def add64_def wrap64_def quiet_def splitPages_def Let_def demo_pages_def)

theorem PdftotextPages_complete_witness:
  "demo_pages = splitPages (concat demo_output) \<and> len (concat demo_output) \<le> maxOut demo_engine"
  using PdftotextPages_complete [of demo_process demo_engine "''pdf''" "''''" demo_output "[]" None False
      "''''" quiet "Inr demo_pages", OF _ _ _ demo_Pages]
  by (simp add: demo_process_def demo_engine_def bin_def DefaultBinary_def demo_output_def FF_def)

theorem splitPages_roundtrip_witness:
  "map pg_Text (splitPages (concat (map (\<lambda>t. t @ [FF]) [''a'', [], ''b'']) @ ''tail'')) = [''a'', [], ''b'', ''tail'']"
  using splitPages_roundtrip [of "[''a'', [], ''b'']" "''tail''"] by (simp add: FF_def)

theorem PdfExtractor_pages_witness:
  "\<exists>s'. PdfExtractor (Some (pdftotext_engine demo_process demo_engine)) quarter quiet drip ''pdf'' ''src'' =
    Some (Inr [(TextArtifact ''src'' ''Hello'')
                 \<lparr>art_Metadata := [MetaPage \<mapsto> Itoa 1, MetaEngine \<mapsto> ''pdftotext'']\<rparr>,
               (TextArtifact ''src'' ''World'')
                 \<lparr>art_Metadata := [MetaPage \<mapsto> Itoa 3, MetaEngine \<mapsto> ''pdftotext'']\<rparr>], s')"
proof -
  have norm: "NormalizeWhitespace ''Hello'' = ''Hello''" "NormalizeWhitespace '' '' = []"
    "NormalizeWhitespace ''World'' = ''World''"
    by (simp_all add: go_eval upt_rec cong: eval_congs)
  have pages: "\<forall>w. \<exists>w'. eng_Pages (pdftotext_engine demo_process demo_engine) quiet ''pdf'' w = Some (Inr demo_pages, w')"
    by (simp add: pdftotext_engine_def demo_Pages)
  from PdfExtractor_pages [OF drip_source quiet_calm growing_quarter pages, of "''src''"]
  show ?thesis by (simp add: demo_pages_def norm pdftotext_engine_def)
qed

end
