(* ===== verification/Purego.thy ===== *)
theory Purego
  imports Pdf_Examples
begin

text \<open>
  \<^verbatim>\<open>extract/pdf/purego/purego.go\<close>: the pure-Go engine and its watchdog, as a transition
  system. The parser is an argument: each of its calls returns, panics or hangs. The worker
  goroutine, the caller's context, the timer and the function \<open>Pages\<close> move independently; a
  state records where each of them is, and a step moves one of them.
\<close>

subsection \<open>The parser\<close>

datatype ('a, 'x) Call = Returns 'a | Panics 'x | Hangs

record ('r, 'x) Parser =
  NewReader :: "string \<Rightarrow> ('x + 'r, 'x) Call"
  NumPage :: "'r \<Rightarrow> (int, 'x) Call"
  PageIsNull :: "'r \<Rightarrow> int \<Rightarrow> (bool, 'x) Call"
  GetPlainText :: "'r \<Rightarrow> int \<Rightarrow> ('x + string, 'x) Call"

type_synonym 'x PageResult = "'x PdfCause ExtractError + Page list"

subsection \<open>The worker\<close>

text \<open>
  \<open>Paging rd n i pages\<close> is the head of the page loop. A finished worker has put its result into
  the channel, which has room for it.
\<close>

datatype ('r, 'x) Worker =
    Parsing
  | Paging 'r int int "Page list"
  | Finished "'x PageResult"

definition parser_panic :: "'x \<Rightarrow> 'x PageResult" where
  "parser_panic v = Inl (MalformedSource MediaTypePdf (ParserPanic v))"

text \<open>The deferred \<open>recover\<close>: a panic of a call ends the worker, a hang leaves it where it is.\<close>

fun on_call :: "('a, 'x) Call \<Rightarrow> ('a \<Rightarrow> ('r, 'x) Worker option) \<Rightarrow> ('r, 'x) Worker option" where
  "on_call (Returns a) k = k a"
| "on_call (Panics v) k = Some (Finished (parser_panic v))"
| "on_call Hangs k = None"

definition keep_page :: "int \<Rightarrow> 'x + string \<Rightarrow> Page list \<Rightarrow> Page list" where
  "keep_page i r pages =
     (case r of Inl _ \<Rightarrow> pages
      | Inr tx \<Rightarrow> if tx \<noteq> [] then pages @ [\<lparr>Number = i, pg_Text = tx\<rparr>] else pages)"

text \<open>One move of \<open>extractPages\<close>; \<open>cerr\<close> is what the context says.\<close>

fun worker_move ::
  "('r, 'x) Parser \<Rightarrow> string \<Rightarrow> 'x option \<Rightarrow> ('r, 'x) Worker \<Rightarrow> ('r, 'x) Worker option" where
  "worker_move P data cerr Parsing =
     on_call (NewReader P data) (\<lambda>r. case r of
        Inl x \<Rightarrow> Some (Finished (Inl (MalformedSource MediaTypePdf (PdfLib x))))
      | Inr rd \<Rightarrow> on_call (NumPage P rd) (\<lambda>n. Some (Paging rd n 1 [])))"
| "worker_move P data cerr (Paging rd n i pages) =
     (if n < i then Some (Finished (Inr pages))
      else case cerr of
        Some e \<Rightarrow> Some (Finished (Inl (Unwrapped (Canceled e))))
      | None \<Rightarrow>
          on_call (PageIsNull P rd i) (\<lambda>null.
            if null then Some (Paging rd n (i + 1) pages)
            else on_call (GetPlainText P rd i) (\<lambda>r. Some (Paging rd n (i + 1) (keep_page i r pages)))))"
| "worker_move P data cerr (Finished r) = None"

subsection \<open>The engine\<close>

definition purego_DefaultTimeout :: int where "purego_DefaultTimeout = 30"

definition purego_timeout :: "int \<Rightarrow> int" where
  "purego_timeout configured = (if configured \<le> 0 then purego_DefaultTimeout else configured)"

definition timeoutErr :: "'x PageResult" where
  "timeoutErr = Inl (MalformedSource MediaTypePdf TimedOut)"

definition canceledErr :: "'x \<Rightarrow> 'x PageResult" where
  "canceledErr e = Inl (Unwrapped (Canceled e))"

text \<open>
  Where \<open>Pages\<close> is: before its first look at the context, at the outer \<open>select\<close>, with a result in
  hand before it looks at the context again, at the inner \<open>select\<close>, or done.
\<close>

datatype 'x Main =
    Entry
  | Selecting
  | Recheck "'x PageResult"
  | RecheckTimer "'x PageResult"
  | Return "'x PageResult"

record ('r, 'x) Sys =
  worker :: "('r, 'x) Worker"
  canceled :: "'x option"
  fired :: bool
  main :: "'x Main"

text \<open>\<open>Pages\<close> moves; a \<open>select\<close> with several ready cases may take any of them.\<close>

inductive main_step :: "('r, 'x) Sys \<Rightarrow> ('r, 'x) Sys \<Rightarrow> bool" where
  entry_canceled: "main s = Entry \<Longrightarrow> canceled s = Some e \<Longrightarrow>
    main_step s (s\<lparr>main := Return (canceledErr e)\<rparr>)"
| entry_go: "main s = Entry \<Longrightarrow> canceled s = None \<Longrightarrow> main_step s (s\<lparr>main := Selecting\<rparr>)"
| take_result: "main s = Selecting \<Longrightarrow> worker s = Finished r \<Longrightarrow>
    main_step s (s\<lparr>main := Recheck r\<rparr>)"
| take_done: "main s = Selecting \<Longrightarrow> canceled s = Some e \<Longrightarrow>
    main_step s (s\<lparr>main := Return (canceledErr e)\<rparr>)"
| take_timer: "main s = Selecting \<Longrightarrow> fired s \<Longrightarrow> main_step s (s\<lparr>main := Return timeoutErr\<rparr>)"
| recheck_canceled: "main s = Recheck r \<Longrightarrow> canceled s = Some e \<Longrightarrow>
    main_step s (s\<lparr>main := Return (canceledErr e)\<rparr>)"
| recheck_live: "main s = Recheck r \<Longrightarrow> canceled s = None \<Longrightarrow>
    main_step s (s\<lparr>main := RecheckTimer r\<rparr>)"
| recheck_late: "main s = RecheckTimer r \<Longrightarrow> fired s \<Longrightarrow> main_step s (s\<lparr>main := Return timeoutErr\<rparr>)"
| recheck_in_time: "main s = RecheckTimer r \<Longrightarrow> \<not> fired s \<Longrightarrow> main_step s (s\<lparr>main := Return r\<rparr>)"

text \<open>The worker and the timer exist once \<open>Pages\<close> has passed its entry; both outlive its return.\<close>

inductive worker_step :: "('r, 'x) Parser \<Rightarrow> string \<Rightarrow> ('r, 'x) Sys \<Rightarrow> ('r, 'x) Sys \<Rightarrow> bool"
  for P data where
  work: "main s \<noteq> Entry \<Longrightarrow> worker_move P data (canceled s) (worker s) = Some k \<Longrightarrow>
    worker_step P data s (s\<lparr>worker := k\<rparr>)"

inductive env_step :: "('r, 'x) Sys \<Rightarrow> ('r, 'x) Sys \<Rightarrow> bool" where
  cancel: "canceled s = None \<Longrightarrow> env_step s (s\<lparr>canceled := Some e\<rparr>)"
| fire: "main s \<noteq> Entry \<Longrightarrow> \<not> fired s \<Longrightarrow> env_step s (s\<lparr>fired := True\<rparr>)"

definition pages_call :: "'x option \<Rightarrow> ('r, 'x) Sys" where
  "pages_call c = \<lparr>worker = Parsing, canceled = c, fired = False, main = Entry\<rparr>"

inductive reachable :: "('r, 'x) Parser \<Rightarrow> string \<Rightarrow> ('r, 'x) Sys \<Rightarrow> bool" for P data where
  call: "reachable P data (pages_call c)"
| by_main: "reachable P data s \<Longrightarrow> main_step s t \<Longrightarrow> reachable P data t"
| by_worker: "reachable P data s \<Longrightarrow> worker_step P data s t \<Longrightarrow> reachable P data t"
| by_env: "reachable P data s \<Longrightarrow> env_step s t \<Longrightarrow> reachable P data t"

end
