(* ===== verification/Purego_Correct.thy ===== *)
theory Purego_Correct
  imports Purego
begin

text \<open>
  The watchdog of \<^verbatim>\<open>extract/pdf/purego/purego.go\<close>: what \<open>Pages\<close> can return, in every
  interleaving (an invariant of the reachable states), and that it does return, even when the
  parser hangs.
\<close>

subsection \<open>What the parser has to say about a document\<close>

definition readable :: "('r, 'x) Parser \<Rightarrow> 'r \<Rightarrow> int \<Rightarrow> Page list" where
  "readable P rd i =
     (case (PageIsNull P rd i, GetPlainText P rd i) of
        (Returns False, Returns (Inr tx)) \<Rightarrow> if tx = [] then [] else [\<lparr>Number = i, pg_Text = tx\<rparr>]
      | _ \<Rightarrow> [])"

definition pages_upto :: "('r, 'x) Parser \<Rightarrow> 'r \<Rightarrow> int \<Rightarrow> Page list" where
  "pages_upto P rd n = concat (map (readable P rd) [1..n])"

definition panics_with :: "('r, 'x) Parser \<Rightarrow> string \<Rightarrow> 'x \<Rightarrow> bool" where
  "panics_with P data v \<longleftrightarrow> NewReader P data = Panics v
     \<or> (\<exists>rd. NewReader P data = Returns (Inr rd)
         \<and> (NumPage P rd = Panics v \<or> (\<exists>i. PageIsNull P rd i = Panics v \<or> GetPlainText P rd i = Panics v)))"

text \<open>The results the worker may produce when the context has said \<open>c\<close>.\<close>

fun result_ok :: "('r, 'x) Parser \<Rightarrow> string \<Rightarrow> 'x option \<Rightarrow> 'x PageResult \<Rightarrow> bool" where
  "result_ok P data c (Inr pages) \<longleftrightarrow>
     (\<exists>rd n. NewReader P data = Returns (Inr rd) \<and> NumPage P rd = Returns n \<and> pages = pages_upto P rd n)"
| "result_ok P data c (Inl err) \<longleftrightarrow>
     (\<exists>e. c = Some e \<and> err = Unwrapped (Canceled e))
     \<or> (\<exists>x. NewReader P data = Returns (Inl x) \<and> err = MalformedSource MediaTypePdf (PdfLib x))
     \<or> (\<exists>v. panics_with P data v \<and> err = MalformedSource MediaTypePdf (ParserPanic v))"

lemma result_ok_canceled: "result_ok P data None r \<Longrightarrow> result_ok P data c r"
  by (cases r) auto

lemma result_ok_canceledErr [simp]: "result_ok P data (Some e) (canceledErr e)"
  by (simp add: canceledErr_def)

subsection \<open>The worker\<close>

fun worker_inv :: "('r, 'x) Parser \<Rightarrow> string \<Rightarrow> 'x option \<Rightarrow> ('r, 'x) Worker \<Rightarrow> bool" where
  "worker_inv P data c Parsing \<longleftrightarrow> True"
| "worker_inv P data c (Paging rd n i pages) \<longleftrightarrow>
     NewReader P data = Returns (Inr rd) \<and> NumPage P rd = Returns n \<and> 1 \<le> i \<and> (i = 1 \<or> i \<le> n + 1)
     \<and> pages = pages_upto P rd (i - 1)"
| "worker_inv P data c (Finished r) \<longleftrightarrow> result_ok P data c r"

lemma worker_inv_canceled: "worker_inv P data None k \<Longrightarrow> worker_inv P data c k"
  by (cases k) (auto intro: result_ok_canceled)

lemma pages_upto_step: "1 \<le> i \<Longrightarrow> pages_upto P rd i = pages_upto P rd (i - 1) @ readable P rd i"
  by (simp add: pages_upto_def upto_rec2)

lemma on_call_Some:
  "on_call c k = Some w \<longleftrightarrow>
     (\<exists>a. c = Returns a \<and> k a = Some w) \<or> (\<exists>v. c = Panics v \<and> w = Finished (parser_panic v))"
  by (cases c) auto

lemma start_moves:
  "worker_move P data c Parsing = Some k \<longleftrightarrow>
     (\<exists>x. NewReader P data = Returns (Inl x) \<and> k = Finished (Inl (MalformedSource MediaTypePdf (PdfLib x))))
     \<or> (\<exists>rd n. NewReader P data = Returns (Inr rd) \<and> NumPage P rd = Returns n \<and> k = Paging rd n 1 [])
     \<or> (\<exists>v. (NewReader P data = Panics v
           \<or> (\<exists>rd. NewReader P data = Returns (Inr rd) \<and> NumPage P rd = Panics v))
         \<and> k = Finished (parser_panic v))"
proof (cases "NewReader P data")
  case (Returns a)
  then show ?thesis by (cases a; cases "NumPage P (projr a)") auto
qed auto

lemma parser_panic_ok: "panics_with P data v \<Longrightarrow> result_ok P data c (parser_panic v)"
  by (auto simp: parser_panic_def)

lemma worker_move_inv:
  assumes "worker_move P data c w = Some k" and "worker_inv P data c w"
  shows "worker_inv P data c k"
proof (cases w)
  case Parsing
  then show ?thesis
    using assms(1) parser_panic_ok [of P data _ c]
    unfolding Parsing start_moves by (auto simp: pages_upto_def panics_with_def)
next
  case (Paging rd n i pages)
  note inv = assms(2) [unfolded Paging worker_inv.simps]
  have panic: "worker_inv P data c (Finished (parser_panic v))"
    if "PageIsNull P rd i = Panics v \<or> GetPlainText P rd i = Panics v" for v
    using inv that parser_panic_ok [of P data v] by (auto simp: panics_with_def)
  have step: "pages_upto P rd i = pages @ readable P rd i"
    using inv pages_upto_step [of i P rd] by simp
  consider "n < i" "k = Finished (Inr pages)"
    | e where "c = Some e" "k = Finished (Inl (Unwrapped (Canceled e)))"
    | "i \<le> n" "PageIsNull P rd i = Returns True" "k = Paging rd n (i + 1) pages"
    | r where "i \<le> n" "PageIsNull P rd i = Returns False" "GetPlainText P rd i = Returns r"
        "k = Paging rd n (i + 1) (keep_page i r pages)"
    | v where "PageIsNull P rd i = Panics v \<or> GetPlainText P rd i = Panics v"
        "k = Finished (parser_panic v)"
    using assms(1) Paging by (auto simp: on_call_Some split: if_splits option.splits)
  then show ?thesis
  proof cases
    case 1
    have "pages = pages_upto P rd n"
      using inv 1(1) by (cases "i = n + 1") (auto simp: pages_upto_def)
    then show ?thesis using inv 1(2) by auto
  next
    case 3
    have "readable P rd i = []" by (simp add: readable_def 3)
    then show ?thesis using inv step 3 by simp
  next
    case (4 r)
    have "keep_page i r pages = pages @ readable P rd i"
      by (cases r) (simp_all add: keep_page_def readable_def 4)
    then show ?thesis using inv step 4 by simp
  qed (use panic in auto)
qed (use assms in auto)

subsection \<open>The invariant of the reachable states\<close>

definition outcome_ok :: "('r, 'x) Parser \<Rightarrow> string \<Rightarrow> ('r, 'x) Sys \<Rightarrow> 'x PageResult \<Rightarrow> bool" where
  "outcome_ok P data s r \<longleftrightarrow> result_ok P data (canceled s) r \<or> (fired s \<and> r = timeoutErr)"

definition main_inv :: "('r, 'x) Parser \<Rightarrow> string \<Rightarrow> ('r, 'x) Sys \<Rightarrow> bool" where
  "main_inv P data s \<longleftrightarrow> (case main s of
       Recheck r \<Rightarrow> result_ok P data (canceled s) r
     | RecheckTimer r \<Rightarrow> result_ok P data (canceled s) r
     | Return r \<Rightarrow> outcome_ok P data s r
     | _ \<Rightarrow> True)"

definition sys_inv :: "('r, 'x) Parser \<Rightarrow> string \<Rightarrow> ('r, 'x) Sys \<Rightarrow> bool" where
  "sys_inv P data s \<longleftrightarrow> worker_inv P data (canceled s) (worker s) \<and> main_inv P data s"

lemmas sys_inv_defs = sys_inv_def main_inv_def outcome_ok_def

lemma main_step_inv: "main_step s t \<Longrightarrow> sys_inv P data s \<Longrightarrow> sys_inv P data t"
  by (induction rule: main_step.induct) (auto simp: sys_inv_defs)

lemma worker_step_inv: "worker_step P data s t \<Longrightarrow> sys_inv P data s \<Longrightarrow> sys_inv P data t"
  by (induction rule: worker_step.induct)
    (auto simp: sys_inv_defs dest: worker_move_inv split: Main.splits)

lemma env_step_inv: "env_step s t \<Longrightarrow> sys_inv P data s \<Longrightarrow> sys_inv P data t"
  by (induction rule: env_step.induct)
    (auto simp: sys_inv_defs intro: result_ok_canceled worker_inv_canceled split: Main.splits)

lemma call_inv: "sys_inv P data (pages_call c)"
  by (simp add: pages_call_def sys_inv_defs)

lemma reachable_inv: "reachable P data s \<Longrightarrow> sys_inv P data s"
  by (induction rule: reachable.induct)
    (blast intro: call_inv main_step_inv worker_step_inv env_step_inv)+

text \<open>
  C37: whatever the interleaving of the parser, the caller's cancellation and the timer, pages
  that \<open>Pages\<close> returns are those of the whole document, every readable page with its number, in
  order; and each error has its cause: the context was canceled, the timer fired, or the parser
  refused the bytes or panicked.
\<close>

theorem Pages_outcome:
  assumes "reachable P data s" and "main s = Return r"
  shows "case r of
      Inr pages \<Rightarrow> \<exists>rd n. NewReader P data = Returns (Inr rd) \<and> NumPage P rd = Returns n
        \<and> pages = concat (map (readable P rd) [1..n])
    | Inl err \<Rightarrow> (\<exists>e. canceled s = Some e \<and> err = Unwrapped (Canceled e))
        \<or> fired s \<and> err = MalformedSource MediaTypePdf TimedOut
        \<or> (\<exists>x. NewReader P data = Returns (Inl x) \<and> err = MalformedSource MediaTypePdf (PdfLib x))
        \<or> (\<exists>v. panics_with P data v \<and> err = MalformedSource MediaTypePdf (ParserPanic v))"
  using reachable_inv [OF assms(1)] assms(2)
  by (cases r) (auto simp: sys_inv_defs timeoutErr_def pages_upto_def)

subsection \<open>The watchdog\<close>

fun main_rank :: "'x Main \<Rightarrow> nat" where
  "main_rank Entry = 4"
| "main_rank Selecting = 3"
| "main_rank (Recheck r) = 2"
| "main_rank (RecheckTimer r) = 1"
| "main_rank (Return r) = 0"

fun worker_rank :: "('r, 'x) Parser \<Rightarrow> string \<Rightarrow> ('r, 'x) Worker \<Rightarrow> nat" where
  "worker_rank P data Parsing =
     (case NewReader P data of
        Returns (Inr rd) \<Rightarrow> (case NumPage P rd of Returns n \<Rightarrow> nat n + 2 | _ \<Rightarrow> 1)
      | _ \<Rightarrow> 1)"
| "worker_rank P data (Paging rd n i pages) = nat (n + 1 - i) + 1"
| "worker_rank P data (Finished r) = 0"

definition hang_free :: "('r, 'x) Parser \<Rightarrow> string \<Rightarrow> bool" where
  "hang_free P data \<longleftrightarrow> NewReader P data \<noteq> Hangs
     \<and> (\<forall>rd. NewReader P data = Returns (Inr rd) \<longrightarrow> NumPage P rd \<noteq> Hangs
         \<and> (\<forall>i. PageIsNull P rd i \<noteq> Hangs \<and> GetPlainText P rd i \<noteq> Hangs))"

lemma worker_move_rank:
  "worker_move P data c w = Some k \<Longrightarrow> worker_rank P data k < worker_rank P data w"
proof (cases w)
  case (Paging rd n i pages)
  then show "worker_move P data c w = Some k \<Longrightarrow> ?thesis"
    by (auto simp: on_call_Some split: if_splits option.splits)
qed (auto simp del: worker_move.simps(1) simp: start_moves)

lemma on_call_None: "on_call c k = None \<longleftrightarrow> c = Hangs \<or> (\<exists>a. c = Returns a \<and> k a = None)"
  by (cases c) auto

lemma worker_moves:
  assumes "hang_free P data" and "worker_inv P data c w" and "worker_move P data c w = None"
  shows "\<exists>r. w = Finished r"
proof (cases w)
  case Parsing
  then show ?thesis
  proof (cases "NewReader P data")
    case (Returns a)
    then show ?thesis
      using assms(1,3) Parsing by (cases a; cases "NumPage P (projr a)") (auto simp: hang_free_def)
  qed (use assms(1,3) Parsing in \<open>auto simp: hang_free_def\<close>)
next
  case (Paging rd n i pages)
  then show ?thesis
    using assms by (auto simp: hang_free_def on_call_None split: if_splits option.splits)
qed simp

lemma main_step_rank: "main_step s t \<Longrightarrow> main_rank (main t) < main_rank (main s) \<and> worker t = worker s"
  by (induction rule: main_step.induct) auto

lemma worker_step_rank:
  "worker_step P data s t \<Longrightarrow>
     main t = main s \<and> worker_rank P data (worker t) < worker_rank P data (worker s)"
  by (induction rule: worker_step.induct) (auto dest: worker_move_rank)

lemma main_ready:
  assumes "fired s \<or> canceled s \<noteq> None \<or> (\<exists>r. worker s = Finished r) \<or> main s \<noteq> Selecting"
    and "\<nexists>r. main s = Return r"
  shows "\<exists>t. main_step s t"
  using assms by (cases "main s"; cases "canceled s"; cases "fired s") (auto intro: main_step.intros)

text \<open>
  C38: \<open>Pages\<close> always returns. Once the timer has fired or the context is canceled it can move on
  its own, whether or not the parser hangs; when no call of the parser hangs, it or the worker can
  move; and every move of either lowers a rank, so \<open>Pages\<close> makes at most four moves.
\<close>

theorem Pages_returns:
  assumes "reachable P data s" and "\<nexists>r. main s = Return r"
  shows "(fired s \<or> canceled s \<noteq> None \<longrightarrow> (\<exists>t. main_step s t))
    \<and> (hang_free P data \<longrightarrow> (\<exists>t. main_step s t \<or> worker_step P data s t))
    \<and> (\<forall>t. main_step s t \<longrightarrow>
        main_rank (main t) < main_rank (main s) \<and> worker_rank P data (worker t) = worker_rank P data (worker s))
    \<and> (\<forall>t. worker_step P data s t \<longrightarrow>
        main t = main s \<and> worker_rank P data (worker t) < worker_rank P data (worker s))
    \<and> main_rank (main s) \<le> 4"
proof (intro conjI impI allI)
  show "\<exists>t. main_step s t" if "fired s \<or> canceled s \<noteq> None"
    using main_ready [OF _ assms(2)] that by blast
  show "\<exists>t. main_step s t \<or> worker_step P data s t" if free: "hang_free P data"
  proof (cases "main s = Selecting \<and> worker_move P data (canceled s) (worker s) \<noteq> None")
    case True
    then obtain k where "worker_move P data (canceled s) (worker s) = Some k" by auto
    then show ?thesis using True worker_step.work [of s P data k] by auto
  next
    case False
    have "worker_inv P data (canceled s) (worker s)"
      using reachable_inv [OF assms(1)] by (simp add: sys_inv_def)
    then show ?thesis using main_ready [OF _ assms(2)] worker_moves [OF free] False by blast
  qed
  show "main_rank (main s) \<le> 4" by (cases "main s") auto
qed (auto dest: main_step_rank worker_step_rank)

end
