(* ===== verification/Purego_Examples.thy ===== *)
theory Purego_Examples
  imports Purego_Correct
begin

text \<open>
  The watchdog at work: a parser that reads page one of every document and hangs on page two.
\<close>

definition demo_parser :: "(string, nat) Parser" where
  "demo_parser = \<lparr>NewReader = (\<lambda>data. Returns (Inr data)),
     NumPage = (\<lambda>rd. Returns (if rd = ''short'' then 1 else 2)),
     PageIsNull = (\<lambda>rd i. Returns False),
     GetPlainText = (\<lambda>rd i. if i = 1 then Returns (Inr ''one'') else Hangs)\<rparr>"

text \<open>A call of \<open>Pages\<close> up to the point where the worker can go no further.\<close>

definition after_parse :: "string \<Rightarrow> int \<Rightarrow> (string, nat) Sys" where
  "after_parse data n = \<lparr>worker = Paging data n 2 [\<lparr>Number = 1, pg_Text = ''one''\<rparr>], canceled = None,
     fired = False, main = Selecting\<rparr>"

lemma reach_worker:
  "reachable P data s \<Longrightarrow> main s \<noteq> Entry \<Longrightarrow> worker_move P data (canceled s) (worker s) = Some k \<Longrightarrow>
     reachable P data (s\<lparr>worker := k\<rparr>)"
  by (blast intro: by_worker work)

lemma reach_after_parse:
  assumes "NumPage demo_parser data = Returns n" and "1 \<le> n"
  shows "reachable demo_parser data (after_parse data n)"
proof -
  let ?s1 = "\<lparr>worker = Parsing, canceled = None :: nat option, fired = False, main = Selecting\<rparr>"
  have "main_step (pages_call None) ((pages_call None)\<lparr>main := Selecting\<rparr>)"
    by (rule entry_go) (simp_all add: pages_call_def)
  then have 1: "reachable demo_parser data ?s1"
    using by_main [OF call] by (fastforce simp: pages_call_def)
  have "reachable demo_parser data (?s1\<lparr>worker := Paging data n 1 []\<rparr>)"
    by (rule reach_worker [OF 1]) (use assms(1) in \<open>simp_all add: demo_parser_def\<close>)
  then have "reachable demo_parser data (?s1\<lparr>worker := Paging data n 1 []\<rparr>
      \<lparr>worker := Paging data n 2 [\<lparr>Number = 1, pg_Text = ''one''\<rparr>]\<rparr>)"
    by (rule reach_worker) (use assms(2) in \<open>simp_all add: demo_parser_def keep_page_def\<close>)
  then show ?thesis by (simp add: after_parse_def)
qed

lemma reach_long: "reachable demo_parser ''long'' (after_parse ''long'' 2)"
  by (rule reach_after_parse) (simp_all add: demo_parser_def)

text \<open>The timer fires while the worker hangs on page two.\<close>

definition hung :: "(string, nat) Sys" where
  "hung = (after_parse ''long'' 2)\<lparr>fired := True\<rparr>"

lemma reach_hung: "reachable demo_parser ''long'' hung"
  unfolding hung_def by (rule by_env [OF reach_long fire]) (simp_all add: after_parse_def)

lemma hung_worker: "worker_move demo_parser ''long'' None (worker hung) = None"
  by (simp add: hung_def after_parse_def demo_parser_def)

theorem Pages_returns_witness:
  "\<exists>t. main_step hung t \<and> main_rank (main t) < main_rank (main hung) \<and> main_rank (main hung) \<le> 4"
proof -
  have "fired hung" "\<nexists>r. main hung = Return r" by (simp_all add: hung_def after_parse_def)
  with Pages_returns [OF reach_hung this(2)] show ?thesis by blast
qed

text \<open>A document of one page: the worker finishes, and \<open>Pages\<close> passes both checks.\<close>

definition short_done :: "(string, nat) Sys" where
  "short_done = \<lparr>worker = Finished (Inr [\<lparr>Number = 1, pg_Text = ''one''\<rparr>]), canceled = None,
     fired = False, main = Return (Inr [\<lparr>Number = 1, pg_Text = ''one''\<rparr>])\<rparr>"

lemma reach_short: "reachable demo_parser ''short'' short_done"
proof -
  let ?r = "Inr [\<lparr>Number = 1, pg_Text = ''one''\<rparr>] :: nat PageResult"
  let ?s = "(after_parse ''short'' 1)\<lparr>worker := Finished ?r\<rparr>"
  have "reachable demo_parser ''short'' (after_parse ''short'' 1)"
    by (rule reach_after_parse) (simp_all add: demo_parser_def)
  then have 1: "reachable demo_parser ''short'' ?s"
    by (rule reach_worker) (simp_all add: after_parse_def)
  have 2: "reachable demo_parser ''short'' (?s\<lparr>main := Recheck ?r\<rparr>)"
    by (rule by_main [OF 1 take_result]) (simp_all add: after_parse_def)
  have 3: "reachable demo_parser ''short'' (?s\<lparr>main := Recheck ?r\<rparr>\<lparr>main := RecheckTimer ?r\<rparr>)"
    by (rule by_main [OF 2 recheck_live]) (simp_all add: after_parse_def)
  have "reachable demo_parser ''short''
      (?s\<lparr>main := Recheck ?r\<rparr>\<lparr>main := RecheckTimer ?r\<rparr>\<lparr>main := Return ?r\<rparr>)"
    by (rule by_main [OF 3 recheck_in_time]) (simp_all add: after_parse_def)
  then show ?thesis by (simp add: short_done_def after_parse_def)
qed

theorem Pages_outcome_witness:
  "\<exists>rd n. NewReader demo_parser ''short'' = Returns (Inr rd) \<and> NumPage demo_parser rd = Returns n
    \<and> [\<lparr>Number = 1, pg_Text = ''one''\<rparr>] = concat (map (readable demo_parser rd) [1..n])"
  using Pages_outcome [OF reach_short] by (simp add: short_done_def)

text \<open>
  The order cancellation, timeout, result holds only once a result has arrived. When the
  context is canceled and the timer has fired before that, the outer \<open>select\<close> may take either: a
  call that its caller canceled can be reported as a malformed source.
\<close>

theorem Pages_race:
  "\<exists>s. reachable demo_parser ''long'' s \<and> canceled s = Some 7 \<and> fired s
    \<and> main_step s (s\<lparr>main := Return (canceledErr 7)\<rparr>)
    \<and> main_step s (s\<lparr>main := Return timeoutErr\<rparr>)"
proof -
  let ?s = "hung\<lparr>canceled := Some 7\<rparr>"
  have "reachable demo_parser ''long'' ?s"
    by (rule by_env [OF reach_hung cancel]) (simp add: hung_def after_parse_def)
  moreover have "canceled ?s = Some 7" "fired ?s" "main ?s = Selecting"
    by (simp_all add: hung_def after_parse_def)
  ultimately show ?thesis using take_done [of ?s 7] take_timer [of ?s] by blast
qed

end
