(* ===== verification/Sha256.thy ===== *)
theory Sha256
  imports Prelude "HOL-Library.Word"
begin

text \<open>
  SHA-256 (FIPS 180-4), as Go's \<^verbatim>\<open>crypto/sha256\<close> computes it: bytes are characters, words
  have 32 bits, and the length that closes the message has 64.
\<close>

unbundle bit_operations_syntax

text \<open>
  The constants are the first 32 bits of the fractional parts of the cube roots of the first 64
  primes (round constants) and of the square roots of the first eight (initial state). A root is
  found bit by bit: \<open>int_root e k r n\<close> adds to \<open>r\<close> the bits below \<open>k\<close> that keep its power within \<open>n\<close>.
\<close>

fun int_root :: "nat \<Rightarrow> nat \<Rightarrow> nat \<Rightarrow> nat \<Rightarrow> nat" where
  "int_root e 0 r n = r"
| "int_root e (Suc k) r n = int_root e k (if (r + 2 ^ k) ^ e \<le> n then r + 2 ^ k else r) n"

definition sha_primes :: "nat list" where
  "sha_primes = filter (\<lambda>p. list_all (\<lambda>d. p mod d \<noteq> 0) [2..<p]) [2..<312]"

definition sha_K :: "32 word list" where
  "sha_K = map (\<lambda>p. of_nat (int_root 3 36 0 (p * 2 ^ 96))) sha_primes"

definition sha_H0 :: "32 word list" where
  "sha_H0 = map (\<lambda>p. of_nat (int_root 2 36 0 (p * 2 ^ 64))) [2, 3, 5, 7, 11, 13, 17, 19]"

definition rotr :: "nat \<Rightarrow> 32 word \<Rightarrow> 32 word" where
  "rotr n x = (drop_bit n x) OR (push_bit (32 - n) x)"

definition big_sigma0 :: "32 word \<Rightarrow> 32 word" where
  "big_sigma0 x = rotr 2 x XOR rotr 13 x XOR rotr 22 x"
definition big_sigma1 :: "32 word \<Rightarrow> 32 word" where
  "big_sigma1 x = rotr 6 x XOR rotr 11 x XOR rotr 25 x"
definition small_sigma0 :: "32 word \<Rightarrow> 32 word" where
  "small_sigma0 x = rotr 7 x XOR rotr 18 x XOR drop_bit 3 x"
definition small_sigma1 :: "32 word \<Rightarrow> 32 word" where
  "small_sigma1 x = rotr 17 x XOR rotr 19 x XOR drop_bit 10 x"

text \<open>The schedule, newest word first: sixteen words of the block, then 48 derived ones.\<close>

fun schedule :: "nat \<Rightarrow> 32 word list \<Rightarrow> 32 word list" where
  "schedule 0 ws = ws"
| "schedule (Suc n) ws =
     schedule n ((small_sigma1 (ws ! 1) + ws ! 6 + small_sigma0 (ws ! 14) + ws ! 15) # ws)"

fun sha_rounds :: "(32 word \<times> 32 word) list \<Rightarrow> 32 word list \<Rightarrow> 32 word list" where
  "sha_rounds [] st = st"
| "sha_rounds ((k, w) # kws) [a, b, c, d, e, f, g, h] =
     (let t1 = h + big_sigma1 e + ((e AND f) XOR (NOT e AND g)) + k + w;
          t2 = big_sigma0 a + ((a AND b) XOR (a AND c) XOR (b AND c))
      in sha_rounds kws [t1 + t2, a, b, c, d + t1, e, f, g])"
| "sha_rounds _ st = st"

definition sha_block :: "32 word list \<Rightarrow> 32 word list \<Rightarrow> 32 word list" where
  "sha_block st ws = map2 (+) st (sha_rounds (zip sha_K (rev (schedule 48 (rev ws)))) st)"

fun be_words :: "string \<Rightarrow> 32 word list" where
  "be_words (a # b # c # d # s) =
     of_nat (((byte_val a * 256 + byte_val b) * 256 + byte_val c) * 256 + byte_val d) # be_words s"
| "be_words _ = []"

definition be_bytes :: "nat \<Rightarrow> nat \<Rightarrow> string" where
  "be_bytes k n = map (\<lambda>i. char_of (n div 256 ^ i)) (rev [0..<k])"

definition sha_pad :: "string \<Rightarrow> string" where
  "sha_pad s = s @ [char_of (0x80 :: nat)]
     @ replicate ((119 - length s mod 64) mod 64) (char_of (0 :: nat))
     @ be_bytes 8 (8 * length s mod 2 ^ 64)"

fun sha_blocks :: "nat \<Rightarrow> 32 word list \<Rightarrow> 32 word list \<Rightarrow> 32 word list" where
  "sha_blocks 0 st ws = st"
| "sha_blocks (Suc n) st ws = sha_blocks n (sha_block st (take 16 ws)) (drop 16 ws)"

definition sha256 :: "string \<Rightarrow> string" where
  "sha256 s =
     (let ws = be_words (sha_pad s) in
      concat (map (\<lambda>w. be_bytes 4 (unat w)) (sha_blocks (length ws div 16) sha_H0 ws)))"

subsection \<open>The size of a digest\<close>

lemma sha_rounds_length: "length st = 8 \<Longrightarrow> length (sha_rounds kws st) = 8"
  by (induction kws st rule: sha_rounds.induct) (auto simp: Let_def)

lemma sha_block_length: "length st = 8 \<Longrightarrow> length (sha_block st ws) = 8"
  by (simp add: sha_block_def sha_rounds_length)

lemma sha_blocks_length: "length st = 8 \<Longrightarrow> length (sha_blocks n st ws) = 8"
  by (induction n st ws rule: sha_blocks.induct) (auto simp: sha_block_length)

lemma be_bytes_length [simp]: "length (be_bytes k n) = k"
  by (simp add: be_bytes_def)

lemma sha256_length: "length (sha256 s) = 32"
proof -
  have "length (sha_blocks n sha_H0 ws) = 8" for n ws
    by (rule sha_blocks_length) (simp add: sha_H0_def)
  then show ?thesis by (simp add: sha256_def Let_def length_concat comp_def sum_list_triv)
qed

end
