(* ===== verification/Hash.thy ===== *)
theory Hash
  imports Extract_Examples Sha256
begin

text \<open>
  \<^verbatim>\<open>content/hash.go\<close>: digests in lowercase hexadecimal. The hash function is the
  \<open>sha256\<close> of \<open>Sha256\<close>; a running hash is the bytes written to it so far. \<open>io_Copy\<close> is the standard library's loop.
\<close>

subsection \<open>io.Copy\<close>

partial_function (option) copy_loop ::
  "nat \<Rightarrow> ('s, 'e) reader \<Rightarrow> string \<Rightarrow> int \<Rightarrow> 's \<Rightarrow> ((string \<times> int \<times> 'e option) \<times> 's) option" where
  "copy_loop room rd h n s =
     do { r \<leftarrow> rd room s;
          let h' = h @ fst (fst r); n' = n + len (fst (fst r)) in
          if room < length (fst (fst r)) then None
          else (case snd (fst r) of
                  EOF \<Rightarrow> Some ((h', n', None), snd r)
                | Failed e \<Rightarrow> Some ((h', n', Some e), snd r)
                | More \<Rightarrow> copy_loop room rd h' n' (snd r)) }"

declare copy_loop.simps [code, go_eval]

definition io_Copy :: "('s, 'e) reader \<Rightarrow> 's \<Rightarrow> ((string \<times> int \<times> 'e option) \<times> 's) option" where
  "io_Copy rd s = copy_loop (32 * 1024) rd [] 0 s"

context stream
begin

lemma copy_loop_content:
  assumes "copy_loop room read h n s = Some ((d, k, None), s')"
  shows "d = h @ rest s \<and> k = n + len (rest s)"
proof -
  let ?P = "\<lambda>room (rd :: ('s, 'e) reader) h n s (y :: (string \<times> int \<times> 'e option) \<times> 's).
    rd = read \<longrightarrow> snd (snd (fst y)) = None \<longrightarrow>
      fst (fst y) = h @ rest s \<and> fst (snd (fst y)) = n + len (rest s)"
  have "?P room read h n s ((d, k, None), s')"
  proof (rule copy_loop.raw_induct [where P = ?P, OF _ assms])
    fix loop room rd h n s y
    assume IH: "\<And>room rd h n s y. loop room rd h n s = Some y \<Longrightarrow> ?P room rd h n s y"
      and eq: "do { r \<leftarrow> rd room s;
          let h' = h @ fst (fst r); n' = n + len (fst (fst r)) in
          if room < length (fst (fst r)) then None
          else (case snd (fst r) of
                  EOF \<Rightarrow> Some ((h', n', None), snd r)
                | Failed e \<Rightarrow> Some ((h', n', Some e), snd r)
                | More \<Rightarrow> loop room rd h' n' (snd r)) } = Some y"
    obtain c st s1 where r: "rd room s = Some ((c, st), s1)"
      using eq by (cases "rd room s") auto
    show "?P room rd h n s y"
    proof (intro impI)
      assume rd: "rd = read" and ok: "snd (snd (fst y)) = None"
      have rest: "\<forall>e. st \<noteq> Failed e \<Longrightarrow> rest s = c @ rest s1" "st = EOF \<Longrightarrow> rest s1 = []"
        using r rd read_prefix read_end by blast+
      show "fst (fst y) = h @ rest s \<and> fst (snd (fst y)) = n + len (rest s)"
      proof (cases st)
        case More
        then have "loop room rd (h @ c) (n + len c) s1 = Some y"
          using eq r by (simp add: Let_def split: if_splits)
        then show ?thesis using IH [of room rd "h @ c" "n + len c" s1 y] rd ok rest(1) More by simp
      qed (use eq r ok rest in \<open>auto simp: Let_def split: if_splits\<close>)
    qed
  qed
  then show ?thesis by simp
qed

end

context source
begin

lemma copy_loop_returns:
  assumes "0 < room"
  shows "\<exists>s'. copy_loop room read h n s = Some ((h @ rest s, n + len (rest s), None), s')"
proof (induction "length (rest s)" arbitrary: h n s rule: less_induct)
  case less
  obtain c st s' where r: "read room s = Some ((c, st), s')"
    using read_returns by (metis prod.collapse)
  have fits: "\<not> room < length c" using read_fits [OF r] by simp
  have pre: "rest s = c @ rest s'" using read_prefix [OF r] read_no_error r by blast
  show ?case
  proof (cases st)
    case More
    then have "length (rest s') < length (rest s)" using read_progress r assms pre by auto
    from less.hyps [OF this, of "h @ c" "n + len c"]
    show ?thesis using r fits More pre by (subst copy_loop.simps) (simp add: Let_def add.assoc)
  next
    case EOF
    then have "rest s' = []" using read_end r by blast
    then show ?thesis using r fits EOF pre by (subst copy_loop.simps) (simp add: Let_def)
  next
    case (Failed e)
    then show ?thesis using read_no_error r by blast
  qed
qed

end

subsection \<open>Digests\<close>

definition hex_digit :: "nat \<Rightarrow> char" where
  "hex_digit n = (if n < 10 then char_of (48 + n) else char_of (87 + n))"

definition EncodeToString :: "string \<Rightarrow> string" where
  "EncodeToString bs = concat (map (\<lambda>b. [hex_digit (byte_val b div 16), hex_digit (byte_val b mod 16)]) bs)"

definition SHA256HexBytes :: "string \<Rightarrow> string" where
  "SHA256HexBytes b = EncodeToString (sha256 b)"

definition SHA256HexString :: "string \<Rightarrow> string" where
  "SHA256HexString s = SHA256HexBytes s"

text \<open>The reader that observes the context, as package \<^verbatim>\<open>content\<close> has it.\<close>

definition hash_ctx_read :: "('s, 'e) ctx \<Rightarrow> ('s, 'e IOError) reader \<Rightarrow> ('s, 'e IOError) reader" where
  "hash_ctx_read ctx rd n s =
     (case ctx s of
        (Some err, s') \<Rightarrow> Some (([], Failed (ContextDone err)), s')
      | (None, s') \<Rightarrow> rd n s')"

datatype 'e HashError = HashAborted 'e | HashRead "'e IOError"

definition SHA256HexReader ::
  "('s, 'e) ctx \<Rightarrow> ('s, 'e IOError) reader \<Rightarrow> 's \<Rightarrow>
   ((string \<times> int \<times> 'e HashError option) \<times> 's) option" where
  "SHA256HexReader ctx rd s =
     (case ctx s of
        (Some cerr, s') \<Rightarrow> Some (([], 0, Some (HashAborted cerr)), s')
      | (None, s') \<Rightarrow>
          do { r \<leftarrow> io_Copy (hash_ctx_read ctx rd) s';
               Some (case snd (snd (fst r)) of
                       Some err \<Rightarrow> ([], fst (snd (fst r)), Some (HashRead err))
                     | None \<Rightarrow> (EncodeToString (sha256 (fst (fst r))), fst (snd (fst r)), None), snd r) })"

declare hex_digit_def [go_eval] EncodeToString_def [go_eval] SHA256HexBytes_def [go_eval]
  io_Copy_def [go_eval] hash_ctx_read_def [go_eval] SHA256HexReader_def [go_eval]

lemma hash_ctx_read_eq: "hash_ctx_read = ctx_read"
  by (intro ext) (simp add: hash_ctx_read_def ctx_read_def)

text \<open>A digest is 64 lowercase hexadecimal digits.\<close>

lemma hex_digit_in: "n < 16 \<Longrightarrow> hex_digit n \<in> set ''0123456789abcdef''"
proof -
  assume "n < 16"
  then have "n \<in> set [0..<16]" by simp
  then show ?thesis by (simp add: upt_rec) (elim disjE; simp add: hex_digit_def char_of_def bit_0)
qed

lemma byte_nibbles: "(byte_val b :: nat) div 16 < 16" "(byte_val b :: nat) mod 16 < 16"
  using less_mult_imp_div_less [of "byte_val b" 16 16] byte_val_less [of b] by simp_all

lemma EncodeToString_digits:
  "length (EncodeToString bs) = 2 * length bs" "set (EncodeToString bs) \<subseteq> set ''0123456789abcdef''"
  using hex_digit_in [OF byte_nibbles(1)] hex_digit_in [OF byte_nibbles(2)]
  by (induction bs) (auto simp: EncodeToString_def)

lemma SHA256HexBytes_digits:
  "length (SHA256HexBytes b) = 64" "set (SHA256HexBytes b) \<subseteq> set ''0123456789abcdef''"
  unfolding SHA256HexBytes_def EncodeToString_digits(1) sha256_length
  by (simp, rule EncodeToString_digits(2))

text \<open>
  Streaming and buffering agree, and no digest of a part is ever returned: whatever reads
  return and whenever the context ends, a digest without an error is that of the complete
  content, together with its length, in 64 lowercase hexadecimal digits.
\<close>

theorem SHA256HexReader_whole:
  assumes "stream rd rest" and "aside ctx rest"
    and "SHA256HexReader ctx rd s = Some ((digest, n, None), s')"
  shows "digest = SHA256HexBytes (rest s) \<and> n = len (rest s)
    \<and> length digest = 64 \<and> set digest \<subseteq> set ''0123456789abcdef''"
proof -
  have c: "rest (snd (ctx s)) = rest s" using assms(2) by (simp add: aside_def)
  obtain d where d: "copy_loop (32 * 1024) (ctx_read ctx rd) [] 0 (snd (ctx s)) = Some ((d, n, None), s')"
    "digest = EncodeToString (sha256 d)"
    using assms(3) by (auto simp: SHA256HexReader_def hash_ctx_read_eq io_Copy_def bind_eq_Some
        split: prod.splits option.splits)
  from stream.copy_loop_content [OF ctx_read_stream [OF assms(1,2)] d(1)]
  have "digest = SHA256HexBytes (rest s)" "n = len (rest s)"
    using d(2) c by (simp_all add: SHA256HexBytes_def)
  then show ?thesis using SHA256HexBytes_digits [of "rest s"] by blast
qed

lemma SHA256HexReader_source:
  assumes "source rd rest" and "calm_ctx ctx" and "aside ctx rest"
  shows "\<exists>s'. SHA256HexReader ctx rd s = Some ((SHA256HexBytes (rest s), len (rest s), None), s')"
proof -
  obtain s1 where c: "ctx s = (None, s1)" "rest s1 = rest s"
    using assms(2,3) unfolding calm_ctx_def aside_def by (metis prod.collapse)
  obtain s' where "copy_loop (32 * 1024) (ctx_read ctx rd) [] 0 s1 = Some (([] @ rest s1, 0 + len (rest s1), None), s')"
    using source.copy_loop_returns [OF ctx_read_source [OF assms], of "32 * 1024" "[]" 0 s1] by auto
  then show ?thesis using c
    by (simp add: SHA256HexReader_def hash_ctx_read_eq io_Copy_def SHA256HexBytes_def)
qed

theorem SHA256HexReader_whole_witness:
  "\<exists>s' digest. SHA256HexReader (quiet :: (string, nat) ctx) drip ''Go'' = Some ((digest, 2, None), s')
    \<and> digest = SHA256HexBytes ''Go'' \<and> (2 :: int) = len ''Go''
    \<and> length digest = 64 \<and> set digest \<subseteq> set ''0123456789abcdef''"
proof -
  obtain s' where s: "SHA256HexReader (quiet :: (string, nat) ctx) drip ''Go'' =
      Some ((SHA256HexBytes ''Go'', len ''Go'', None), s')"
    using SHA256HexReader_source [OF drip_source quiet_calm] by blast
  from SHA256HexReader_whole [OF source.axioms(1) [OF drip_source] quiet_calm(2) s] s
  show ?thesis by auto
qed

end
