(* ===== verification/Clone.thy ===== *)
theory Clone
  imports Content Embed
begin

text \<open>
  What values share: Go maps and pointers are references into a heap, so a plain copy of a
  \<open>Source\<close>, an \<open>Artifact\<close> (\<^verbatim>\<open>content/content.go\<close>) or an \<open>Input\<close>
  (\<^verbatim>\<open>embed/embed.go\<close>) aliases its metadata. Here these are records of references, as in
  memory, and their \<open>Clone\<close> operations allocate.
\<close>

subsection \<open>The heap\<close>

text \<open>A cell is a map or a store handle; references count up, and \<open>free\<close> is the next one.\<close>

datatype cell = MapCell "string \<rightharpoonup> string" | HandleCell StoreHandle

record Heap =
  cells :: "nat \<rightharpoonup> cell"
  free :: nat

definition heap_ok :: "Heap \<Rightarrow> bool" where
  "heap_ok h \<longleftrightarrow> (\<forall>r \<in> dom (cells h). r < free h)"

definition alloc :: "cell \<Rightarrow> Heap \<Rightarrow> nat \<times> Heap" where
  "alloc c h = (free h, \<lparr>cells = (cells h)(free h \<mapsto> c), free = free h + 1\<rparr>)"

text \<open>\<open>maps.Clone\<close>: a nil map stays nil, any other map is copied into a new one.\<close>

definition maps_Clone :: "nat option \<Rightarrow> Heap \<Rightarrow> nat option \<times> Heap" where
  "maps_Clone p h =
     (case p of
        None \<Rightarrow> (None, h)
      | Some r \<Rightarrow> (case cells h r of
          Some (MapCell m) \<Rightarrow> map_prod Some id (alloc (MapCell m) h)
        | _ \<Rightarrow> (p, h)))"

text \<open>What a caller can do through a reference it holds.\<close>

datatype mutation = PutKey nat string string | DeleteKey nat string | SetHandle nat StoreHandle

fun target :: "mutation \<Rightarrow> nat" where
  "target (PutKey r k v) = r"
| "target (DeleteKey r k) = r"
| "target (SetHandle r s) = r"

fun mutate :: "mutation \<Rightarrow> cell \<Rightarrow> cell" where
  "mutate (PutKey r k v) (MapCell m) = MapCell (m(k \<mapsto> v))"
| "mutate (DeleteKey r k) (MapCell m) = MapCell (m(k := None))"
| "mutate (SetHandle r s) (HandleCell s') = HandleCell s"
| "mutate _ c = c"

definition poke :: "mutation \<Rightarrow> Heap \<Rightarrow> Heap" where
  "poke w h = h\<lparr>cells := (cells h)(target w := map_option (mutate w) (cells h (target w)))\<rparr>"

abbreviation pokes :: "mutation list \<Rightarrow> Heap \<Rightarrow> Heap" where
  "pokes ws h \<equiv> fold poke ws h"

lemma pokes_elsewhere: "r \<notin> target ` set ws \<Longrightarrow> cells (pokes ws h) r = cells h r"
  by (induction ws arbitrary: h) (auto simp: poke_def)

text \<open>
  A step of the heap that only allocates: every cell stays as it is, and the new ones are above
  \<open>free\<close>.
\<close>

definition extends :: "Heap \<Rightarrow> Heap \<Rightarrow> bool" where
  "extends h h' \<longleftrightarrow> free h \<le> free h' \<and> heap_ok h' \<and> (\<forall>r < free h. cells h' r = cells h r)"

lemma extends_refl: "heap_ok h \<Longrightarrow> extends h h"
  by (simp add: extends_def)

lemma extends_trans: "extends h h' \<Longrightarrow> extends h' h'' \<Longrightarrow> extends h h''"
  by (auto simp: extends_def)

lemma alloc_extends: "heap_ok h \<Longrightarrow> extends h (snd (alloc c h))"
  by (auto simp: extends_def alloc_def heap_ok_def less_Suc_eq)

lemma maps_Clone_extends: "heap_ok h \<Longrightarrow> extends h (snd (maps_Clone p h))"
  using alloc_extends extends_refl
  by (auto simp: maps_Clone_def split: option.split cell.split)

text \<open>What a reference of a kind is worth.\<close>

definition load_map :: "Heap \<Rightarrow> nat option \<Rightarrow> (string \<rightharpoonup> string) option" where
  "load_map h p = (case p of None \<Rightarrow> None | Some r \<Rightarrow>
     (case cells h r of Some (MapCell m) \<Rightarrow> Some m | _ \<Rightarrow> None))"

definition load_handle :: "Heap \<Rightarrow> nat option \<Rightarrow> StoreHandle option" where
  "load_handle h p = (case p of None \<Rightarrow> None | Some r \<Rightarrow>
     (case cells h r of Some (HandleCell s) \<Rightarrow> Some s | _ \<Rightarrow> None))"

definition map_ref :: "Heap \<Rightarrow> nat option \<Rightarrow> bool" where
  "map_ref h p \<longleftrightarrow> (case p of None \<Rightarrow> True | Some r \<Rightarrow> (\<exists>m. cells h r = Some (MapCell m)))"

definition handle_ref :: "Heap \<Rightarrow> nat option \<Rightarrow> bool" where
  "handle_ref h p \<longleftrightarrow> (case p of None \<Rightarrow> True | Some r \<Rightarrow> (\<exists>s. cells h r = Some (HandleCell s)))"

lemma ref_below: "heap_ok h \<Longrightarrow> map_ref h (Some r) \<or> handle_ref h (Some r) \<Longrightarrow> r < free h"
  by (auto simp: heap_ok_def map_ref_def handle_ref_def)

lemma extends_cell: "extends h h' \<Longrightarrow> heap_ok h \<Longrightarrow> cells h r = Some c \<Longrightarrow> cells h' r = Some c"
  by (metis domI extends_def heap_ok_def)

lemma maps_Clone_spec:
  assumes "heap_ok h" and "map_ref h p" and "maps_Clone p h = (p', h')"
  shows "load_map h' p' = load_map h p" "map_ref h' p'" "set_option p' \<subseteq> {free h..<free h'}"
  using assms by (auto simp: maps_Clone_def map_ref_def load_map_def alloc_def split: option.splits)

subsection \<open>Sources, artifacts and inputs in memory\<close>

record SourceRef =
  sr_ID :: string
  sr_MediaType :: MediaType
  sr_Hash :: string
  sr_Raw :: StoreHandle
  sr_Metadata :: "nat option"

record ArtifactRef =
  ar_ID :: string
  ar_MediaType :: MediaType
  ar_DerivedFrom :: string
  ar_Text :: string
  ar_Blob :: "nat option"
  ar_Metadata :: "nat option"

record InputRef =
  ir_SourceID :: string
  ir_ArtifactID :: string
  ir_Chunk :: Chunk
  ir_Title :: string
  ir_Metadata :: "nat option"

definition Source_Clone :: "SourceRef \<Rightarrow> Heap \<Rightarrow> SourceRef \<times> Heap" where
  "Source_Clone s h = (let (p, h') = maps_Clone (sr_Metadata s) h in (s\<lparr>sr_Metadata := p\<rparr>, h'))"

definition Artifact_Clone :: "ArtifactRef \<Rightarrow> Heap \<Rightarrow> ArtifactRef \<times> Heap" where
  "Artifact_Clone a h =
     (let (p, h') = maps_Clone (ar_Metadata a) h; a' = a\<lparr>ar_Metadata := p\<rparr> in
      case ar_Blob a' of
        None \<Rightarrow> (a', h')
      | Some r \<Rightarrow>
          (case cells h' r of
             Some c \<Rightarrow> let (b, h'') = alloc c h' in (a'\<lparr>ar_Blob := Some b\<rparr>, h'')
           | None \<Rightarrow> (a', h')))"

definition cloneInput_ref :: "InputRef \<Rightarrow> Heap \<Rightarrow> InputRef \<times> Heap" where
  "cloneInput_ref i h = (let (p, h') = maps_Clone (ir_Metadata i) h in (i\<lparr>ir_Metadata := p\<rparr>, h'))"

text \<open>What they hold, with the difference between a nil map and an empty one.\<close>

definition source_value where
  "source_value h s = (sr_ID s, sr_MediaType s, sr_Hash s, sr_Raw s, load_map h (sr_Metadata s))"

definition artifact_value where
  "artifact_value h a = (ar_ID a, ar_MediaType a, ar_DerivedFrom a, ar_Text a,
     load_handle h (ar_Blob a), load_map h (ar_Metadata a))"

definition input_value where
  "input_value h i = (ir_SourceID i, ir_ArtifactID i, ir_Chunk i, ir_Title i, load_map h (ir_Metadata i))"

definition source_refs where "source_refs s = set_option (sr_Metadata s)"
definition artifact_refs where "artifact_refs a = set_option (ar_Metadata a) \<union> set_option (ar_Blob a)"
definition input_refs where "input_refs i = set_option (ir_Metadata i)"

definition source_ok where "source_ok h s \<longleftrightarrow> map_ref h (sr_Metadata s)"
definition artifact_ok where "artifact_ok h a \<longleftrightarrow> map_ref h (ar_Metadata a) \<and> handle_ref h (ar_Blob a)"
definition input_ok where "input_ok h i \<longleftrightarrow> map_ref h (ir_Metadata i)"

subsection \<open>The contract of a clone\<close>

locale cloning =
  fixes clone :: "'a \<Rightarrow> Heap \<Rightarrow> 'a \<times> Heap"
    and val :: "Heap \<Rightarrow> 'a \<Rightarrow> 'v"
    and refs :: "'a \<Rightarrow> nat set"
    and ok :: "Heap \<Rightarrow> 'a \<Rightarrow> bool"
  assumes val_frame: "\<forall>r \<in> refs a. cells h' r = cells h r \<Longrightarrow> val h' a = val h a"
    and refs_old: "heap_ok h \<Longrightarrow> ok h a \<Longrightarrow> refs a \<subseteq> {..<free h}"
    and clone_extends: "heap_ok h \<Longrightarrow> ok h a \<Longrightarrow> clone a h = (a', h') \<Longrightarrow> extends h h'"
    and clone_value: "heap_ok h \<Longrightarrow> ok h a \<Longrightarrow> clone a h = (a', h') \<Longrightarrow> ok h' a' \<and> val h' a' = val h a"
    and clone_fresh: "heap_ok h \<Longrightarrow> ok h a \<Longrightarrow> clone a h = (a', h') \<Longrightarrow> refs a' \<subseteq> {free h..<free h'}"
begin

lemma disjoint:
  assumes "heap_ok h" and "ok h a" and "clone a h = (a', h')"
  shows "refs a \<inter> refs a' = {}"
  using refs_old [OF assms(1,2)] clone_fresh [OF assms] by force

lemma original:
  assumes "heap_ok h" and "ok h a" and "clone a h = (a', h')" and "target ` set ws \<inter> refs a = {}"
  shows "val (pokes ws h') a = val h a"
proof (rule val_frame, rule ballI)
  fix r assume r: "r \<in> refs a"
  then have "r < free h" using refs_old [OF assms(1,2)] by auto
  then have "cells h' r = cells h r" using clone_extends [OF assms(1-3)] by (simp add: extends_def)
  moreover have "r \<notin> target ` set ws" using r assms(4) by blast
  ultimately show "cells (pokes ws h') r = cells h r" by (simp add: pokes_elsewhere)
qed

lemma copy:
  assumes "heap_ok h" and "ok h a" and "clone a h = (a', h')" and "target ` set ws \<inter> refs a' = {}"
  shows "val (pokes ws h') a' = val h a"
proof -
  have "\<forall>r \<in> refs a'. cells (pokes ws h') r = cells h' r"
    using assms(4) by (auto intro!: pokes_elsewhere)
  then have "val (pokes ws h') a' = val h' a'" by (rule val_frame)
  then show ?thesis using clone_value [OF assms(1-3)] by simp
qed

text \<open>Whatever the holders of the two do through their references, neither sees the other.\<close>

lemma independent:
  assumes "heap_ok h" and "ok h a" and "clone a h = (a', h')"
    and "target ` set ws \<subseteq> refs a'" and "target ` set vs \<subseteq> refs a"
  shows "val h' a' = val h a \<and> val (pokes ws h') a = val h a \<and> val (pokes vs h') a' = val h a"
  using clone_value [OF assms(1-3)] disjoint [OF assms(1-3)] assms(4,5)
    original [OF assms(1-3), of ws] copy [OF assms(1-3), of vs] by blast

end

subsection \<open>The clones of the program\<close>

lemma load_map_frame: "\<forall>r \<in> set_option p. cells h' r = cells h r \<Longrightarrow> load_map h' p = load_map h p"
  and load_handle_frame: "\<forall>r \<in> set_option p. cells h' r = cells h r \<Longrightarrow> load_handle h' p = load_handle h p"
  by (auto simp: load_map_def load_handle_def split: option.split)

lemma map_ref_below: "heap_ok h \<Longrightarrow> map_ref h p \<Longrightarrow> set_option p \<subseteq> {..<free h}"
  and handle_ref_below: "heap_ok h \<Longrightarrow> handle_ref h p \<Longrightarrow> set_option p \<subseteq> {..<free h}"
  using ref_below by (cases p; auto)+

lemmas ref_facts = load_map_frame load_handle_frame map_ref_below handle_ref_below

interpretation src: cloning Source_Clone source_value source_refs source_ok
proof unfold_locales
  fix h h' :: Heap and a a' :: SourceRef
  show "\<forall>r \<in> source_refs a. cells h' r = cells h r \<Longrightarrow> source_value h' a = source_value h a"
    by (simp add: source_value_def source_refs_def ref_facts)
  assume ok: "heap_ok h" "source_ok h a"
  then show "source_refs a \<subseteq> {..<free h}" by (simp add: source_ok_def source_refs_def ref_facts)
  assume c: "Source_Clone a h = (a', h')"
  obtain p where m: "maps_Clone (sr_Metadata a) h = (p, h')" "a' = a\<lparr>sr_Metadata := p\<rparr>"
    using c by (auto simp: Source_Clone_def split: prod.splits)
  note sp = maps_Clone_spec [OF ok(1) _ m(1)]
  show "extends h h'" using maps_Clone_extends [OF ok(1), of "sr_Metadata a"] m(1) by simp
  show "source_ok h' a' \<and> source_value h' a' = source_value h a" "source_refs a' \<subseteq> {free h..<free h'}"
    using sp ok(2) m(2) by (simp_all add: source_ok_def source_value_def source_refs_def)
qed

interpretation inp: cloning cloneInput_ref input_value input_refs input_ok
proof unfold_locales
  fix h h' :: Heap and a a' :: InputRef
  show "\<forall>r \<in> input_refs a. cells h' r = cells h r \<Longrightarrow> input_value h' a = input_value h a"
    by (simp add: input_value_def input_refs_def ref_facts)
  assume ok: "heap_ok h" "input_ok h a"
  then show "input_refs a \<subseteq> {..<free h}" by (simp add: input_ok_def input_refs_def ref_facts)
  assume c: "cloneInput_ref a h = (a', h')"
  obtain p where m: "maps_Clone (ir_Metadata a) h = (p, h')" "a' = a\<lparr>ir_Metadata := p\<rparr>"
    using c by (auto simp: cloneInput_ref_def split: prod.splits)
  note sp = maps_Clone_spec [OF ok(1) _ m(1)]
  show "extends h h'" using maps_Clone_extends [OF ok(1), of "ir_Metadata a"] m(1) by simp
  show "input_ok h' a' \<and> input_value h' a' = input_value h a" "input_refs a' \<subseteq> {free h..<free h'}"
    using sp ok(2) m(2) by (simp_all add: input_ok_def input_value_def input_refs_def)
qed

lemma Artifact_Clone_steps:
  assumes "heap_ok h" and "artifact_ok h a" and "Artifact_Clone a h = (a', h')"
  obtains p h1 b where "maps_Clone (ar_Metadata a) h = (p, h1)" and "extends h h1" and "extends h1 h'"
    and "a' = a\<lparr>ar_Metadata := p, ar_Blob := b\<rparr>" and "load_handle h' b = load_handle h (ar_Blob a)"
    and "handle_ref h' b" and "set_option b \<subseteq> {free h1..<free h'}"
proof -
  obtain p h1 where m: "maps_Clone (ar_Metadata a) h = (p, h1)" by fastforce
  have e: "extends h h1" using maps_Clone_extends [OF assms(1), of "ar_Metadata a"] m by simp
  then have ok1: "heap_ok h1" by (simp add: extends_def)
  show ?thesis
  proof (cases "ar_Blob a")
    case None
    then have "a' = a\<lparr>ar_Metadata := p, ar_Blob := None\<rparr>" "h' = h1"
      using assms(3) m by (auto simp: Artifact_Clone_def)
    then show ?thesis
      using m e extends_refl [OF ok1] None that [of p h1 None]
      by (simp add: load_handle_def handle_ref_def)
  next
    case (Some r)
    then obtain s where s: "cells h r = Some (HandleCell s)"
      using assms(2) by (auto simp: artifact_ok_def handle_ref_def)
    then have "cells h1 r = Some (HandleCell s)" using extends_cell [OF e assms(1)] by blast
    then have "a' = a\<lparr>ar_Metadata := p, ar_Blob := Some (free h1)\<rparr>" "h' = snd (alloc (HandleCell s) h1)"
      using assms(3) m Some by (auto simp: Artifact_Clone_def alloc_def)
    then show ?thesis
      using m e alloc_extends [OF ok1] Some s that [of p h1 "Some (free h1)"]
      by (simp add: load_handle_def handle_ref_def alloc_def)
  qed
qed

interpretation art: cloning Artifact_Clone artifact_value artifact_refs artifact_ok
proof unfold_locales
  fix h h' :: Heap and a a' :: ArtifactRef
  show "\<forall>r \<in> artifact_refs a. cells h' r = cells h r \<Longrightarrow> artifact_value h' a = artifact_value h a"
    by (simp add: artifact_value_def artifact_refs_def ref_facts)
  assume ok: "heap_ok h" "artifact_ok h a"
  then show "artifact_refs a \<subseteq> {..<free h}" by (simp add: artifact_ok_def artifact_refs_def ref_facts)
  assume c: "Artifact_Clone a h = (a', h')"
  obtain p h1 b where m: "maps_Clone (ar_Metadata a) h = (p, h1)" "extends h h1" "extends h1 h'"
    "a' = a\<lparr>ar_Metadata := p, ar_Blob := b\<rparr>" "load_handle h' b = load_handle h (ar_Blob a)"
    "handle_ref h' b" "set_option b \<subseteq> {free h1..<free h'}"
    by (rule Artifact_Clone_steps [OF ok c])
  show "extends h h'" by (rule extends_trans [OF m(2,3)])
  have sp: "load_map h1 p = load_map h (ar_Metadata a)" "map_ref h1 p" "set_option p \<subseteq> {free h..<free h1}"
    using maps_Clone_spec [OF ok(1) _ m(1)] ok(2) by (simp_all add: artifact_ok_def)
  have same: "\<forall>r \<in> set_option p. cells h' r = cells h1 r"
    using sp(3) m(3) by (auto simp: extends_def)
  have "load_map h' p = load_map h1 p" using same by (rule load_map_frame)
  moreover have "map_ref h' p" using sp(2) same by (auto simp: map_ref_def split: option.splits)
  ultimately show "artifact_ok h' a' \<and> artifact_value h' a' = artifact_value h a"
    using m(4-6) sp(1) by (simp add: artifact_ok_def artifact_value_def)
  show "artifact_refs a' \<subseteq> {free h..<free h'}"
    using m(2-4,7) sp(3) by (auto simp: artifact_refs_def extends_def)
qed

lemmas Source_Clone_independent = src.independent
lemmas cloneInput_independent = inp.independent

text \<open>
  C39: \<open>Clone\<close> makes an independent copy. The clone of an artifact holds what the original holds
  (nil stays nil), and whatever one holder does afterwards through the references of its own
  value, to the metadata or to the handle behind the blob pointer, the other one does not see.
\<close>

theorem Artifact_Clone_independent:
  assumes "heap_ok h" and "artifact_ok h a" and "Artifact_Clone a h = (a', h')"
    and "target ` set ws \<subseteq> artifact_refs a'" and "target ` set vs \<subseteq> artifact_refs a"
  shows "artifact_value h' a' = artifact_value h a
    \<and> artifact_value (pokes ws h') a = artifact_value h a
    \<and> artifact_value (pokes vs h') a' = artifact_value h a"
  by (rule art.independent [OF assms])

text \<open>An artifact with a blob and metadata; the holder of a plain copy would change it.\<close>

definition demo_heap :: Heap where
  "demo_heap = \<lparr>cells = [0 \<mapsto> MapCell [''page'' \<mapsto> ''1''], 1 \<mapsto> HandleCell \<lparr>Backend = ''gcs'', sh_Key = ''k''\<rparr>],
     free = 2\<rparr>"

definition demo_artifact :: ArtifactRef where
  "demo_artifact = \<lparr>ar_ID = ''a'', ar_MediaType = ''image/png'', ar_DerivedFrom = ''s'', ar_Text = [],
     ar_Blob = Some 1, ar_Metadata = Some 0\<rparr>"

definition demo_pokes :: "mutation list" where
  "demo_pokes = [PutKey 2 ''page'' ''7'', SetHandle 3 \<lparr>Backend = ''fs'', sh_Key = ''x''\<rparr>]"

lemma plain_copy_aliases:
  "load_map (pokes [PutKey 0 ''page'' ''7''] demo_heap) (ar_Metadata demo_artifact) = Some [''page'' \<mapsto> ''7'']"
  by (simp add: demo_heap_def demo_artifact_def load_map_def poke_def)

theorem Artifact_Clone_independent_witness:
  "\<exists>a' h'. Artifact_Clone demo_artifact demo_heap = (a', h')
    \<and> load_map (pokes demo_pokes h') (ar_Metadata a') = Some [''page'' \<mapsto> ''7'']
    \<and> artifact_value h' a' = artifact_value demo_heap demo_artifact
    \<and> artifact_value (pokes demo_pokes h') demo_artifact = artifact_value demo_heap demo_artifact
    \<and> artifact_value (pokes [] h') a' = artifact_value demo_heap demo_artifact"
proof -
  obtain a' h' where c: "Artifact_Clone demo_artifact demo_heap = (a', h')" by fastforce
  then have r: "ar_Metadata a' = Some 2" "ar_Blob a' = Some 3"
    and m: "cells h' 2 = Some (MapCell [''page'' \<mapsto> ''1''])"
    by (auto simp: Artifact_Clone_def maps_Clone_def alloc_def demo_artifact_def demo_heap_def)
  have ok: "heap_ok demo_heap" "artifact_ok demo_heap demo_artifact"
    by (simp_all add: heap_ok_def demo_heap_def artifact_ok_def map_ref_def handle_ref_def demo_artifact_def)
  have "load_map (pokes demo_pokes h') (ar_Metadata a') = Some [''page'' \<mapsto> ''7'']"
    by (simp add: r m load_map_def demo_pokes_def poke_def)
  then show ?thesis
    using Artifact_Clone_independent [OF ok c, of demo_pokes "[]"] c
    by (simp add: artifact_refs_def r demo_pokes_def)
qed

end
