(* ===== verification/Spec2Isabelle.thy ===== *)
theory Spec2Isabelle
  imports Chunk_Greedy Chunk_Sections Chunk_Markdown Embed_Trace Pipeline Store_Linear Gcs_Examples
    Extract_Errors Pptx_Budget Purego_Examples Hash Clone
begin

text \<open>
  A verification library for maestro-cms: a Go library that turns stored documents into embedded
  chunks. This theory imports all others and holds the guide to them.

  \<^bold>\<open>The program.\<close> An application keeps sources and the artifacts derived from them
  (\<^verbatim>\<open>content\<close>) in an object store (\<^verbatim>\<open>store\<close>, with the GCS adapter
  \<^verbatim>\<open>store/gcs\<close> and the fake \<^verbatim>\<open>testcms\<close>). A registry dispatches a source by media type to
  an extractor (\<^verbatim>\<open>extract\<close> and its subpackages for text, Markdown, HTML, DOCX, PPTX and PDF,
  wired by \<^verbatim>\<open>extract/preset\<close>), which yields text artifacts. \<^verbatim>\<open>chunk\<close> splits a text into
  chunks under a token budget, \<^verbatim>\<open>embed\<close> sends the chunks in batches to an embedding client and
  assembles the records to persist. The library keeps no state of its own between calls, apart from
  the registry, the fake store and the fake client.

  \<^bold>\<open>Conventions.\<close> A Go string or byte slice is a list of characters, one for each byte;
  indices and lengths are \<open>int\<close>, sums that can wrap are \<open>add64\<close>, and the window of the prose
  splitter is computed in binary floating point (\<open>Float64\<close>). \<open>None\<close> as a result is a run-time
  panic or a loop that does not end (\<open>partial_function (option)\<close>); a Go error is a value of a
  datatype, on the left of a sum or in an option. Effects are passed explicitly: whatever a caller
  injects (a reader, a context, a client, a service) is a function on a state of its own.
  No fuel is used: loops are recursive functions with a measure, or partial functions
  whose termination is proved where a property needs it (\<open>Split_returns\<close>, \<open>ReadAll_source\<close>).

  \<^bold>\<open>Foundations.\<close> \<open>Prelude\<close> (slicing, 64-bit sums, the collections \<open>go_eval\<close>, \<open>spans\<close>,
  \<open>eval_congs\<close>), \<open>Go_Strings\<close>, \<open>Go_Trim\<close>, \<open>Go_Lines\<close> (\<^verbatim>\<open>unicode/utf8\<close> and \<^verbatim>\<open>strings\<close>, the
  line table of a text), \<open>Go_IO\<close> (readers and \<^verbatim>\<open>io.ReadAll\<close>), \<open>Float64\<close> and \<open>Sha256\<close>: the parts
  of Go's standard library the program uses.

  \<^bold>\<open>Chunking\<close> (\<^verbatim>\<open>chunk/chunk.go\<close>, \<^verbatim>\<open>headings.go\<close>, \<^verbatim>\<open>codesplit.go\<close>). \<open>Chunk_Core\<close>: units, chunks,
  the estimator, \<open>growChunk\<close>, \<open>overlapStart\<close>, \<open>validUnits\<close>. \<open>Chunk_Boundaries\<close>: the segmenters
  \<open>Paragraphs\<close> and \<open>Headings\<close>; \<open>Chunk_Markdown\<close> and \<open>Chunk_Sections\<close> show that they recognize
  the forms of Markdown lines and cut where reference definitions on lines say. \<open>Chunk_Split\<close>: the
  splitters \<open>hardSplitProse\<close>, \<open>splitLines\<close>, \<open>splitFenced\<close>, \<open>hardSplit\<close> and the entry point
  \<open>Split\<close>; the code's three packing loops are one function \<open>pack_loop\<close>, with the treatment of an
  oversize region as its argument. \<open>Chunk_Emits\<close>, \<open>Chunk_Pack\<close>, \<open>Chunk_Prose\<close>, \<open>Chunk_Code\<close>: the
  contract of a splitter and that each of them meets it. \<open>Chunk_Correct\<close>: the properties of
  \<open>Split\<close> (it returns, loses nothing, cuts no fence or unit that fits, keeps order, budget and
  UTF-8, rebuilds the text without overlap); \<open>Chunk_Greedy\<close>: which units each chunk takes.

  \<^bold>\<open>Embedding\<close> (\<^verbatim>\<open>embed/embed.go\<close>). \<open>Embed\<close>: validation, batching, one batch with bisection, the
  run; the context, the \<^verbatim>\<open>llms\<close> client and its error classification are the record \<open>Env\<close>.
  \<open>Embed_Correct\<close>: every input is accounted for, vectors reach their text. \<open>Embed_Isolation\<close>:
  poison inputs are isolated, only valid requests are sent. \<open>Embed_Trace\<close>: a log of the calls
  bounds them and shows that cancellation is final. \<open>Pipeline\<close>: \<open>Split\<close> followed by \<open>Run\<close>.
  \<open>Fake_Embedder\<close>: \<^verbatim>\<open>testcms/embedder.go\<close>, and the runner on top of it.

  \<^bold>\<open>Storage.\<close> \<open>Store\<close>, \<open>Store_Correct\<close>: the interfaces of \<^verbatim>\<open>store/store.go\<close> as locales and
  \<^verbatim>\<open>testcms/memorystore.go\<close> as their model; \<open>Store_Refine\<close>: it refines a map from keys to contents.
  There each operation is one step. \<open>Store_Concurrent\<close> takes the same file statement by statement,
  as a transition system of goroutines and the mutex; \<open>Store_Linear\<close> shows that this is sound: in
  every interleaving the calls are linearizable, and none can get stuck.
  \<open>Gcs\<close>, \<open>Gcs_Correct\<close>: \<^verbatim>\<open>store/gcs/gcs.go\<close> over the record \<open>Sdk\<close> of SDK calls; the hypothesis
  \<open>serves\<close> states the documented behaviour of the service, under which the adapter refines the same
  specification as the fake; there the service makes each operation one step.

  \<^bold>\<open>Content and extraction.\<close> \<open>Content\<close>, \<open>Hash\<close>: \<^verbatim>\<open>content/content.go\<close> and \<^verbatim>\<open>hash.go\<close>; \<open>Clone\<close>: the
  copies of \<open>content\<close> and \<open>embed\<close> over a heap, where maps and pointers can be shared. \<open>Extract\<close>,
  \<open>Extract_Text\<close>, \<open>Extract_Read\<close>, \<open>Extract_Registry\<close>: \<^verbatim>\<open>extract/extract.go\<close>, \<^verbatim>\<open>helpers.go\<close>, \<^verbatim>\<open>text.go\<close>:
  the registry, the limiting and canceling readers, normalization. \<open>Markdown\<close>, \<open>Html\<close>, \<open>Docx\<close>,
  \<open>Pptx\<close>, \<open>Pdf\<close> and \<open>Purego\<close>: the extractors of the packages of these names, with the round trips in
  \<open>Docx\<close> and \<open>Pptx_Deck\<close>, the order of slides in \<open>Pptx_Correct\<close>, the zip-bomb guard of a whole
  deck in \<open>Pptx_Budget\<close>, and what DOCX and PPTX share in
  \<open>Ooxml\<close>. \<open>Purego\<close> is a transition system of the worker goroutine, the caller, the context and the
  timer; \<open>Purego_Correct\<close> has its invariant and that it always ends, in at most four moves.
  \<open>Preset\<close>: the wiring. \<open>Extract_Contract\<close>, \<open>Extract_Errors\<close>: what holds for every extractor of the
  bundle, about the artifacts it returns and about its errors as \<^verbatim>\<open>errors.Is\<close> sees them.

  \<^bold>\<open>Locales\<close> state the contracts between components, each interpreted on the model:
  \<open>segmenter\<close> (by \<open>Paragraphs\<close>, \<open>Headings\<close>), \<open>span_splitter\<close> (by the four splitters), \<open>stream\<close> and
  \<open>source\<close> (readers, by \<^verbatim>\<open>bytes.Reader\<close>), \<open>object_store\<close>, \<open>range_store\<close>, \<open>composer\<close> (by the in-memory
  store), \<open>extractor\<close> and \<open>classified\<close> (by the six extractors), \<open>cloning\<close> (by the three clones).

  \<^bold>\<open>Parameters.\<close> Code outside the repository is an argument: token estimators and boundary functions;
  the out-of-range conversion of a float (\<open>oor\<close>); the growth of the read buffer; \<^verbatim>\<open>mime\<close> parsing; the
  HTML parser (a tree of nodes); zip, flate and XML (the record \<open>Ooxml\<close>, with \<open>delivers\<close> and
  \<open>decodes_parts\<close> as what a decoder of a well-formed part does, \<open>only_reads\<close> and \<open>fits_buffer\<close> as what
  any decoder and reader keep to); \<^verbatim>\<open>sort.Slice\<close> on equal slide numbers;
  the \<^verbatim>\<open>pdftotext\<close> process (\<open>Process\<close>); the PDF parser, each of whose calls returns, panics or hangs
  (\<open>Parser\<close>); the embedding client and the storage SDK.

  \<^bold>\<open>Not modelled\<close>: the texts of error messages; the closing of readers that cannot fail;
  concurrency other than the watchdog's and the in-memory store's, since the other components share
  nothing, apart from the fake client's counters, each of whose updates is one locked section;
  memory exhaustion, except for the capacity of a batch (\<open>max_cap\<close>); in value-level theories, the
  sharing that \<open>Clone\<close> treats. The commented constructors of empty structs, interface assertions and
  test helpers have no content to model.

  \<^bold>\<open>Known deviations\<close>, each proved on a concrete input: \<open>Run_reports_twice\<close> (\<open>Embed_Examples\<close>),
  \<open>Split_blank_chunk\<close> (\<open>Pipeline\<close>), \<open>notesFor_absolute_target\<close> (\<open>Pptx_Examples\<close>),
  \<open>WithMaxBytes_maxint_panics\<close> (\<open>Extract_Examples\<close>), \<open>Pages_race\<close> (\<open>Purego_Examples\<close>), and
  \<open>Run_panics_iff\<close> (\<open>Embed_Isolation\<close>).
\<close>

end
